(* ===== verification/LS_Prelude.thy ===== *)
theory LS_Prelude
  imports Main "HOL-Library.Word" "HOL-Library.AList" "HOL-Library.Char_ord"
    "HOL-Library.List_Lexorder" "HOL-Library.Sublist"
begin

text \<open>
  Shared vocabulary of the development: the machine integers of the Go sources, the
  theorem collections that carry the component proofs, and the generic facts on lists,
  prefixes and association lists which several components use.

  Go's \<open>int64\<close> and (on the 64-bit targets the repository builds for) \<open>int\<close> are modelled by
  \<^typ>\<open>int\<close>; the places where the value is read back from disk or incremented without a
  bound go through \<open>i64\<close>, the two's complement wrap-around.  \<open>uint32\<close> and \<open>uint64\<close> values
  are words.  A Go map is an association list with distinct keys, whose order stands for
  the (arbitrary) iteration order of the map.
\<close>

section \<open>Types\<close>

type_synonym byte = "8 word"
type_synonym uint32 = "32 word"
type_synonym uint64 = "64 word"

text \<open>Conversion to \<open>int64\<close>: two's complement wrap-around.\<close>

definition i64 :: "int \<Rightarrow> int" where
  "i64 x = sint (word_of_int x :: 64 word)"

abbreviation max_i64 :: int where
  "max_i64 \<equiv> 9223372036854775807"

definition in_i64 :: "int \<Rightarrow> bool" where
  "in_i64 x \<longleftrightarrow> - 9223372036854775808 \<le> x \<and> x \<le> max_i64"

text \<open>Facts about byte sequences and about prefixes of records that are kept on disk.\<close>

named_theorems wire "encoded byte sequences and their lengths"
named_theorems golist "facts on lists shared by the components"
named_theorems gomap "facts on association lists standing for Go maps"

section \<open>Machine integers\<close>

lemma i64_id [simp]: "in_i64 x \<Longrightarrow> i64 x = x"
  by (simp add: i64_def in_i64_def signed_of_int signed_take_bit_int_eq_self)

lemma in_i64_i64 [simp]: "in_i64 (i64 x)"
  unfolding i64_def in_i64_def
  using sint_greater_eq [of "word_of_int x :: 64 word"] sint_less [of "word_of_int x :: 64 word"]
  by simp

lemma unat_of_nat_u32 [simp]: "n < 4294967296 \<Longrightarrow> unat (word_of_nat n :: uint32) = n"
  by (simp add: unat_of_nat)

lemma word_of_nat_u32_inj:
  "m < 4294967296 \<Longrightarrow> n < 4294967296 \<Longrightarrow>
     (word_of_nat m :: uint32) = word_of_nat n \<longleftrightarrow> m = n"
  by (metis unat_of_nat_u32)

lemma word_of_nat_u32_less:
  "m < 4294967296 \<Longrightarrow> n < 4294967296 \<Longrightarrow>
     (word_of_nat m :: uint32) < word_of_nat n \<longleftrightarrow> m < n"
  by (simp add: word_less_nat_alt)

lemma nat_diff_succ: "b < m \<Longrightarrow> nat (m - b) = Suc (nat (m - (b + 1)))" for b m :: int
  by simp

section \<open>Lists and prefixes\<close>

lemma take_length_append [simp, golist]: "take (length xs) (xs @ ys) = xs"
  by simp

lemma concat_map_append [golist]: "concat (map f (xs @ ys)) = concat (map f xs) @ concat (map f ys)"
  by simp

lemma sum_list_map_length [golist]: "length (concat (map f xs)) = (\<Sum>x\<leftarrow>xs. length (f x))"
  by (simp add: length_concat comp_def)

lemma length_concat_take_le [golist]:
  "length (concat (map f (take i xs))) \<le> length (concat (map f xs))"
proof -
  have "concat (map f xs) = concat (map f (take i xs)) @ concat (map f (drop i xs))"
    by (metis append_take_drop_id concat_append map_append)
  then show ?thesis by simp
qed

lemma drop_concat_take [golist]:
  "drop (length (concat (map f (take i xs)))) (concat (map f xs)) = concat (map f (drop i xs))"
proof -
  have "concat (map f xs) = concat (map f (take i xs)) @ concat (map f (drop i xs))"
    by (metis append_take_drop_id concat_append map_append)
  then show ?thesis by simp
qed

lemma butlast_last_update [golist]: "xs \<noteq> [] \<Longrightarrow> map f xs = map f (butlast xs) @ [f (last xs)]"
  by (metis append_butlast_last_id list.simps(8,9) map_append)

lemma drop_split [golist]: "drop n xs = take k (drop n xs) @ drop (n + k) xs"
  by (metis add.commute append_take_drop_id drop_drop)

lemma sort_empty [simp, golist]: "sort xs = [] \<longleftrightarrow> xs = []"
  by (metis length_0_conv length_sort)

section \<open>Association lists as Go maps\<close>

text \<open>\<open>m[k] = v\<close>, \<open>delete(m, k)\<close> and \<open>for k, v := range m { m[k] = f(v) }\<close>.\<close>

abbreviation mput :: "'k \<Rightarrow> 'v \<Rightarrow> ('k \<times> 'v) list \<Rightarrow> ('k \<times> 'v) list" where
  "mput \<equiv> AList.update"

abbreviation mdel :: "'k \<Rightarrow> ('k \<times> 'v) list \<Rightarrow> ('k \<times> 'v) list" where
  "mdel \<equiv> AList.delete"

definition mvals :: "('v \<Rightarrow> 'v) \<Rightarrow> ('k \<times> 'v) list \<Rightarrow> ('k \<times> 'v) list" where
  "mvals f m = map (\<lambda>(k, v). (k, f v)) m"

definition mkeys :: "('k \<times> 'v) list \<Rightarrow> 'k list" where
  "mkeys m = map fst m"

definition go_map :: "('k \<times> 'v) list \<Rightarrow> bool" where
  "go_map m \<longleftrightarrow> distinct (mkeys m)"

lemma map_of_mput [simp, gomap]: "map_of (mput k v m) = (map_of m)(k \<mapsto> v)"
  by (rule update_conv')

lemma map_of_mdel [simp, gomap]: "map_of (mdel k m) = (map_of m)(k := None)"
  by (rule delete_conv')

lemma map_of_mvals [simp, gomap]: "map_of (mvals f m) k = map_option f (map_of m k)"
  by (induction m) (auto simp: mvals_def)

lemma mkeys_mvals [simp, gomap]: "mkeys (mvals f m) = mkeys m"
  by (induction m) (auto simp: mkeys_def mvals_def)

lemma set_mkeys: "set (mkeys m) = dom (map_of m)"
  by (simp add: mkeys_def dom_map_of_conv_image_fst)

lemma set_mkeys_mput [simp, gomap]: "set (mkeys (mput k v m)) = insert k (set (mkeys m))"
  by (simp add: set_mkeys)

lemma set_mkeys_mdel [simp, gomap]: "set (mkeys (mdel k m)) = set (mkeys m) - {k}"
  by (simp add: set_mkeys)

lemma go_map_Nil [simp]: "go_map []"
  by (simp add: go_map_def mkeys_def)

lemma go_map_mput [simp, intro]: "go_map m \<Longrightarrow> go_map (mput k v m)"
  by (simp add: go_map_def mkeys_def distinct_update)

lemma go_map_mdel [simp, intro]: "go_map m \<Longrightarrow> go_map (mdel k m)"
  by (simp add: go_map_def mkeys_def distinct_delete)

lemma go_map_mvals [simp]: "go_map (mvals f m) = go_map m"
  by (simp add: go_map_def)

lemma mkeys_filter_sub: "set (mkeys (filter P m)) \<subseteq> set (mkeys m)"
  by (auto simp: mkeys_def)

lemma go_map_filter [simp, intro]: "go_map m \<Longrightarrow> go_map (filter P m)"
  by (induction m) (auto simp: go_map_def mkeys_def)

lemma map_of_filter [gomap]:
  "go_map m \<Longrightarrow> map_of (filter (\<lambda>(k, v). P k v) m) k =
     (case map_of m k of None \<Rightarrow> None | Some v \<Rightarrow> if P k v then Some v else None)"
proof (induction m)
  case Nil
  then show ?case by simp
next
  case (Cons kv m)
  obtain a b where kv: "kv = (a, b)" by (cases kv)
  from Cons.prems have gm: "go_map m" and a: "a \<notin> set (mkeys m)"
    by (auto simp: go_map_def mkeys_def kv)
  from a have none: "map_of (filter (\<lambda>(k, v). P k v) m) a = None"
    using mkeys_filter_sub [of "\<lambda>(k, v). P k v" m]
    by (auto simp: map_of_eq_None_iff mkeys_def)
  show ?case
  proof (cases "a = k")
    case True
    with none kv show ?thesis by auto
  next
    case False
    with Cons.IH [OF gm] kv show ?thesis by auto
  qed
qed

lemma map_of_in_set: "map_of m k = Some v \<Longrightarrow> (k, v) \<in> set m"
  by (rule map_of_SomeD)

lemma go_map_map_of: "go_map m \<Longrightarrow> (k, v) \<in> set m \<Longrightarrow> map_of m k = Some v"
  by (simp add: go_map_def mkeys_def)

lemma mkeys_mput: "mkeys (mput k v m) = (if k \<in> set (mkeys m) then mkeys m else mkeys m @ [k])"
  by (simp add: mkeys_def update_keys)

text \<open>Updating every entry, with its key at hand.\<close>

lemma map_of_map_entries [simp, gomap]:
  "map_of (map (\<lambda>(k, v). (k, f k v)) m) k = map_option (f k) (map_of m k)"
  by (induction m) auto

lemma mkeys_map_entries [simp, gomap]: "mkeys (map (\<lambda>(k, v). (k, f k v)) m) = mkeys m"
  by (induction m) (auto simp: mkeys_def)

lemma go_map_map_entries [simp, gomap]: "go_map (map (\<lambda>(k, v). (k, f k v)) m) = go_map m"
  by (simp add: go_map_def)

lemma list_all_values [gomap]:
  "go_map m \<Longrightarrow> list_all (\<lambda>(k, v). P k v) m \<longleftrightarrow> (\<forall>k v. map_of m k = Some v \<longrightarrow> P k v)"
  by (auto simp: list_all_iff go_map_map_of dest: map_of_SomeD)

lemma list_ex_values [gomap]:
  "go_map m \<Longrightarrow> list_ex (\<lambda>(k, v). P k v) m \<longleftrightarrow> (\<exists>k v. map_of m k = Some v \<and> P k v)"
  by (fastforce simp: list_ex_iff dest: go_map_map_of map_of_SomeD)

lemma mkeys_Nil [simp]: "mkeys m = [] \<longleftrightarrow> m = []"
  by (simp add: mkeys_def)

lemma map_of_nonempty: "m \<noteq> [] \<Longrightarrow> \<exists>k v. map_of m k = Some v"
  by (cases m) auto

lemma mput_nonempty [simp]: "mput k v m \<noteq> []"
  by (cases m) auto

end
