(* ===== verification/LS_Stdlib.thy ===== *)
theory LS_Stdlib
  imports LS_Prelude
begin

text \<open>
  The parts of Go's standard library that the sources call, as executable functions:
  \<open>encoding/binary\<close> (big-endian integers), \<open>hash/crc32\<close> with the Castagnoli polynomial,
  \<open>hash/fnv\<close> (FNV-1a, 32 bit), \<open>sort.Search\<close>, \<open>strconv\<close> and \<open>os.File\<close>.
\<close>

unbundle bit_operations_syntax

section \<open>Package encoding/binary, big-endian\<close>

fun putBE :: "nat \<Rightarrow> nat \<Rightarrow> byte list" where
  "putBE 0 n = []"
| "putBE (Suc k) n = putBE k (n div 256) @ [word_of_nat n]"

definition getBE :: "byte list \<Rightarrow> nat" where
  "getBE bs = foldl (\<lambda>acc b. acc * 256 + unat b) 0 bs"

definition PutUint32 :: "uint32 \<Rightarrow> byte list" where
  "PutUint32 v = putBE 4 (unat v)"

definition PutUint64 :: "uint64 \<Rightarrow> byte list" where
  "PutUint64 v = putBE 8 (unat v)"

definition Uint32 :: "byte list \<Rightarrow> uint32" where
  "Uint32 bs = word_of_nat (getBE (take 4 bs))"

definition Uint64 :: "byte list \<Rightarrow> uint64" where
  "Uint64 bs = word_of_nat (getBE (take 8 bs))"

lemma length_putBE [simp, wire]: "length (putBE k n) = k"
  by (induction k arbitrary: n) auto

lemma length_PutUint32 [simp, wire]: "length (PutUint32 v) = 4"
  by (simp add: PutUint32_def)

lemma length_PutUint64 [simp, wire]: "length (PutUint64 v) = 8"
  by (simp add: PutUint64_def)

lemma getBE_snoc: "getBE (bs @ [b]) = getBE bs * 256 + unat b"
  by (simp add: getBE_def)

lemma unat_of_nat_byte: "unat (word_of_nat n :: byte) = n mod 256"
  by (simp add: unat_of_nat)

lemma getBE_putBE: "getBE (putBE k n) = n mod 256 ^ k"
proof (induction k arbitrary: n)
  case 0
  then show ?case by (simp add: getBE_def)
next
  case (Suc k)
  have "getBE (putBE (Suc k) n) = (n div 256 mod 256 ^ k) * 256 + n mod 256"
    by (simp add: getBE_snoc Suc.IH unat_of_nat_byte)
  also have "\<dots> = n mod (256 * 256 ^ k)"
    by (simp add: mod_mult2_eq)
  finally show ?case by simp
qed

lemma getBE_less: "getBE bs < 256 ^ length bs"
proof (induction bs rule: rev_induct)
  case Nil
  then show ?case by (simp add: getBE_def)
next
  case (snoc b bs)
  have "unat b < 256" using unsigned_less [where 'a = nat, of b] by simp
  with snoc show ?case by (simp add: getBE_snoc)
qed

lemma putBE_getBE: "putBE (length bs) (getBE bs) = bs"
proof (induction bs rule: rev_induct)
  case Nil
  then show ?case by simp
next
  case (snoc b bs)
  have b: "unat b < 256" using unsigned_less [where 'a = nat, of b] by simp
  then have "(getBE bs * 256 + unat b) div 256 = getBE bs" by simp
  moreover have "(word_of_nat (getBE bs * 256 + unat b) :: byte) = b"
    using b by (simp only: word_unat_eq_iff unat_of_nat_byte) simp
  ultimately show ?case by (simp add: getBE_snoc snoc)
qed

lemma Uint32_PutUint32 [simp, wire]: "Uint32 (PutUint32 v @ rest) = v"
proof -
  have "unat v < 256 ^ 4" using unsigned_less [where 'a = nat, of v] by simp
  then show ?thesis by (simp add: Uint32_def PutUint32_def getBE_putBE)
qed

lemma Uint64_PutUint64 [simp, wire]: "Uint64 (PutUint64 v @ rest) = v"
proof -
  have "unat v < 256 ^ 8" using unsigned_less [where 'a = nat, of v] by simp
  then show ?thesis by (simp add: Uint64_def PutUint64_def getBE_putBE)
qed

lemma Uint32_PutUint32_exact [simp, wire]: "Uint32 (PutUint32 v) = v"
  using Uint32_PutUint32 [of v "[]"] by simp

lemma Uint64_PutUint64_exact [simp, wire]: "Uint64 (PutUint64 v) = v"
  using Uint64_PutUint64 [of v "[]"] by simp

lemma PutUint32_Uint32: "4 \<le> length bs \<Longrightarrow> PutUint32 (Uint32 bs) = take 4 bs"
proof -
  assume len: "4 \<le> length bs"
  let ?t = "take 4 bs"
  from len have l4: "length ?t = 4" by simp
  have "getBE ?t < 256 ^ 4" using getBE_less [of ?t] l4 by simp
  then have "unat (word_of_nat (getBE ?t) :: uint32) = getBE ?t" by simp
  then show ?thesis
    using putBE_getBE [of ?t] l4 by (simp add: PutUint32_def Uint32_def)
qed

lemma PutUint64_Uint64: "8 \<le> length bs \<Longrightarrow> PutUint64 (Uint64 bs) = take 8 bs"
proof -
  assume len: "8 \<le> length bs"
  let ?t = "take 8 bs"
  from len have l8: "length ?t = 8" by simp
  have "getBE ?t < 256 ^ 8" using getBE_less [of ?t] l8 by simp
  then have "unat (word_of_nat (getBE ?t) :: uint64) = getBE ?t" by (simp add: unat_of_nat)
  then show ?thesis
    using putBE_getBE [of ?t] l8 by (simp add: PutUint64_def Uint64_def)
qed

section \<open>Package hash/crc32: Castagnoli\<close>

text \<open>
  \<open>crc32.Checksum(data, crc32.MakeTable(crc32.Castagnoli))\<close>, with the reflected polynomial
  0x82f63b78; the table of the package holds, for each byte, the eight shift steps below.
\<close>

definition crc_bit :: "uint32 \<Rightarrow> uint32" where
  "crc_bit c = (if bit c 0 then drop_bit 1 c XOR 0x82f63b78 else drop_bit 1 c)"

definition crc_byte :: "uint32 \<Rightarrow> byte \<Rightarrow> uint32" where
  "crc_byte c b = (crc_bit ^^ 8) (c XOR ucast b)"

definition Checksum :: "byte list \<Rightarrow> uint32" where
  "Checksum bs = NOT (foldl crc_byte (NOT 0) bs)"

section \<open>Package hash/fnv: FNV-1a\<close>

definition fnv32a :: "byte list \<Rightarrow> uint32" where
  "fnv32a bs = foldl (\<lambda>h b. (h XOR ucast b) * 16777619) 2166136261 bs"

section \<open>sort.Search\<close>

text \<open>The binary search of package sort: the least index at which \<open>f\<close> holds, if \<open>f\<close> is monotone.\<close>

function sort_Search_loop :: "nat \<Rightarrow> nat \<Rightarrow> (nat \<Rightarrow> bool) \<Rightarrow> nat" where
  "sort_Search_loop i j f =
     (if i < j then
        (let h = (i + j) div 2 in
         if \<not> f h then sort_Search_loop (h + 1) j f else sort_Search_loop i h f)
      else i)"
  by pat_completeness auto
termination
  by (relation "measure (\<lambda>(i, j, f). j - i)") auto

declare sort_Search_loop.simps [simp del]

definition sort_Search :: "nat \<Rightarrow> (nat \<Rightarrow> bool) \<Rightarrow> nat" where
  "sort_Search n f = sort_Search_loop 0 n f"

definition search_spec :: "nat \<Rightarrow> (nat \<Rightarrow> bool) \<Rightarrow> nat \<Rightarrow> bool" where
  "search_spec n f m \<longleftrightarrow> m \<le> n \<and> (\<forall>k<m. \<not> f k) \<and> (\<forall>k. m \<le> k \<and> k < n \<longrightarrow> f k)"

lemma sort_Search_loop_correct:
  assumes "\<forall>a b. a \<le> b \<and> b < n \<and> f a \<longrightarrow> f b" "i \<le> j" "j \<le> n"
    "\<forall>k<i. \<not> f k" "\<forall>k. j \<le> k \<and> k < n \<longrightarrow> f k"
  shows "search_spec n f (sort_Search_loop i j f)"
  using assms
proof (induction i j f rule: sort_Search_loop.induct)
  case (1 i j f)
  let ?h = "(i + j) div 2"
  consider (stop) "\<not> i < j" | (left) "i < j" "f ?h" | (right) "i < j" "\<not> f ?h" by blast
  then show ?case
  proof cases
    case stop
    then have "sort_Search_loop i j f = i" by (simp add: sort_Search_loop.simps [of i j f])
    with stop "1.prems" show ?thesis by (auto simp: search_spec_def)
  next
    case left
    have "\<forall>k. ?h \<le> k \<and> k < n \<longrightarrow> f k"
      using left "1.prems"(1) by blast
    then have "search_spec n f (sort_Search_loop i ?h f)"
      using left "1.prems" by (intro "1.IH"(2)) auto
    with left show ?thesis by (simp add: sort_Search_loop.simps [of i j f])
  next
    case right
    have "\<forall>k<?h + 1. \<not> f k"
      using right "1.prems"(1,3) by (metis Suc_eq_plus1 less_Suc_eq_le div_less_iff_less_mult
          add_less_mono less_le_trans mult_2_right zero_less_numeral add.commute nat_add_left_cancel_less)
    then have "search_spec n f (sort_Search_loop (?h + 1) j f)"
      using right "1.prems" by (intro "1.IH"(1)) auto
    with right show ?thesis by (simp add: sort_Search_loop.simps [of i j f])
  qed
qed

lemma sort_Search_correct:
  assumes "\<And>a b. a \<le> b \<Longrightarrow> b < n \<Longrightarrow> f a \<Longrightarrow> f b"
  shows "search_spec n f (sort_Search n f)"
  unfolding sort_Search_def by (rule sort_Search_loop_correct) (use assms in auto)

section \<open>Files\<close>

text \<open>
  An \<^verbatim>\<open>os.File\<close> opened for reading and writing: the bytes of the file and the cursor of
  the descriptor.  \<open>Write\<close> writes at the cursor (a hole left by an earlier truncation reads
  as zeros), \<open>Truncate\<close> leaves the cursor where it is, \<open>ReadAt\<close> does not use it.
\<close>

record osfile =
  fbytes :: "byte list"
  fpos :: nat

definition file_write :: "osfile \<Rightarrow> byte list \<Rightarrow> osfile" where
  "file_write f bs = f\<lparr>fbytes := take (fpos f) (fbytes f) @ replicate (fpos f - length (fbytes f)) 0
       @ bs @ drop (fpos f + length bs) (fbytes f), fpos := fpos f + length bs\<rparr>"

definition file_truncate :: "osfile \<Rightarrow> nat \<Rightarrow> osfile" where
  "file_truncate f n = f\<lparr>fbytes := take n (fbytes f) @ replicate (n - length (fbytes f)) 0\<rparr>"

definition seek_start :: "osfile \<Rightarrow> nat \<Rightarrow> osfile" where
  "seek_start f n = f\<lparr>fpos := n\<rparr>"

definition seek_end :: "osfile \<Rightarrow> osfile" where
  "seek_end f = f\<lparr>fpos := length (fbytes f)\<rparr>"

text \<open>A write at the end of the file appends.\<close>

lemma file_write_end [simp]:
  "fpos f = length (fbytes f) \<Longrightarrow>
     fbytes (file_write f bs) = fbytes f @ bs \<and> fpos (file_write f bs) = length (fbytes f @ bs)"
  by (simp add: file_write_def)

lemma file_truncate_bytes [simp]:
  "n \<le> length (fbytes f) \<Longrightarrow> fbytes (file_truncate f n) = take n (fbytes f)"
  by (simp add: file_truncate_def)

lemma seek_simps [simp]:
  "fbytes (seek_start f n) = fbytes f" "fpos (seek_start f n) = n"
  "fbytes (seek_end f) = fbytes f" "fpos (seek_end f) = length (fbytes f)"
  by (simp_all add: seek_start_def seek_end_def)

text \<open>
  The faults that the operating system may inject into one call of the log code.  An
  operation takes the fault plan of the call as an argument; \<open>no_fault\<close> is a call in which
  every system call succeeds.  A failing write may have written a prefix of the buffer:
  \<open>Some k\<close> means that it fails after \<open>k\<close> bytes.
\<close>

record iofault =
  f_open :: bool
  f_stat :: bool
  f_seek :: bool
  f_trunc :: bool
  f_sync :: bool
  f_close :: bool
  f_logw :: "nat option"
  f_idxw :: "nat option"

definition no_fault :: iofault where
  "no_fault = \<lparr>f_open = False, f_stat = False, f_seek = False, f_trunc = False, f_sync = False,
     f_close = False, f_logw = None, f_idxw = None\<rparr>"

lemma no_fault_simps [simp]:
  "f_open no_fault = False" "f_stat no_fault = False" "f_seek no_fault = False"
  "f_trunc no_fault = False" "f_sync no_fault = False" "f_close no_fault = False" "f_logw no_fault = None" "f_idxw no_fault = None"
  by (simp_all add: no_fault_def)

definition try_write :: "nat option \<Rightarrow> osfile \<Rightarrow> byte list \<Rightarrow> bool \<times> osfile" where
  "try_write fault f bs =
     (case fault of None \<Rightarrow> (True, file_write f bs) | Some k \<Rightarrow> (False, file_write f (take k bs)))"

lemma try_write_None [simp]: "try_write None f bs = (True, file_write f bs)"
  by (simp add: try_write_def)

section \<open>Package strconv and the verb \<open>%020d\<close>\<close>

function nat_digits :: "nat \<Rightarrow> string" where
  "nat_digits n = (if n < 10 then [char_of (48 + n)] else nat_digits (n div 10) @ [char_of (48 + n mod 10)])"
  by pat_completeness auto
termination
  by (relation "measure id") auto

declare nat_digits.simps [simp del]

definition Itoa :: "int \<Rightarrow> string" where
  "Itoa n = (if n < 0 then ''-'' @ nat_digits (nat (- n)) else nat_digits (nat n))"

definition pad0 :: "nat \<Rightarrow> string \<Rightarrow> string" where
  "pad0 w s = replicate (w - length s) CHR ''0'' @ s"

definition fmt020d :: "int \<Rightarrow> string" where
  "fmt020d n = (if n < 0 then ''-'' @ pad0 19 (nat_digits (nat (- n))) else pad0 20 (nat_digits (nat n)))"

definition is_digit :: "char \<Rightarrow> bool" where
  "is_digit c \<longleftrightarrow> 48 \<le> (of_char c :: nat) \<and> (of_char c :: nat) \<le> 57"

definition digits_val :: "string \<Rightarrow> nat" where
  "digits_val s = foldl (\<lambda>acc c. acc * 10 + (of_char c - 48)) 0 s"

text \<open>
  \<open>strconv.ParseInt(s, 10, 64)\<close> and \<open>strconv.Atoi(s)\<close>: an optional sign, at least one decimal
  digit, nothing else, and the value must fit 64 bits.
\<close>

definition ParseInt :: "string \<Rightarrow> int option" where
  "ParseInt s =
     (let (neg, ds) = (case s of [] \<Rightarrow> (False, [])
        | c # cs \<Rightarrow> if c = CHR ''-'' then (True, cs) else if c = CHR ''+'' then (False, cs) else (False, s));
          v = (if neg then - int (digits_val ds) else int (digits_val ds))
      in if ds = [] \<or> \<not> list_all is_digit ds \<or> \<not> in_i64 v then None else Some v)"

lemma digits_val_append: "digits_val (s @ [c]) = digits_val s * 10 + (of_char c - 48)"
  by (simp add: digits_val_def)

lemma of_char_digit: "d < 10 \<Longrightarrow> (of_char (char_of (48 + d) :: char) :: nat) = 48 + d"
  by (simp add: of_char_of)

lemma is_digit_char: "(d :: nat) < 10 \<Longrightarrow> is_digit (char_of (48 + d))"
  by (simp add: is_digit_def of_char_digit)

lemma nat_digits_digits: "list_all is_digit (nat_digits n)"
proof (induction n rule: nat_digits.induct)
  case (1 n)
  then show ?case
    by (subst nat_digits.simps) (auto simp: is_digit_char)
qed

lemma digits_val_nat_digits: "digits_val (nat_digits n) = n"
proof (induction n rule: nat_digits.induct)
  case (1 n)
  show ?case
  proof (cases "n < 10")
    case True
    then show ?thesis by (subst nat_digits.simps) (simp add: digits_val_def of_char_digit)
  next
    case False
    with 1 show ?thesis
      by (subst nat_digits.simps) (simp add: digits_val_append of_char_digit)
  qed
qed

lemma nat_digits_nonempty [simp]: "nat_digits n \<noteq> []"
  by (subst nat_digits.simps) simp

lemma digits_val_zeros: "digits_val (replicate k CHR ''0'' @ s) = digits_val s"
  by (induction k) (auto simp: digits_val_def)

lemma is_digit_facts: "is_digit CHR ''0''" "\<not> is_digit CHR ''-''" "\<not> is_digit CHR ''+''" "\<not> is_digit CHR ''/''"
  by (simp_all add: is_digit_def)

lemma ParseInt_digits:
  assumes "ds \<noteq> []" "list_all is_digit ds"
  shows "in_i64 (int (digits_val ds)) \<Longrightarrow> ParseInt ds = Some (int (digits_val ds))"
    and "in_i64 (- int (digits_val ds)) \<Longrightarrow> ParseInt (CHR ''-'' # ds) = Some (- int (digits_val ds))"
  using assms by (auto simp: ParseInt_def is_digit_facts split: list.splits)

lemma ParseInt_Itoa: "in_i64 n \<Longrightarrow> ParseInt (Itoa n) = Some n"
  using ParseInt_digits [of "nat_digits (nat n)"] ParseInt_digits [of "nat_digits (nat (- n))"]
  by (cases "n < 0") (auto simp: Itoa_def nat_digits_digits digits_val_nat_digits)

lemma pad0_facts:
  "digits_val (pad0 w s) = digits_val s" "list_all is_digit s \<Longrightarrow> list_all is_digit (pad0 w s)"
  "s \<noteq> [] \<Longrightarrow> pad0 w s \<noteq> []"
  by (auto simp: pad0_def digits_val_zeros list_all_iff is_digit_facts)

lemma ParseInt_fmt020d: "in_i64 n \<Longrightarrow> ParseInt (fmt020d n) = Some n"
  using ParseInt_digits [of "pad0 20 (nat_digits (nat n))"] ParseInt_digits [of "pad0 19 (nat_digits (nat (- n)))"]
  by (cases "n < 0") (auto simp: fmt020d_def pad0_facts nat_digits_digits digits_val_nat_digits)

lemma Itoa_no_slash: "CHR ''/'' \<notin> set (Itoa n)"
  using nat_digits_digits [of "nat n"] nat_digits_digits [of "nat (- n)"]
  by (auto simp: Itoa_def list_all_iff is_digit_facts)

section \<open>Files that hold one JSON value\<close>

text \<open>
  A JSON file as its readers see it: missing, unreadable or malformed, or holding a value
  that \<open>json.Unmarshal\<close> gives back (what \<open>json.MarshalIndent\<close> wrote).  Both users of such files
  write a temporary file and rename it, so a reader sees the old or the new value.
\<close>

datatype 'a json_file = NoFile | BadFile | JSON 'a

end
