(* ===== verification/LS_Codec.thy ===== *)
theory LS_Codec
  imports LS_Prelude
begin

text \<open>
  The interface between a byte format and the code that scans files of it: an encoder, a
  decoder that consumes one item from the front of the bytes that remain, the items the
  format can hold, and the error that means "clean end of file".  The segment code relies
  on nothing else of the record format; the record and the index entry formats are
  interpreted as codecs where they are defined.
\<close>

section \<open>Scanning a file item by item\<close>

function scan :: "(byte list \<Rightarrow> 'e + 'a \<times> nat) \<Rightarrow> byte list \<Rightarrow> 'a list" where
  "scan dec bs =
     (case dec bs of
        Inl e \<Rightarrow> []
      | Inr (r, n) \<Rightarrow> if n = 0 \<or> bs = [] then [] else r # scan dec (drop n bs))"
  by pat_completeness auto
termination
  by (relation "measure (\<lambda>(dec, bs). length bs)") auto

declare scan.simps [simp del]

text \<open>The number of items of \<open>rs\<close> that lie completely within the first \<open>k\<close> bytes.\<close>

fun whole :: "('a \<Rightarrow> byte list) \<Rightarrow> nat \<Rightarrow> 'a list \<Rightarrow> nat" where
  "whole enc k [] = 0"
| "whole enc k (r # rs) = (if length (enc r) \<le> k then Suc (whole enc (k - length (enc r)) rs) else 0)"

lemma whole_le: "whole enc k rs \<le> length rs"
  by (induction rs arbitrary: k) auto

lemma whole_bytes: "length (concat (map enc (take (whole enc k rs) rs))) \<le> k"
proof (induction rs arbitrary: k)
  case Nil
  then show ?case by simp
next
  case (Cons r rs)
  from Cons [of "k - length (enc r)"] show ?case by auto
qed

lemma whole_all: "length (concat (map enc rs)) \<le> k \<Longrightarrow> whole enc k rs = length rs"
  by (induction rs arbitrary: k) auto

lemma whole_max:
  "j \<le> length rs \<Longrightarrow> length (concat (map enc (take j rs))) \<le> k \<Longrightarrow> j \<le> whole enc k rs"
proof (induction rs arbitrary: j k)
  case Nil
  then show ?case by simp
next
  case (Cons r rs)
  then show ?case by (cases j) auto
qed

section \<open>The interface\<close>

locale codec =
  fixes enc :: "'a \<Rightarrow> byte list"
    and dec :: "byte list \<Rightarrow> 'e + 'a \<times> nat"
    and ok :: "'a \<Rightarrow> bool"
    and eof :: 'e
  assumes dec_iff: "dec bs = Inr (r, n) \<longleftrightarrow> ok r \<and> n = length (enc r) \<and> prefix (enc r) bs"
    and enc_nonempty: "enc r \<noteq> []"
    and dec_eof: "dec bs = Inl eof \<longleftrightarrow> bs = []"
begin

lemma dec_enc: "ok r \<Longrightarrow> dec (enc r @ rest) = Inr (r, length (enc r))"
  by (simp add: dec_iff)

lemma dec_Nil: "dec [] = Inl eof"
  by (simp add: dec_eof)

lemma dec_progress: "dec bs = Inr (r, n) \<Longrightarrow> 0 < n \<and> n \<le> length bs"
  using enc_nonempty [of r] by (auto simp: dec_iff prefix_length_le)

text \<open>The format is prefix-free: no item is a proper prefix of another.\<close>

lemma enc_prefix_free: "ok r \<Longrightarrow> ok s \<Longrightarrow> prefix (enc r) (enc s) \<Longrightarrow> r = s"
  using dec_enc [of s "[]"] dec_iff [of "enc s" r "length (enc r)"] by simp

lemma dec_torn: "ok r \<Longrightarrow> k < length (enc r) \<Longrightarrow> \<exists>e. dec (take k (enc r)) = Inl e"
proof (rule ccontr)
  assume ok: "ok r" and k: "k < length (enc r)" and "\<nexists>e. dec (take k (enc r)) = Inl e"
  then obtain s n where "dec (take k (enc r)) = Inr (s, n)"
    by (metis old.sum.exhaust surj_pair)
  then have s: "ok s" "prefix (enc s) (take k (enc r))" by (auto simp: dec_iff)
  then have "prefix (enc s) (enc r)" by (metis prefix_order.trans take_is_prefix)
  with s ok have "s = r" by (intro enc_prefix_free)
  with s(2) k show False by (auto dest: prefix_length_le)
qed

lemma scan_Err: "dec bs = Inl e \<Longrightarrow> scan dec bs = []"
  by (simp add: scan.simps [of dec bs])

lemma scan_Cons: "ok r \<Longrightarrow> scan dec (enc r @ rest) = r # scan dec rest"
  using enc_nonempty [of r] by (simp add: scan.simps [of dec "enc r @ rest"] dec_enc)

lemma scan_append:
  "\<forall>r\<in>set rs. ok r \<Longrightarrow> scan dec (concat (map enc rs) @ tail) = rs @ scan dec tail"
  by (induction rs) (auto simp: scan_Cons)

lemma scan_concat: "\<forall>r\<in>set rs. ok r \<Longrightarrow> scan dec (concat (map enc rs)) = rs"
  using scan_append [of rs "[]"] by (simp add: scan_Err [OF dec_Nil])

lemma scan_split:
  "\<exists>rest e. bs = concat (map enc (scan dec bs)) @ rest \<and> dec rest = Inl e"
proof (induction "length bs" arbitrary: bs rule: less_induct)
  case less
  show ?case
  proof (cases "dec bs")
    case (Inl e)
    then show ?thesis by (auto simp: scan_Err)
  next
    case (Inr x)
    then obtain r n where d: "dec bs = Inr (r, n)" by (cases x) auto
    then have "ok r" "prefix (enc r) bs" by (auto simp: dec_iff)
    then obtain rest where bs: "bs = enc r @ rest" by (auto elim: prefixE)
    then have "length rest < length bs" using enc_nonempty [of r] by simp
    from less [OF this] bs \<open>ok r\<close> show ?thesis by (auto simp: scan_Cons)
  qed
qed

lemma scan_ok: "\<forall>r\<in>set (scan dec bs). ok r"
proof (induction "length bs" arbitrary: bs rule: less_induct)
  case less
  show ?case
  proof (cases "dec bs")
    case (Inl e)
    then show ?thesis by (auto simp: scan_Err)
  next
    case (Inr x)
    then obtain r n where d: "dec bs = Inr (r, n)" by (cases x) auto
    then have "ok r" "prefix (enc r) bs" by (auto simp: dec_iff)
    then obtain rest where bs: "bs = enc r @ rest" by (auto elim: prefixE)
    then have "length rest < length bs" using enc_nonempty [of r] by simp
    from less [OF this] bs \<open>ok r\<close> show ?thesis by (auto simp: scan_Cons)
  qed
qed

text \<open>
  A file cut at any byte: the scan returns exactly the items that were written completely.
\<close>

lemma scan_torn:
  "\<forall>r\<in>set rs. ok r \<Longrightarrow> scan dec (take k (concat (map enc rs))) = take (whole enc k rs) rs"
proof (induction rs arbitrary: k)
  case Nil
  then show ?case by (simp add: scan_Err [OF dec_Nil])
next
  case (Cons r rs)
  show ?case
  proof (cases "length (enc r) \<le> k")
    case True
    with Cons show ?thesis by (simp add: scan_Cons)
  next
    case False
    with Cons.prems obtain e where "dec (take k (enc r)) = Inl e" using dec_torn [of r k] by auto
    with False show ?thesis by (simp add: scan_Err)
  qed
qed

lemma scan_idem: "scan dec (concat (map enc (scan dec bs))) = scan dec bs"
  by (rule scan_concat) (rule scan_ok)

end

end
