(* ===== verification/LS_Record.thy ===== *)
theory LS_Record
  imports LS_Stdlib LS_Codec
begin

text \<open>
  Package record (\<^verbatim>\<open>src/internal/record/record.go\<close>): the on-disk record, its encoder and
  its decoder.  \<open>decode\<close> is parametrised by the read callback exactly as in the source;
  \<open>Decode\<close> and \<open>DecodeAt\<close> pass the two callbacks the source passes, over the bytes of a
  file.  A run-time panic of the Go code is the error value \<open>Panic\<close>, which every caller
  propagates.
\<close>

section \<open>Data\<close>

definition Magic :: byte where
  "Magic = 1"

definition headerSize :: nat where
  "headerSize = 4 + 4 + 1 + 8 + 8 + 4 + 4"

text \<open>
  \<open>Stuck\<close> is not an error of the library: it marks a read callback that returns no byte
  and no error for ever, on which the loop of \<open>readFull\<close> does not end.
\<close>

datatype ioerror = EOF | UnexpectedEOF | Stuck | OSError

datatype rec_error = ErrIO ioerror | ErrCorrupt | ErrBadMagic | Panic

record Record =
  Offset :: int
  Timestamp :: int
  Key :: "byte list"
  Value :: "byte list"

section \<open>Encoding\<close>

text \<open>The clock value \<open>now\<close> stands for \<open>time.Now().UnixMilli()\<close>.\<close>

definition Encode :: "int \<Rightarrow> Record \<Rightarrow> byte list" where
  "Encode now r0 =
     (let r = (if Timestamp r0 = 0 then r0\<lparr>Timestamp := now\<rparr> else r0);
          keyLen = length (Key r);
          valLen = length (Value r);
          size = 1 + 8 + 8 + 4 + keyLen + 4 + valLen;
          body = PutUint32 (word_of_nat size) @ [Magic]
                 @ PutUint64 (word_of_int (Offset r)) @ PutUint64 (word_of_int (Timestamp r))
                 @ PutUint32 (word_of_nat keyLen) @ Key r
                 @ PutUint32 (word_of_nat valLen) @ Value r
      in PutUint32 (Checksum body) @ body)"

definition EncodedSize :: "Record \<Rightarrow> nat" where
  "EncodedSize r = 8 + 1 + 8 + 8 + 4 + length (Key r) + 4 + length (Value r)"

definition CRCOf :: "int \<Rightarrow> Record \<Rightarrow> uint32" where
  "CRCOf now r = Uint32 (take 4 (Encode now r))"

section \<open>Decoding\<close>

text \<open>
  A read callback: given the position reached so far and the length of the buffer, the
  bytes it stores and the error it returns.
\<close>

type_synonym reader = "nat \<Rightarrow> nat \<Rightarrow> byte list \<times> ioerror option"

function readFull_loop :: "reader \<Rightarrow> nat \<Rightarrow> nat \<Rightarrow> byte list \<Rightarrow> byte list \<times> ioerror option" where
  "readFull_loop read pos len p =
     (if length p < len then
        (let (c, err) = read (pos + length p) (len - length p); p' = p @ c in
         case err of
           Some e \<Rightarrow> (p', Some (if p' \<noteq> [] \<and> e = EOF then UnexpectedEOF else e))
         | None \<Rightarrow> (if c = [] then (p', Some Stuck) else readFull_loop read pos len p'))
      else (p, None))"
  by pat_completeness auto
termination
  by (relation "measure (\<lambda>(read, pos, len, p). len - length p)") (auto intro: diff_less_mono2)

declare readFull_loop.simps [simp del]

definition readFull :: "reader \<Rightarrow> nat \<Rightarrow> nat \<Rightarrow> byte list \<times> ioerror option" where
  "readFull read pos len = readFull_loop read pos len []"

text \<open>
  The part of \<open>decode\<close> after both reads: checksum, magic, lengths.  The bound check on the
  key length is computed on \<open>uint32\<close>, as in the source, and may wrap around; the slice
  expression \<open>payload[21:21+keyLen]\<close> then panics.
\<close>

definition decode_payload :: "uint32 \<Rightarrow> byte list \<Rightarrow> byte list \<Rightarrow> rec_error + Record \<times> nat" where
  "decode_payload wantCRC sizeBytes payload =
     (if Checksum (sizeBytes @ payload) \<noteq> wantCRC then Inl ErrCorrupt
      else if payload ! 0 \<noteq> Magic then Inl ErrBadMagic
      else
        (let off = sint (Uint64 (drop 1 payload));
             ts = sint (Uint64 (drop 9 payload));
             keyLen = Uint32 (drop 17 payload)
         in if length payload < unat (21 + keyLen + 4) then Inl ErrCorrupt
            else if unat (21 + keyLen) < 21 \<or> length payload < unat (21 + keyLen) then Inl Panic
            else
              (let key = take (unat keyLen) (drop 21 payload);
                   valOff = 21 + unat keyLen;
                   valLen = Uint32 (drop valOff payload)
               in if valOff + 4 + unat valLen \<noteq> length payload then Inl ErrCorrupt
                  else Inr (\<lparr>Offset = off, Timestamp = ts, Key = key,
                             Value = take (unat valLen) (drop (valOff + 4) payload)\<rparr>,
                            8 + length payload))))"

definition decode :: "reader \<Rightarrow> nat \<Rightarrow> rec_error + Record \<times> nat" where
  "decode read pos =
     (case readFull read pos 8 of
        (hdr, Some e) \<Rightarrow> Inl (ErrIO e)
      | (hdr, None) \<Rightarrow>
          (let wantCRC = Uint32 (take 4 hdr); size = Uint32 (drop 4 hdr) in
           if size < 1 + 8 + 8 + 4 + 4 \<or> size > push_bit 20 64 then Inl ErrCorrupt
           else
             (case readFull read (pos + 8) (unat size) of
                (payload, Some e) \<Rightarrow>
                  (if e = EOF \<or> e = UnexpectedEOF then Inl ErrCorrupt else Inl (ErrIO e))
              | (payload, None) \<Rightarrow> decode_payload wantCRC (drop 4 hdr) payload)))"

text \<open>\<open>io.ReadFull\<close> on a file whose cursor is at \<open>pos\<close>.\<close>

definition read_seq :: "byte list \<Rightarrow> reader" where
  "read_seq bs pos len =
     (let avail = take len (drop pos bs) in
      if length avail = len then (avail, None)
      else if avail = [] then ([], Some EOF) else (avail, Some UnexpectedEOF))"

definition Decode :: "byte list \<Rightarrow> nat \<Rightarrow> rec_error + Record \<times> nat" where
  "Decode bs cursor = decode (read_seq bs) cursor"

text \<open>\<open>File.ReadAt\<close>, with the callback's treatment of a full read that ends the file.\<close>

definition ReadAt :: "byte list \<Rightarrow> reader" where
  "ReadAt bs off len =
     (let avail = take len (drop off bs) in
      (avail, if length avail < len then Some EOF else None))"

definition read_at :: "byte list \<Rightarrow> reader" where
  "read_at bs off len =
     (let (p, err) = ReadAt bs off len in
      if err = Some EOF \<and> length p = len then (p, None) else (p, err))"

definition DecodeAt :: "byte list \<Rightarrow> nat \<Rightarrow> rec_error + Record \<times> nat" where
  "DecodeAt bs off = decode (read_at bs) off"

section \<open>What the decoder does on the bytes of a file\<close>

text \<open>
  On a file both callbacks either fill the buffer or fail, so that one call decides; the
  reference \<open>decode_bytes\<close> is what \<open>Decode\<close> and \<open>DecodeAt\<close> compute on the bytes that remain.
\<close>

definition decode_bytes :: "byte list \<Rightarrow> rec_error + Record \<times> nat" where
  "decode_bytes bs =
     (if bs = [] then Inl (ErrIO EOF)
      else if length bs < 8 then Inl (ErrIO UnexpectedEOF)
      else
        (let size = unat (Uint32 (take 4 (drop 4 bs))) in
         if size < 25 \<or> 67108864 < size \<or> length bs < 8 + size then Inl ErrCorrupt
         else decode_payload (Uint32 (take 4 bs)) (take 4 (drop 4 bs)) (take size (drop 8 bs))))"

lemma readFull_seq:
  "0 < len \<Longrightarrow> readFull (read_seq bs) pos len =
     (take len (drop pos bs),
      if len \<le> length (drop pos bs) then None
      else if drop pos bs = [] then Some EOF else Some UnexpectedEOF)"
  by (auto simp: readFull_def readFull_loop.simps [of _ _ _ "[]"] read_seq_def Let_def
      readFull_loop.simps [of _ _ _ "take len (drop pos bs)"])

lemma readFull_at:
  "0 < len \<Longrightarrow> readFull (read_at bs) pos len =
     (take len (drop pos bs),
      if len \<le> length (drop pos bs) then None
      else if drop pos bs = [] then Some EOF else Some UnexpectedEOF)"
  by (auto simp: readFull_def readFull_loop.simps [of _ _ _ "[]"] read_at_def ReadAt_def Let_def
      readFull_loop.simps [of _ _ _ "take len (drop pos bs)"])


lemma decode_file:
  assumes "\<And>pos len. 0 < len \<Longrightarrow> readFull read pos len = (take len (drop pos bs),
      if len \<le> length (drop pos bs) then None
      else if drop pos bs = [] then Some EOF else Some UnexpectedEOF)"
  shows "decode read pos = decode_bytes (drop pos bs)"
proof -
  define b where "b = drop pos bs"
  define sz where "sz = take 4 (drop 4 b)"
  define n where "n = unat (Uint32 sz)"
  have hdr: "readFull read pos 8 = (take 8 b,
      if 8 \<le> length b then None else if b = [] then Some EOF else Some UnexpectedEOF)"
    using assms [of 8 pos] by (simp add: b_def)
  have body: "0 < n \<Longrightarrow> readFull read (pos + 8) n = (take n (drop 8 b),
      if n \<le> length (drop 8 b) then None
      else if drop 8 b = [] then Some EOF else Some UnexpectedEOF)"
    using assms [of n "pos + 8"] by (simp add: b_def add.commute)
  have tk: "drop 4 (take 8 b) = sz" "take 4 (take 8 b) = take 4 b"
    by (simp_all add: drop_take sz_def)
  have bad: "Uint32 sz < 1 + 8 + 8 + 4 + 4 \<or> Uint32 sz > push_bit 20 64 \<longleftrightarrow> n < 25 \<or> 67108864 < n"
    by (simp add: word_less_nat_alt n_def)
  have short: "n \<le> length (drop 8 b) \<longleftrightarrow> \<not> length b < 8 + n" if "8 \<le> length b"
    using that by auto
  show ?thesis
  proof (cases "8 \<le> length b")
    case False
    with hdr show ?thesis by (auto simp: decode_def decode_bytes_def b_def [symmetric])
  next
    case True
    with hdr tk bad have "decode read pos =
      (if n < 25 \<or> 67108864 < n then Inl ErrCorrupt
       else case readFull read (pos + 8) n of
              (payload, Some e) \<Rightarrow>
                (if e = EOF \<or> e = UnexpectedEOF then Inl ErrCorrupt else Inl (ErrIO e))
            | (payload, None) \<Rightarrow> decode_payload (Uint32 (take 4 b)) sz payload)"
      by (simp add: decode_def n_def Let_def)
    also have "\<dots> = decode_bytes b"
      using True by (auto simp: body short decode_bytes_def Let_def sz_def [symmetric] n_def [symmetric])
    finally show ?thesis by (simp add: b_def)
  qed
qed

lemma Decode_eq: "Decode bs cursor = decode_bytes (drop cursor bs)"
  unfolding Decode_def by (rule decode_file) (rule readFull_seq)

lemma DecodeAt_eq: "DecodeAt bs off = decode_bytes (drop off bs)"
  unfolding DecodeAt_def by (rule decode_file) (rule readFull_at)


section \<open>The record format\<close>

text \<open>
  The bytes of a record whose timestamp is final, and the records that the format can
  hold: 64-bit offset and timestamp, and a payload within the 64 MiB that \<open>decode\<close> accepts.
\<close>

definition payload_of :: "Record \<Rightarrow> byte list" where
  "payload_of r = [Magic] @ PutUint64 (word_of_int (Offset r)) @ PutUint64 (word_of_int (Timestamp r))
     @ PutUint32 (word_of_nat (length (Key r))) @ Key r
     @ PutUint32 (word_of_nat (length (Value r))) @ Value r"

definition psize :: "Record \<Rightarrow> nat" where
  "psize r = 25 + length (Key r) + length (Value r)"

definition enc :: "Record \<Rightarrow> byte list" where
  "enc r = Encode (Timestamp r) r"

definition stamp :: "int \<Rightarrow> Record \<Rightarrow> Record" where
  "stamp now r = (if Timestamp r = 0 then r\<lparr>Timestamp := now\<rparr> else r)"

definition valid_rec :: "Record \<Rightarrow> bool" where
  "valid_rec r \<longleftrightarrow> in_i64 (Offset r) \<and> in_i64 (Timestamp r) \<and> EncodedSize r \<le> 67108872"

lemma Encode_eq: "Encode now r = enc (stamp now r)"
  by (auto simp: enc_def Encode_def stamp_def Let_def)

lemma stamp_simps [simp]:
  "Offset (stamp now r) = Offset r" "Key (stamp now r) = Key r" "Value (stamp now r) = Value r"
  "EncodedSize (stamp now r) = EncodedSize r" "psize (stamp now r) = psize r"
  by (auto simp: stamp_def EncodedSize_def psize_def)

lemma EncodedSize_psize: "EncodedSize r = 8 + psize r"
  by (simp add: EncodedSize_def psize_def)

lemma length_payload_of [simp, wire]: "length (payload_of r) = psize r"
  by (simp add: payload_of_def psize_def)

lemma EncodedSize_ge: "33 \<le> EncodedSize r"
  by (simp add: EncodedSize_def)

lemma enc_eq:
  "enc r = PutUint32 (Checksum (PutUint32 (word_of_nat (psize r)) @ payload_of r))
     @ PutUint32 (word_of_nat (psize r)) @ payload_of r"
  by (simp add: enc_def Encode_def payload_of_def Let_def psize_def add.assoc)

lemma length_enc [simp, wire]: "length (enc r) = EncodedSize r"
  by (simp add: enc_eq EncodedSize_psize)

lemma decode_payload_of:
  assumes "valid_rec r"
  shows "decode_payload (Checksum (sz @ payload_of r)) sz (payload_of r) = Inr (r, EncodedSize r)"
proof -
  let ?k = "length (Key r)" and ?v = "length (Value r)"
  have k: "?k < 4294967296" "?v < 4294967296" and kv: "25 + ?k + ?v \<le> 67108864"
    using assms by (auto simp: valid_rec_def EncodedSize_def)
  have d1: "drop 21 (payload_of r) = Key r @ PutUint32 (word_of_nat ?v) @ Value r"
    by (simp add: payload_of_def)
  have d2: "drop (21 + ?k) (payload_of r) = PutUint32 (word_of_nat ?v) @ Value r"
    using drop_drop [of ?k 21 "payload_of r"] by (simp add: d1 add.commute)
  have d3: "drop (21 + ?k + 4) (payload_of r) = Value r"
    by (metis add.commute append_eq_conv_conj d2 drop_drop length_PutUint32)
  note d = d1 d2 d3
  have h: "payload_of r ! 0 = Magic" "Uint64 (drop 1 (payload_of r)) = word_of_int (Offset r)"
     "Uint64 (drop 9 (payload_of r)) = word_of_int (Timestamp r)"
     "Uint32 (drop 17 (payload_of r)) = word_of_nat ?k"
    by (simp_all add: payload_of_def)
  have s: "sint (word_of_int (Offset r) :: 64 word) = Offset r"
     "sint (word_of_int (Timestamp r) :: 64 word) = Timestamp r"
    using assms by (auto simp: valid_rec_def i64_def [symmetric])
  have u: "unat (21 + word_of_nat ?k + 4 :: uint32) = 25 + ?k" "unat (21 + word_of_nat ?k :: uint32) = 21 + ?k"
    using kv unat_of_nat_u32 [of "25 + ?k"] unat_of_nat_u32 [of "21 + ?k"] by (simp_all add: add.commute)
  have len: "length (payload_of r) = 25 + ?k + ?v" by (simp add: psize_def)
  show ?thesis
    unfolding decode_payload_def h len
    by (simp add: Let_def d [simplified] u [simplified] k s EncodedSize_def)
qed

lemma decode_enc:
  assumes "valid_rec r"
  shows "decode_bytes (enc r @ rest) = Inr (r, EncodedSize r)"
proof -
  let ?n = "psize r" and ?sz = "PutUint32 (word_of_nat (psize r))"
  have n: "?n < 4294967296" "25 \<le> ?n" "?n \<le> 67108864"
    using assms by (auto simp: valid_rec_def EncodedSize_psize psize_def)
  define bs where "bs = enc r @ rest"
  have t: "take 4 bs = PutUint32 (Checksum (?sz @ payload_of r))" "take 4 (drop 4 bs) = ?sz"
    "take ?n (drop 8 bs) = payload_of r"
    by (simp_all add: enc_eq bs_def)
  have len: "8 + ?n \<le> length bs" by (simp add: bs_def EncodedSize_psize)
  then have "bs \<noteq> []" "\<not> length bs < 8" by auto
  with len n have "decode_bytes bs = decode_payload (Uint32 (take 4 bs)) ?sz (payload_of r)"
    by (simp add: decode_bytes_def Let_def t)
  also have "\<dots> = Inr (r, EncodedSize r)"
    unfolding t using assms by (simp add: decode_payload_of wire)
  finally show ?thesis by (simp add: bs_def)
qed

lemma decode_payload_sound:
  assumes "decode_payload crc sz P = Inr (r, n)" "25 \<le> length P" "length P \<le> 67108864"
  shows "P = payload_of r" "valid_rec r" "n = EncodedSize r" "Checksum (sz @ P) = crc"
proof -
  let ?kl = "Uint32 (drop 17 P)"
  let ?k = "unat ?kl"
  let ?vl = "Uint32 (drop (21 + ?k) P)"
  from assms(1) have crc: "Checksum (sz @ P) = crc" and magic: "P ! 0 = Magic"
    and c1: "unat (21 + ?kl + 4) \<le> length P" and c2: "21 \<le> unat (21 + ?kl)" "unat (21 + ?kl) \<le> length P"
    and c3: "21 + ?k + 4 + unat ?vl = length P" and n: "n = 8 + length P"
    and r: "r = \<lparr>Offset = sint (Uint64 (drop 1 P)), Timestamp = sint (Uint64 (drop 9 P)),
       Key = take ?k (drop 21 P), Value = take (unat ?vl) (drop (21 + ?k + 4) P)\<rparr>"
    by (auto simp: decode_payload_def Let_def split: if_splits)
  have key: "length (Key r) = ?k" and val: "length (Value r) = unat ?vl"
    and vd: "Value r = drop (21 + ?k + 4) P"
    using c3 by (auto simp: r)
  have "P = take 1 P @ take 8 (drop 1 P) @ take 8 (drop 9 P) @ take 4 (drop 17 P)
      @ take ?k (drop 21 P) @ take 4 (drop (21 + ?k) P) @ drop (21 + ?k + 4) P"
    using append_take_drop_id [of 1 P] drop_split [of 1 P 8] drop_split [of 9 P 8]
      drop_split [of 17 P 4] drop_split [of 21 P ?k] drop_split [of "21 + ?k" P 4]
    by simp
  also have "\<dots> = payload_of r"
  proof -
    have "take 1 P = [Magic]" using magic assms(2) by (cases P) auto
    moreover have "PutUint64 (word_of_int (Offset r)) = take 8 (drop 1 P)"
      "PutUint64 (word_of_int (Timestamp r)) = take 8 (drop 9 P)"
      using assms(2) by (simp_all add: r PutUint64_Uint64)
    moreover have "PutUint32 (word_of_nat (length (Key r))) = take 4 (drop 17 P)"
      "PutUint32 (word_of_nat (length (Value r))) = take 4 (drop (21 + ?k) P)"
      using assms(2) c3 by (simp_all add: key val PutUint32_Uint32)
    ultimately show ?thesis by (simp add: payload_of_def vd) (simp add: r)
  qed
  finally show P: "P = payload_of r" .
  show "n = EncodedSize r" using c3 n by (simp add: EncodedSize_def key val)
  then have "EncodedSize r \<le> 67108872" using n assms(3) by simp
  moreover have "in_i64 (sint (w :: 64 word))" for w
    using in_i64_i64 [of "sint w"] by (simp add: i64_def)
  ultimately show "valid_rec r" by (simp add: valid_rec_def r)
  show "Checksum (sz @ P) = crc" by (rule crc)
qed

lemma decode_sound:
  assumes "decode_bytes bs = Inr (r, n)"
  shows "valid_rec r" "n = EncodedSize r" "prefix (enc r) bs"
proof -
  let ?sz = "take 4 (drop 4 bs)" and ?P = "take (unat (Uint32 (take 4 (drop 4 bs)))) (drop 8 bs)"
  let ?n = "unat (Uint32 ?sz)"
  from assms have dp: "decode_payload (Uint32 (take 4 bs)) ?sz ?P = Inr (r, n)"
    and len: "8 \<le> length bs" "25 \<le> ?n" "?n \<le> 67108864" "8 + ?n \<le> length bs"
    by (auto simp: decode_bytes_def Let_def split: if_splits)
  from len have lp: "length ?P = ?n" by simp
  note snd = decode_payload_sound [OF dp, unfolded lp, OF len(2,3)]
  show "valid_rec r" "n = EncodedSize r" using snd by auto
  have sz: "?sz = PutUint32 (word_of_nat (psize r))"
  proof -
    have "psize r = ?n" using snd(1) lp by (metis length_payload_of)
    moreover have "PutUint32 (Uint32 ?sz) = take 4 ?sz" using len by (intro PutUint32_Uint32) simp
    ultimately show ?thesis using len by simp
  qed
  have hd: "PutUint32 (Uint32 (take 4 bs)) = take 4 bs" using len by (simp add: PutUint32_Uint32)
  have "enc r = take 4 bs @ ?sz @ ?P"
    unfolding enc_eq sz [symmetric] snd(1) [symmetric] snd(4) by (simp add: hd)
  moreover have "bs = take 4 bs @ ?sz @ ?P @ drop (8 + ?n) bs"
    using append_take_drop_id [of 4 bs] drop_split [of 4 bs 4] drop_split [of 8 bs ?n] by simp
  ultimately show "prefix (enc r) bs" by (metis append.assoc prefixI)
qed

lemma decode_iff:
  "decode_bytes bs = Inr (r, n) \<longleftrightarrow> valid_rec r \<and> n = length (enc r) \<and> prefix (enc r) bs"
proof
  assume "decode_bytes bs = Inr (r, n)"
  then show "valid_rec r \<and> n = length (enc r) \<and> prefix (enc r) bs"
    using decode_sound [of bs r n] by simp
next
  assume "valid_rec r \<and> n = length (enc r) \<and> prefix (enc r) bs"
  then show "decode_bytes bs = Inr (r, n)"
    by (auto simp: decode_enc elim!: prefixE)
qed

lemma decode_payload_not_EOF: "decode_payload crc sz P \<noteq> Inl (ErrIO e)"
  by (auto simp: decode_payload_def Let_def)

lemma decode_eof: "decode_bytes bs = Inl (ErrIO EOF) \<longleftrightarrow> bs = []"
  by (auto simp: decode_bytes_def Let_def decode_payload_not_EOF)

interpretation rc: codec enc decode_bytes valid_rec "ErrIO EOF"
proof unfold_locales
  show "enc r \<noteq> []" for r
    using EncodedSize_ge [of r] length_enc [of r] by (metis list.size(3) not_numeral_le_zero)
qed (rule decode_iff decode_eof)+

section \<open>The checksum detects a corrupted byte\<close>

lemma xor_right_cancel: "a XOR x = b XOR x \<Longrightarrow> a = b" for a b x :: uint32
proof -
  assume "a XOR x = b XOR x"
  then have "(a XOR x) XOR x = (b XOR x) XOR x" by simp
  then show "a = b" by (simp add: xor.assoc)
qed

lemma ucast_byte_inj: "(ucast x :: uint32) = ucast y \<Longrightarrow> x = y" for x y :: byte
proof (rule bit_word_eqI)
  fix n
  assume eq: "(ucast x :: uint32) = ucast y" and n: "n < LENGTH(8)"
  from eq have "bit (ucast x :: uint32) n = bit (ucast y :: uint32) n" by simp
  with n show "bit x n = bit y n" by (simp add: bit_ucast_iff)
qed

lemma bit31_crc_bit: "bit (crc_bit c) 31 = bit c 0"
proof -
  have "\<not> bit c 32" using bit_imp_le_length [of c 32] by auto
  then show ?thesis by (simp add: crc_bit_def bit_simps)
qed

lemma crc_bit_inj: "crc_bit a = crc_bit b \<Longrightarrow> a = b"
proof -
  assume eq: "crc_bit a = crc_bit b"
  then have low: "bit a 0 = bit b 0" by (metis bit31_crc_bit)
  with eq have "drop_bit 1 a = drop_bit 1 b"
    by (auto simp: crc_bit_def split: if_splits dest: xor_right_cancel)
  then have "bit (drop_bit 1 a) n = bit (drop_bit 1 b) n" for n by simp
  then have "bit a (Suc n) = bit b (Suc n)" for n by (simp add: bit_simps)
  with low show "a = b"
    by (intro bit_word_eqI) (metis not0_implies_Suc)
qed

lemma crc_bits_inj: "(crc_bit ^^ n) a = (crc_bit ^^ n) b \<Longrightarrow> a = b"
  by (induction n) (auto dest: crc_bit_inj)

lemma crc_byte_inj_state: "crc_byte a x = crc_byte b x \<Longrightarrow> a = b"
  unfolding crc_byte_def by (drule crc_bits_inj) (rule xor_right_cancel)

lemma crc_byte_inj_byte: "crc_byte a x = crc_byte a y \<Longrightarrow> x = y"
  unfolding crc_byte_def
  by (drule crc_bits_inj) (metis xor.commute xor_right_cancel ucast_byte_inj)

lemma foldl_crc_inj: "foldl crc_byte a bs = foldl crc_byte b bs \<Longrightarrow> a = b"
  by (induction bs rule: rev_induct) (auto dest: crc_byte_inj_state)

lemma Checksum_byte:
  assumes "i < length bs" "b \<noteq> bs ! i"
  shows "Checksum (bs[i := b]) \<noteq> Checksum bs"
proof
  let ?c = "foldl crc_byte (NOT 0) (take i bs)"
  assume "Checksum (bs[i := b]) = Checksum bs"
  then have "foldl crc_byte (NOT 0) (bs[i := b]) = foldl crc_byte (NOT 0) bs"
    by (simp add: Checksum_def)
  moreover have "bs[i := b] = take i bs @ b # drop (Suc i) bs"
    using assms(1) by (rule upd_conv_take_nth_drop)
  moreover have "bs = take i bs @ bs ! i # drop (Suc i) bs"
    using assms(1) by (rule id_take_nth_drop)
  ultimately have "foldl crc_byte (crc_byte ?c b) (drop (Suc i) bs) =
      foldl crc_byte (crc_byte ?c (bs ! i)) (drop (Suc i) bs)"
    by (metis foldl_Cons foldl_append)
  then show False
    using assms(2) by (blast dest: foldl_crc_inj crc_byte_inj_byte)
qed

lemma decode_bad_crc:
  assumes "8 + n \<le> length bs" "n = unat (Uint32 (take 4 (drop 4 bs)))"
    "Checksum (take 4 (drop 4 bs) @ take n (drop 8 bs)) \<noteq> Uint32 (take 4 bs)"
  shows "decode_bytes bs = Inl ErrCorrupt"
  using assms by (auto simp: decode_bytes_def decode_payload_def Let_def)

lemma decode_corrupt_crc_field:
  assumes "valid_rec r" "i < 4" "b \<noteq> enc r ! i"
  shows "decode_bytes ((enc r)[i := b] @ rest) = Inl ErrCorrupt"
proof -
  let ?sz = "PutUint32 (word_of_nat (psize r))"
  let ?crc = "PutUint32 (Checksum (?sz @ payload_of r))"
  have n: "unat (word_of_nat (psize r) :: uint32) = psize r"
    using assms(1) by (simp add: valid_rec_def EncodedSize_psize)
  have bs: "(enc r)[i := b] = ?crc[i := b] @ ?sz @ payload_of r"
    using assms(2) by (simp add: enc_eq list_update_append1)
  have ne: "?crc[i := b] \<noteq> ?crc"
    using assms(2,3) by (metis enc_eq length_PutUint32 nth_append nth_list_update_eq)
  have "PutUint32 (Uint32 (?crc[i := b])) = ?crc[i := b]"
    by (subst PutUint32_Uint32) simp_all
  with ne have "Uint32 (?crc[i := b]) \<noteq> Checksum (?sz @ payload_of r)" by metis
  then show ?thesis
    unfolding bs by (intro decode_bad_crc [where n = "psize r"]) (auto simp: n)
qed

lemma decode_corrupt_payload:
  assumes "valid_rec r" "8 \<le> i" "i < EncodedSize r" "b \<noteq> enc r ! i"
  shows "decode_bytes ((enc r)[i := b] @ rest) = Inl ErrCorrupt"
proof -
  let ?sz = "PutUint32 (word_of_nat (psize r))"
  let ?crc = "PutUint32 (Checksum (?sz @ payload_of r))"
  obtain j where i: "i = 8 + j" using assms(2) le_Suc_ex by blast
  have n: "unat (word_of_nat (psize r) :: uint32) = psize r"
    using assms(1) by (simp add: valid_rec_def EncodedSize_psize)
  have bs: "(enc r)[i := b] = ?crc @ ?sz @ (payload_of r)[j := b]"
    by (simp add: i enc_eq list_update_append)
  have b: "b \<noteq> payload_of r ! j"
    using assms(4) by (simp add: i enc_eq nth_append)
  have "?sz @ (payload_of r)[j := b] = (?sz @ payload_of r)[4 + j := b]"
    by (simp add: list_update_append)
  moreover have "Checksum ((?sz @ payload_of r)[4 + j := b]) \<noteq> Checksum (?sz @ payload_of r)"
    using assms(3) b by (intro Checksum_byte) (auto simp: i EncodedSize_psize nth_append)
  ultimately have "Checksum (?sz @ (payload_of r)[j := b]) \<noteq> Checksum (?sz @ payload_of r)"
    by simp
  then show ?thesis
    unfolding bs by (intro decode_bad_crc [where n = "psize r"]) (auto simp: n)
qed

lemma decode_payload_panic_iff:
  assumes "25 \<le> length P" "length P \<le> 67108864"
  shows "decode_payload crc sz P = Inl Panic \<longleftrightarrow>
    Checksum (sz @ P) = crc \<and> P ! 0 = Magic \<and> 4294967271 \<le> unat (Uint32 (drop 17 P))"
proof -
  let ?k = "Uint32 (drop 17 P)"
  have lt: "unat ?k < 4294967296" using unsigned_less [where 'a = nat, of ?k] by simp
  have w21: "unat (21 + ?k) = (21 + unat ?k) mod 4294967296"
    by (simp add: unat_word_ariths)
  have w25: "unat (21 + ?k + 4) = (25 + unat ?k) mod 4294967296"
    by (simp add: unat_word_ariths)
  show ?thesis
  proof (cases "4294967271 \<le> unat ?k")
    case True
    then have "unat (21 + ?k + 4) \<le> length P"
      using lt assms(1) w25 by (auto simp: mod_if)
    moreover have "unat (21 + ?k) < 21 \<or> length P < unat (21 + ?k)"
      using True lt assms(2) w21 by (auto simp: mod_if)
    ultimately show ?thesis using True by (auto simp: decode_payload_def Let_def)
  next
    case False
    then have "unat (21 + ?k + 4) = 25 + unat ?k" "unat (21 + ?k) = 21 + unat ?k"
      using w25 w21 by auto
    with False show ?thesis by (auto simp: decode_payload_def Let_def)
  qed
qed

section \<open>Properties\<close>

text \<open>
  C23.  Round trip of the record format: a record that fits the format (64-bit offset and
  timestamp, at most 64 MiB of payload), written by \<open>Encode\<close> anywhere in a file, is read
  back by both \<open>Decode\<close> and \<open>DecodeAt\<close>, with the timestamp filled in when it was zero, and
  the number of bytes consumed is \<open>EncodedSize\<close>.
\<close>

theorem record_roundtrip:
  assumes "valid_rec (stamp now r)"
  shows "Decode (pre @ Encode now r @ rest) (length pre) = Inr (stamp now r, EncodedSize r)
    \<and> DecodeAt (pre @ Encode now r @ rest) (length pre) = Inr (stamp now r, EncodedSize r)"
  using decode_enc [OF assms, of rest] by (simp add: Decode_eq DecodeAt_eq Encode_eq)

theorem record_roundtrip_witness:
  "Decode ([7] @ Encode 5 \<lparr>Offset = 3, Timestamp = 0, Key = [1], Value = [2, 3]\<rparr> @ [9]) (length [7 :: byte])
     = Inr (\<lparr>Offset = 3, Timestamp = 5, Key = [1], Value = [2, 3]\<rparr>, 36)"
  using record_roundtrip [of 5 "\<lparr>Offset = 3, Timestamp = 0, Key = [1], Value = [2, 3]\<rparr>" "[7]" "[9]"]
  by (simp add: stamp_def valid_rec_def in_i64_def EncodedSize_def)

text \<open>
  C24.  The decoder accepts exactly the well-formed records: \<open>Decode\<close> succeeds with record
  \<open>r\<close> at a position iff \<open>r\<close> fits the format and the bytes from that position start with the
  canonical encoding of \<open>r\<close>; it then consumes exactly that encoding.  In particular the
  position that recovery computes with \<open>EncodedSize\<close> is the position of the file cursor.
\<close>

theorem decode_exact:
  "Decode bs cursor = Inr (r, n) \<longleftrightarrow>
     valid_rec r \<and> n = EncodedSize r \<and> prefix (Encode (Timestamp r) r) (drop cursor bs)"
  using decode_iff [of "drop cursor bs" r n] by (simp add: Decode_eq enc_def [symmetric])

text \<open>
  C25.  Corruption is detected: changing any single byte of the stored checksum or of the
  payload of a record (magic, offset, timestamp, lengths, key, value) makes the decoder
  return \<open>ErrCorrupt\<close>.
\<close>

theorem decode_detects_byte:
  assumes "valid_rec (stamp now r)" "i < 4 \<or> 8 \<le> i \<and> i < EncodedSize r" "b \<noteq> Encode now r ! i"
  shows "Decode ((Encode now r)[i := b] @ rest) 0 = Inl ErrCorrupt"
  using assms decode_corrupt_crc_field [of "stamp now r" i b rest]
    decode_corrupt_payload [of "stamp now r" i b rest]
  by (auto simp: Decode_eq Encode_eq)

theorem decode_detects_byte_witness:
  "Decode ((Encode 5 \<lparr>Offset = 3, Timestamp = 9, Key = [1], Value = [2]\<rparr>)[8 := 77] @ [4]) 0 = Inl ErrCorrupt"
proof (rule decode_detects_byte)
  let ?r = "\<lparr>Offset = 3, Timestamp = 9, Key = [1], Value = [2 :: byte]\<rparr>"
  show "valid_rec (stamp 5 ?r)" by (simp add: stamp_def valid_rec_def in_i64_def EncodedSize_def)
  show "8 < (4 :: nat) \<or> 8 \<le> (8 :: nat) \<and> 8 < EncodedSize ?r" by (simp add: EncodedSize_def)
  show "77 \<noteq> Encode 5 ?r ! 8" by (simp add: Encode_def Magic_def nth_append Let_def)
qed

text \<open>
  C40.  When the decoder panics: exactly when size field, checksum and magic byte of the
  record are right and the key length is one of the 25 largest \<open>uint32\<close> values, for which
  the bound check of the source wraps around; and there is a file on which it does.
\<close>

theorem decode_panics:
  "(Decode bs cursor = Inl Panic \<longleftrightarrow>
     (let b = drop cursor bs; n = unat (Uint32 (take 4 (drop 4 b))); P = take n (drop 8 b) in
      25 \<le> n \<and> n \<le> 67108864 \<and> 8 + n \<le> length b
      \<and> Checksum (take 4 (drop 4 b) @ P) = Uint32 (take 4 b)
      \<and> P ! 0 = Magic \<and> 4294967271 \<le> unat (Uint32 (drop 17 P))))
   \<and> (\<exists>file. Decode file 0 = Inl Panic)"
proof (rule conjI)
  let ?b = "drop cursor bs"
  let ?n = "unat (Uint32 (take 4 (drop 4 ?b)))"
  show "Decode bs cursor = Inl Panic \<longleftrightarrow>
     (let b = drop cursor bs; n = unat (Uint32 (take 4 (drop 4 b))); P = take n (drop 8 b) in
      25 \<le> n \<and> n \<le> 67108864 \<and> 8 + n \<le> length b
      \<and> Checksum (take 4 (drop 4 b) @ P) = Uint32 (take 4 b)
      \<and> P ! 0 = Magic \<and> 4294967271 \<le> unat (Uint32 (drop 17 P)))"
  proof (cases "25 \<le> ?n \<and> ?n \<le> 67108864 \<and> 8 + ?n \<le> length ?b")
    case True
    then show ?thesis
      using decode_payload_panic_iff [of "take ?n (drop 8 ?b)" "Uint32 (take 4 ?b)" "take 4 (drop 4 ?b)"]
      unfolding Decode_eq decode_bytes_def Let_def by auto
  next
    case False
    then show ?thesis unfolding Decode_eq decode_bytes_def Let_def by auto
  qed
next
  let ?P = "[1] @ replicate 16 0 @ PutUint32 4294967295 @ replicate 4 0 :: byte list"
  let ?sz = "PutUint32 25"
  have "decode_payload (Checksum (?sz @ ?P)) ?sz ?P = Inl Panic"
    by (subst decode_payload_panic_iff) (simp_all add: Magic_def)
  moreover have "decode_bytes (PutUint32 (Checksum (?sz @ ?P)) @ ?sz @ ?P)
      = decode_payload (Checksum (?sz @ ?P)) ?sz ?P"
    by (simp add: decode_bytes_def Let_def)
  ultimately show "\<exists>file. Decode file 0 = Inl Panic" by (metis Decode_eq drop0)
qed

end
