(* ===== verification/LS_Index.thy ===== *)
theory LS_Index
  imports LS_Stdlib LS_Codec
begin

text \<open>
  The sparse offset index (\<^verbatim>\<open>src/internal/log/index.go\<close>): the entries held in memory and
  the companion \<^verbatim>\<open>.index\<close> file they are appended to and loaded from.  The path of the file
  is only used to open it and is not kept in the model.
\<close>

record indexEntry =
  RelOffset :: uint32
  Position :: uint32

record sparseIndex =
  idxFile :: osfile
  entries :: "indexEntry list"

definition load_entry :: "byte list \<Rightarrow> nat \<Rightarrow> indexEntry" where
  "load_entry buf k = \<lparr>RelOffset = Uint32 (take 4 (drop (k * 8) buf)),
                       Position = Uint32 (take 4 (drop (k * 8 + 4) buf))\<rparr>"

text \<open>\<open>load\<close>: the result \<open>None\<close> is the error of \<open>Stat\<close>.\<close>

definition load :: "iofault \<Rightarrow> sparseIndex \<Rightarrow> sparseIndex option" where
  "load flt i =
     (if f_stat flt then None
      else
        (let n = length (fbytes (idxFile i)) div 8 in
         if n = 0 then Some i
         else
           (let buf = take (n * 8) (fbytes (idxFile i))
            in Some (i\<lparr>entries := map (load_entry buf) [0..<n]\<rparr>))))"

text \<open>\<open>openIndex\<close>: \<open>content\<close> is the content of the index file, if it exists; it is created otherwise.\<close>

definition openIndex :: "iofault \<Rightarrow> byte list option \<Rightarrow> sparseIndex option" where
  "openIndex flt content =
     (if f_open flt then None
      else load flt \<lparr>idxFile = \<lparr>fbytes = (case content of None \<Rightarrow> [] | Some bs \<Rightarrow> bs), fpos = 0\<rparr>,
                     entries = []\<rparr>)"

definition enc_entry :: "indexEntry \<Rightarrow> byte list" where
  "enc_entry e = PutUint32 (RelOffset e) @ PutUint32 (Position e)"

text \<open>\<open>append\<close>: \<open>False\<close> is the error of \<open>Write\<close>; the entry is then not added.\<close>

definition index_append :: "iofault \<Rightarrow> sparseIndex \<Rightarrow> uint32 \<Rightarrow> uint32 \<Rightarrow> bool \<times> sparseIndex" where
  "index_append flt i relOffset position =
     (let buf = PutUint32 relOffset @ PutUint32 position;
          (ok, f) = try_write (f_idxw flt) (idxFile i) buf
      in if \<not> ok then (False, i\<lparr>idxFile := f\<rparr>)
         else (True, i\<lparr>idxFile := f,
                       entries := entries i @ [\<lparr>RelOffset = relOffset, Position = position\<rparr>]\<rparr>))"

definition lookup :: "sparseIndex \<Rightarrow> uint32 \<Rightarrow> uint32" where
  "lookup i relOffset =
     (if entries i = [] then 0
      else
        (let n = sort_Search (length (entries i)) (\<lambda>j. RelOffset (entries i ! j) > relOffset)
         in if n = 0 then 0 else Position (entries i ! (n - 1))))"

text \<open>\<open>close\<close>: whether closing the file succeeds.\<close>

definition index_close :: "iofault \<Rightarrow> sparseIndex \<Rightarrow> bool" where
  "index_close flt ix \<longleftrightarrow> \<not> f_close flt"

section \<open>The entry format\<close>

definition decode_entry :: "byte list \<Rightarrow> bool + indexEntry \<times> nat" where
  "decode_entry bs = (if length bs < 8 then Inl (bs = []) else Inr (load_entry bs 0, 8))"

lemma length_enc_entry [simp, wire]: "length (enc_entry e) = 8"
  by (simp add: enc_entry_def)

lemma enc_load_entry: "8 \<le> length bs \<Longrightarrow> enc_entry (load_entry bs 0) = take 8 bs"
proof -
  assume len: "8 \<le> length bs"
  have "take 8 bs = take 4 bs @ take 4 (drop 4 bs)"
    using take_add [of 4 4 bs] by simp
  with len show ?thesis by (simp add: enc_entry_def load_entry_def PutUint32_Uint32)
qed

lemma load_enc_entry: "load_entry (enc_entry e @ rest) 0 = e"
  by (simp add: load_entry_def enc_entry_def)

interpretation ie: codec enc_entry decode_entry "\<lambda>_. True" True
proof unfold_locales
  fix bs r n
  show "decode_entry bs = Inr (r, n) \<longleftrightarrow> True \<and> n = length (enc_entry r) \<and> prefix (enc_entry r) bs"
    using enc_load_entry [of bs] load_enc_entry [of r]
    by (auto simp: decode_entry_def take_is_prefix dest: prefix_length_le elim!: prefixE)
  show "enc_entry r \<noteq> []" using length_enc_entry [of r] by (metis list.size(3) zero_neq_numeral)
  show "decode_entry bs = Inl True \<longleftrightarrow> bs = []" by (auto simp: decode_entry_def)
qed

lemma load_entry_drop: "load_entry (drop 8 buf) k = load_entry buf (Suc k)"
  by (simp add: load_entry_def add.commute add.left_commute)

lemma load_entry_take:
  "k < n \<Longrightarrow> load_entry (take (n * 8) buf) k = load_entry buf k"
proof -
  assume "k < n"
  then have "k * 8 + 8 \<le> n * 8" by simp
  then show ?thesis by (simp add: load_entry_def drop_take min_def)
qed

text \<open>Loading is scanning the index file entry by entry; a torn last entry is ignored.\<close>

lemma load_entries_scan: "map (load_entry bs) [0..<length bs div 8] = scan decode_entry bs"
proof (induction "length bs div 8" arbitrary: bs)
  case 0
  then show ?case by (simp add: ie.scan_Err decode_entry_def div_eq_0_iff scan.simps [of _ bs])
next
  case (Suc n)
  then have len: "8 \<le> length bs" by (cases "8 \<le> length bs") auto
  from Suc(2) have n: "length (drop 8 bs) div 8 = n"
    using len by (simp add: le_div_geq)
  have "map (load_entry bs) [0..<Suc n] = load_entry bs 0 # map (load_entry (drop 8 bs)) [0..<n]"
    by (simp add: upt_conv_Cons map_Suc_upt [symmetric] comp_def load_entry_drop del: upt_Suc)
  also have "\<dots> = load_entry bs 0 # scan decode_entry (drop 8 bs)"
    using Suc(1) [of "drop 8 bs"] n by simp
  also have "\<dots> = scan decode_entry bs"
    using len by (subst (2) scan.simps) (auto simp: decode_entry_def)
  finally show ?case using Suc(2) by simp
qed

lemma openIndex_ok:
  "openIndex no_fault content =
     Some \<lparr>idxFile = \<lparr>fbytes = (case content of None \<Rightarrow> [] | Some bs \<Rightarrow> bs), fpos = 0\<rparr>,
           entries = (case content of None \<Rightarrow> [] | Some bs \<Rightarrow> scan decode_entry bs)\<rparr>"
proof (cases content)
  case None
  then show ?thesis by (simp add: openIndex_def load_def)
next
  case (Some bs)
  let ?n = "length bs div 8"
  have "map (load_entry (take (?n * 8) bs)) [0..<?n] = map (load_entry bs) [0..<?n]"
    by (simp add: load_entry_take)
  then show ?thesis
    using Some load_entries_scan [of bs] by (auto simp: openIndex_def load_def Let_def)
qed

section \<open>Lookup\<close>

text \<open>The reference: the last entry, in file order, whose offset does not exceed the target.\<close>

definition lookup_spec :: "indexEntry list \<Rightarrow> uint32 \<Rightarrow> uint32" where
  "lookup_spec es rel =
     (case filter (\<lambda>e. RelOffset e \<le> rel) es of [] \<Rightarrow> 0 | e # es' \<Rightarrow> Position (last (e # es')))"

lemma filter_take_search:
  assumes "search_spec (length xs) (\<lambda>j. \<not> P (xs ! j)) m"
  shows "filter P xs = take m xs"
proof -
  have "filter P (take m xs) = take m xs"
    using assms by (auto simp: search_spec_def in_set_conv_nth filter_id_conv)
  moreover have "filter P (drop m xs) = []"
    using assms by (auto simp: search_spec_def in_set_conv_nth filter_empty_conv)
  ultimately show ?thesis
    by (metis append_Nil2 append_take_drop_id filter_append)
qed

lemma lookup_search:
  assumes "sorted (map RelOffset (entries i))"
  shows "\<exists>m \<le> length (entries i). filter (\<lambda>e. RelOffset e \<le> rel) (entries i) = take m (entries i)
     \<and> lookup i rel = (if m = 0 then 0 else Position (entries i ! (m - 1)))"
proof -
  let ?es = "entries i" and ?f = "\<lambda>j. RelOffset (entries i ! j) > rel"
  let ?m = "sort_Search (length ?es) ?f"
  have spec: "search_spec (length ?es) ?f ?m"
  proof (rule sort_Search_correct)
    fix a b
    assume "a \<le> b" "b < length ?es" "?f a"
    moreover from this assms have "RelOffset (?es ! a) \<le> RelOffset (?es ! b)"
      using sorted_nth_mono [OF assms, of a b] by simp
    ultimately show "?f b" by (simp add: less_le_trans)
  qed
  then have flt: "filter (\<lambda>e. RelOffset e \<le> rel) ?es = take ?m ?es"
    by (intro filter_take_search) (simp add: not_le)
  have le: "?m \<le> length ?es" by (rule spec [unfolded search_spec_def, THEN conjunct1])
  have "lookup i rel = (if ?m = 0 then 0 else Position (?es ! (?m - 1)))"
    using le by (cases "?es = []") (simp_all add: lookup_def Let_def)
  with flt le show ?thesis by blast
qed

lemma lookup_eq_spec:
  assumes "sorted (map RelOffset (entries i))"
  shows "lookup i rel = lookup_spec (entries i) rel"
proof -
  obtain m where m: "m \<le> length (entries i)"
      "filter (\<lambda>e. RelOffset e \<le> rel) (entries i) = take m (entries i)"
      "lookup i rel = (if m = 0 then 0 else Position (entries i ! (m - 1)))"
    using lookup_search [OF assms] by blast
  show ?thesis
  proof (cases m)
    case 0
    with m show ?thesis by (simp add: lookup_spec_def)
  next
    case (Suc k)
    with m(1) have ne: "take m (entries i) \<noteq> []" by auto
    then have "last (take m (entries i)) = entries i ! k"
      using m(1) Suc by (simp add: last_conv_nth min_def)
    with ne m Suc show ?thesis
      by (cases "take m (entries i)") (auto simp: lookup_spec_def)
  qed
qed

section \<open>Properties\<close>

text \<open>
  On an index whose entries are sorted by offset, the binary search of \<open>lookup\<close> returns
  what its comment says: the position of the last entry whose relative offset does not
  exceed the target, and position 0 (scan from the start) when there is none.
\<close>

theorem index_lookup_correct:
  assumes "sorted (map RelOffset (entries i))"
  shows "lookup i rel =
    (case filter (\<lambda>e. RelOffset e \<le> rel) (entries i) of
       [] \<Rightarrow> 0 | e # es \<Rightarrow> Position (last (e # es)))"
  using lookup_eq_spec [OF assms, of rel] by (simp add: lookup_spec_def)

theorem index_lookup_correct_witness:
  "lookup \<lparr>idxFile = \<lparr>fbytes = [], fpos = 0\<rparr>,
           entries = [\<lparr>RelOffset = 0, Position = 0\<rparr>, \<lparr>RelOffset = 5, Position = 700\<rparr>]\<rparr> 9 = 700"
  using index_lookup_correct [of "\<lparr>idxFile = \<lparr>fbytes = [], fpos = 0\<rparr>,
      entries = [\<lparr>RelOffset = 0, Position = 0\<rparr>, \<lparr>RelOffset = 5, Position = 700\<rparr>]\<rparr>" 9]
  by simp

end
