(* ===== verification/LS_Segment.thy ===== *)
theory LS_Segment
  imports LS_Record LS_Index
begin

text \<open>
  One segment of a partition log (\<^verbatim>\<open>src/internal/log/segment.go\<close>): the \<^verbatim>\<open>.log\<close> file of
  records, its sparse index and the counters of the segment.  A partition directory is an
  association list from file names to contents.  Operations that change state return the
  new state together with their result, so that what a failed call leaves behind is part
  of the model.  The field \<open>dir\<close> of the source is written and never read; it is left out.
\<close>

type_synonym directory = "(string \<times> byte list) list"

datatype log_error =
    ErrRec rec_error
  | ErrOS
  | ErrOffset int int
  | ErrTimeout

record segment =
  baseOffset :: int
  logFile :: osfile
  idx :: sparseIndex
  ssize :: nat
  nextOffset :: int
  bytesSinceIndex :: nat
  indexInterval :: int

definition segmentPaths :: "int \<Rightarrow> string \<times> string" where
  "segmentPaths base = (fmt020d base @ ''.log'', fmt020d base @ ''.index'')"

section \<open>Creating and opening\<close>

text \<open>\<open>O_EXCL\<close>: creation fails if the log file exists.  A stale index file is loaded.\<close>

definition createSegment ::
    "iofault \<Rightarrow> directory \<Rightarrow> int \<Rightarrow> int \<Rightarrow> (log_error + segment) \<times> directory" where
  "createSegment flt dir base indexIntv =
     (let (logPath, indexPath) = segmentPaths base in
      if f_open flt then (Inl ErrOS, dir)
      else if map_of dir logPath \<noteq> None then (Inl ErrOS, dir)
      else
        (let dir' = mput logPath [] dir in
         case openIndex flt (map_of dir' indexPath) of
           None \<Rightarrow> (Inl ErrOS, dir')
         | Some ix \<Rightarrow>
             (Inr \<lparr>baseOffset = base, logFile = \<lparr>fbytes = [], fpos = 0\<rparr>, idx = ix, ssize = 0,
                   nextOffset = base, bytesSinceIndex = 0, indexInterval = indexIntv\<rparr>,
              mput indexPath (fbytes (idxFile ix)) dir')))"

text \<open>
  The two loops of \<open>recover\<close>.  \<open>Clean\<close>: the end of the file; \<open>Torn\<close>: a record that does not
  decode; \<open>Crash\<close>: the decoder panicked.
\<close>

datatype scan_end = Clean | Torn | Crash

function recover_tail :: "byte list \<Rightarrow> nat \<Rightarrow> int \<Rightarrow> nat \<Rightarrow> scan_end \<times> int \<times> nat" where
  "recover_tail bs cursor off pos =
     (case Decode bs cursor of
        Inl e \<Rightarrow>
          if e = ErrIO EOF then (Clean, off, pos)
          else if e = Panic then (Crash, off, pos)
          else (Torn, off, pos)
      | Inr (rec, n) \<Rightarrow> recover_tail bs (cursor + n) (i64 (Offset rec + 1)) (pos + EncodedSize rec))"
  by pat_completeness auto
termination
proof (relation "measure (\<lambda>(bs, cursor, off, pos). length bs - cursor)")
  fix bs :: "byte list" and cursor off pos x rec n
  assume "Decode bs cursor = Inr x" "(rec, n) = x"
  then have "0 < n \<and> n \<le> length (drop cursor bs)"
    using rc.dec_progress by (metis Decode_eq)
  then show "((bs, cursor + n, i64 (Offset rec + 1), pos + EncodedSize rec), bs, cursor, off, pos)
      \<in> measure (\<lambda>(bs, cursor, off, pos). length bs - cursor)"
    by auto
qed simp

declare recover_tail.simps [simp del]

text \<open>
  The full scan rebuilds the index as it goes: \<open>since\<close> counts the bytes since the last
  index entry.  The last component is the error of an index write.
\<close>

function recover_scan ::
    "iofault \<Rightarrow> int \<Rightarrow> int \<Rightarrow> byte list \<Rightarrow> nat \<Rightarrow> sparseIndex \<Rightarrow> nat \<Rightarrow> int \<Rightarrow> nat
     \<Rightarrow> (scan_end option) \<times> sparseIndex \<times> nat \<times> int \<times> nat" where
  "recover_scan flt base intv bs cursor ix since next pos =
     (case Decode bs cursor of
        Inl e \<Rightarrow>
          if e = ErrIO EOF then (Some Clean, ix, since, next, pos)
          else if e = Panic then (Some Crash, ix, since, next, pos)
          else (Some Torn, ix, since, next, pos)
      | Inr (rec, n) \<Rightarrow>
          (let (ok, ix', since') =
             (if since = 0 \<or> intv \<le> int since
              then (let (ok, ix') = index_append flt ix (word_of_int (Offset rec - base)) (word_of_nat pos)
                    in (ok, ix', 0))
              else (True, ix, since))
           in if \<not> ok then (None, ix', since', next, pos)
              else recover_scan flt base intv bs (cursor + n) ix' (since' + EncodedSize rec)
                     (i64 (Offset rec + 1)) (pos + EncodedSize rec)))"
  by pat_completeness auto
termination
proof (relation "measure (\<lambda>(flt, base, intv, bs, cursor, ix, since, next, pos). length bs - cursor)", goal_cases)
  case (2 flt base intv bs cursor ix since "next" pos x a b xa ok ya ix' since')
  then have "0 < b \<and> b \<le> length (drop cursor bs)"
    using rc.dec_progress by (metis Decode_eq)
  then show ?case by auto
qed simp

declare recover_scan.simps [simp del]

definition recover_segment :: "iofault \<Rightarrow> segment \<Rightarrow> bool \<Rightarrow> log_error + segment" where
  "recover_segment flt s scanAll =
     (if ssize s = 0 then Inr (s\<lparr>nextOffset := baseOffset s\<rparr>)
      else if \<not> scanAll \<and> entries (idx s) \<noteq> [] then
        (let lst = last (entries (idx s)) in
         if f_seek flt then Inl ErrOS
         else
           (case recover_tail (fbytes (logFile s)) (unat (Position lst))
                   (baseOffset s + int (unat (RelOffset lst))) (unat (Position lst)) of
              (Crash, off, pos) \<Rightarrow> Inl (ErrRec Panic)
            | (Torn, off, pos) \<Rightarrow>
                if f_trunc flt then Inl ErrOS
                else Inr (s\<lparr>logFile := seek_end (file_truncate (logFile s) pos),
                            nextOffset := off, ssize := pos\<rparr>)
            | (Clean, off, pos) \<Rightarrow>
                Inr (s\<lparr>logFile := seek_end (logFile s), nextOffset := off, ssize := pos\<rparr>)))
      else if f_seek flt then Inl ErrOS
      else if f_trunc flt then Inl ErrOS
      else
        (case recover_scan flt (baseOffset s) (indexInterval s) (fbytes (logFile s)) 0
                \<lparr>idxFile = seek_start (file_truncate (idxFile (idx s)) 0) 0, entries = []\<rparr>
                0 (baseOffset s) 0 of
           (None, ix, since, next, pos) \<Rightarrow> Inl ErrOS
         | (Some Crash, ix, since, next, pos) \<Rightarrow> Inl (ErrRec Panic)
         | (Some e, ix, since, next, pos) \<Rightarrow>
             (let lf = (if e = Torn then file_truncate (logFile s) pos else logFile s)
              in Inr (s\<lparr>logFile := seek_end lf, idx := ix, nextOffset := next, ssize := pos,
                        bytesSinceIndex := since\<rparr>))))"

definition openSegment ::
    "iofault \<Rightarrow> directory \<Rightarrow> int \<Rightarrow> int \<Rightarrow> bool \<Rightarrow> log_error + segment" where
  "openSegment flt dir base indexIntv active =
     (let (logPath, indexPath) = segmentPaths base in
      if f_open flt then Inl ErrOS
      else
        (case map_of dir logPath of
           None \<Rightarrow> Inl ErrOS
         | Some bs \<Rightarrow>
             if f_stat flt then Inl ErrOS
             else
               (case openIndex flt (map_of dir indexPath) of
                  None \<Rightarrow> Inl ErrOS
                | Some ix \<Rightarrow>
                    recover_segment flt
                      \<lparr>baseOffset = base, logFile = \<lparr>fbytes = bs, fpos = 0\<rparr>, idx = ix,
                       ssize = length bs, nextOffset = 0, bytesSinceIndex = 0,
                       indexInterval = indexIntv\<rparr> active)))"

section \<open>Appending and reading\<close>

definition segment_append ::
    "iofault \<Rightarrow> int \<Rightarrow> segment \<Rightarrow> Record \<Rightarrow> (log_error + int) \<times> segment" where
  "segment_append flt now s rec =
     (if Offset rec \<noteq> nextOffset s then (Inl (ErrOffset (nextOffset s) (Offset rec)), s)
      else
        (let pos = ssize s;
             buf = Encode now rec;
             (okw, lf) = try_write (f_logw flt) (logFile s) buf;
             s1 = s\<lparr>logFile := lf\<rparr>
         in if \<not> okw then (Inl ErrOS, s1)
            else
              (let (oki, s2) =
                 (if bytesSinceIndex s1 = 0 \<or> indexInterval s1 \<le> int (bytesSinceIndex s1)
                  then (let (ok, ix) = index_append flt (idx s1)
                                         (word_of_int (Offset rec - baseOffset s1)) (word_of_nat pos)
                        in (ok, if ok then s1\<lparr>idx := ix, bytesSinceIndex := 0\<rparr> else s1\<lparr>idx := ix\<rparr>))
                  else (True, s1))
               in if \<not> oki then (Inl ErrOS, s2)
                  else (Inr (Offset rec),
                        s2\<lparr>bytesSinceIndex := bytesSinceIndex s2 + length buf,
                           ssize := ssize s2 + length buf,
                           nextOffset := i64 (nextOffset s2 + 1)\<rparr>))))"

function readFrom_loop ::
    "byte list \<Rightarrow> nat \<Rightarrow> int \<Rightarrow> int \<Rightarrow> int \<Rightarrow> nat \<Rightarrow> int \<Rightarrow> Record list \<Rightarrow> log_error + Record list" where
  "readFrom_loop bs sz fromOffset maxBytes maxOffset pos n out =
     (if pos < sz then
        (case DecodeAt bs pos of
           Inl e \<Rightarrow> if e = ErrIO EOF then Inr out else Inl (ErrRec e)
         | Inr (rec, k) \<Rightarrow>
             if Offset rec < fromOffset
             then readFrom_loop bs sz fromOffset maxBytes maxOffset (pos + k) n out
             else if Offset rec \<ge> maxOffset then Inr out
             else if n > 0 \<and> n + int k > maxBytes then Inr out
             else if n + int k \<ge> maxBytes then Inr (out @ [rec])
             else readFrom_loop bs sz fromOffset maxBytes maxOffset (pos + k) (n + int k) (out @ [rec]))
      else Inr out)"
  by pat_completeness auto
termination
proof (relation "measure (\<lambda>(bs, sz, fo, mb, mo, pos, n, out). sz - pos)", goal_cases)
  case (2 bs sz fo mb mo pos n out x rec k)
  then have "0 < k" using rc.dec_progress by (metis DecodeAt_eq)
  with 2 show ?case by auto
next
  case (3 bs sz fo mb mo pos n out x rec k)
  then have "0 < k" using rc.dec_progress by (metis DecodeAt_eq)
  with 3 show ?case by auto
qed simp

declare readFrom_loop.simps [simp del]

definition readFrom :: "segment \<Rightarrow> int \<Rightarrow> int \<Rightarrow> int \<Rightarrow> log_error + Record list" where
  "readFrom s fromOffset maxBytes maxOffset =
     (if fromOffset < baseOffset s \<or> fromOffset \<ge> nextOffset s then Inr []
      else if maxOffset \<le> fromOffset then Inr []
      else
        (let rel = word_of_int (fromOffset - baseOffset s);
             pos = unat (lookup (idx s) rel)
         in readFrom_loop (fbytes (logFile s)) (ssize s) fromOffset maxBytes maxOffset pos 0 []))"

definition segment_contains :: "segment \<Rightarrow> int \<Rightarrow> bool" where
  "segment_contains s off \<longleftrightarrow> off \<ge> baseOffset s \<and> off < nextOffset s"

text \<open>\<open>flush\<close> syncs both files; it changes no state that the model keeps.\<close>

definition segment_flush :: "iofault \<Rightarrow> segment \<Rightarrow> log_error option" where
  "segment_flush flt s = (if f_sync flt then Some ErrOS else None)"

definition segment_close :: "iofault \<Rightarrow> segment \<Rightarrow> log_error option" where
  "segment_close flt s =
     (let err = (if f_close flt then Some ErrOS else None)
      in if \<not> index_close flt (idx s) \<and> err = None then Some ErrOS else err)"

section \<open>The invariant of a segment\<close>

text \<open>
  \<open>seg_ok s rs\<close>: segment \<open>s\<close> holds exactly the records \<open>rs\<close>.  The log file is their
  concatenated encoding, offsets are consecutive from the base offset, the counters agree,
  and every index entry points at the first byte of the record it names.
\<close>

definition rec_bytes :: "Record list \<Rightarrow> nat" where
  "rec_bytes rs = length (concat (map enc rs))"

definition consec :: "int \<Rightarrow> Record list \<Rightarrow> bool" where
  "consec b rs \<longleftrightarrow> (\<forall>i<length rs. Offset (rs ! i) = b + int i)"

definition index_upto :: "nat \<Rightarrow> Record list \<Rightarrow> sparseIndex \<Rightarrow> bool" where
  "index_upto k rs ix \<longleftrightarrow>
     sorted (map RelOffset (entries ix)) \<and>
     (\<forall>e\<in>set (entries ix). unat (RelOffset e) < k \<and>
        unat (Position e) = rec_bytes (take (unat (RelOffset e)) rs))"

definition index_file_ok :: "sparseIndex \<Rightarrow> bool" where
  "index_file_ok ix \<longleftrightarrow> fbytes (idxFile ix) = concat (map enc_entry (entries ix))
     \<and> fpos (idxFile ix) = length (fbytes (idxFile ix))"

definition seg_ok :: "segment \<Rightarrow> Record list \<Rightarrow> bool" where
  "seg_ok s rs \<longleftrightarrow>
     fbytes (logFile s) = concat (map enc rs) \<and> fpos (logFile s) = length (fbytes (logFile s)) \<and>
     ssize s = rec_bytes rs \<and> (\<forall>r\<in>set rs. valid_rec r) \<and>
     consec (baseOffset s) rs \<and> nextOffset s = baseOffset s + int (length rs) \<and>
     0 \<le> baseOffset s \<and> nextOffset s \<le> max_i64 \<and> length rs \<le> 4294967296 \<and>
     index_upto (length rs) rs (idx s)"

lemma rec_bytes_simps [simp]:
  "rec_bytes [] = 0" "rec_bytes (r # rs) = EncodedSize r + rec_bytes rs"
  "rec_bytes (rs @ rs') = rec_bytes rs + rec_bytes rs'"
  by (simp_all add: rec_bytes_def)

lemma rec_bytes_ge: "33 * length rs \<le> rec_bytes rs"
proof (induction rs)
  case Nil
  then show ?case by simp
next
  case (Cons r rs)
  with EncodedSize_ge [of r] show ?case by simp
qed

lemma consec_Nil [simp]: "consec b []"
  by (simp add: consec_def)

lemma consec_snoc [simp]: "consec b (rs @ [r]) \<longleftrightarrow> consec b rs \<and> Offset r = b + int (length rs)"
  unfolding consec_def by (auto simp: nth_append less_Suc_eq)

lemma consec_append: "consec b (rs @ rs') \<longleftrightarrow> consec b rs \<and> consec (b + int (length rs)) rs'"
proof (induction rs' rule: rev_induct)
  case Nil
  then show ?case by simp
next
  case (snoc r rs')
  then show ?case
    using consec_snoc [of b "rs @ rs'" r] by (auto simp: add.assoc)
qed

lemma consec_take: "consec b rs \<Longrightarrow> consec b (take k rs)"
  by (auto simp: consec_def)

lemma consec_Cons: "consec b (r # rs) \<longleftrightarrow> Offset r = b \<and> consec (b + 1) rs"
  using consec_append [of b "[r]" rs] by (auto simp: consec_def)

lemma consec_ge: "consec b rs \<Longrightarrow> r \<in> set rs \<Longrightarrow> b \<le> Offset r"
  by (auto simp: consec_def in_set_conv_nth)

lemma consec_less: "consec b rs \<Longrightarrow> r \<in> set rs \<Longrightarrow> Offset r < b + int (length rs)"
  by (auto simp: consec_def in_set_conv_nth)

lemma consec_takeWhile:
  "consec b rs \<Longrightarrow> takeWhile (\<lambda>r. Offset r < m) rs = take (nat (m - b)) rs"
proof (induction rs arbitrary: b)
  case Nil
  then show ?case by simp
next
  case (Cons r rs)
  then show ?case
    by (cases "b < m") (auto simp: consec_Cons nat_diff_succ)
qed

text \<open>Adding an index entry for record number \<open>k\<close>.\<close>

lemma index_append_ok [simp]:
  "index_append no_fault ix rel pos =
     (True, ix\<lparr>idxFile := file_write (idxFile ix) (enc_entry \<lparr>RelOffset = rel, Position = pos\<rparr>),
               entries := entries ix @ [\<lparr>RelOffset = rel, Position = pos\<rparr>]\<rparr>)"
  by (simp add: index_append_def enc_entry_def Let_def)

lemma index_file_ok_append:
  "index_file_ok ix \<Longrightarrow> index_file_ok (ix\<lparr>idxFile := file_write (idxFile ix) (enc_entry e),
      entries := entries ix @ [e]\<rparr>)"
  by (simp add: index_file_ok_def)

lemma index_upto_mono: "index_upto k rs ix \<Longrightarrow> k \<le> k' \<Longrightarrow> index_upto k' rs ix"
  by (auto simp: index_upto_def)

lemma index_upto_extend: "index_upto k rs ix \<Longrightarrow> k \<le> length rs \<Longrightarrow> index_upto k (rs @ rs') ix"
  by (auto simp: index_upto_def)

lemma index_upto_append:
  assumes "index_upto k rs ix" "k < 4294967296" "rec_bytes (take k rs) < 4294967296"
  shows "index_upto (Suc k) rs (ix\<lparr>idxFile := f, entries := entries ix @
           [\<lparr>RelOffset = word_of_nat k, Position = word_of_nat (rec_bytes (take k rs))\<rparr>]\<rparr>)"
  using assms by (auto simp: index_upto_def sorted_append word_le_nat_alt less_imp_le less_SucI)

section \<open>Reading\<close>

text \<open>
  The byte budget of a read: a record is taken while the budget is not exceeded, except
  that the first one is always taken.
\<close>

fun budget :: "int \<Rightarrow> int \<Rightarrow> Record list \<Rightarrow> Record list" where
  "budget maxBytes n [] = []"
| "budget maxBytes n (r # rs) =
     (if n > 0 \<and> n + int (EncodedSize r) > maxBytes then []
      else if n + int (EncodedSize r) \<ge> maxBytes then [r]
      else r # budget maxBytes (n + int (EncodedSize r)) rs)"

lemma DecodeAt_drop:
  assumes "drop pos bs = enc r @ rest" "valid_rec r"
  shows "DecodeAt bs pos = Inr (r, EncodedSize r)" "drop (pos + EncodedSize r) bs = rest"
  using assms decode_enc [of r rest] drop_drop [of "EncodedSize r" pos bs]
  by (simp_all add: DecodeAt_eq add.commute)

lemma readFrom_loop_take:
  assumes "\<forall>r\<in>set rs. valid_rec r \<and> fromOffset \<le> Offset r"
    "drop pos bs = concat (map enc rs)" "pos + rec_bytes rs = sz"
  shows "readFrom_loop bs sz fromOffset maxBytes maxOffset pos n out =
    Inr (out @ budget maxBytes n (takeWhile (\<lambda>r. Offset r < maxOffset) rs))"
  using assms
proof (induction rs arbitrary: pos n out)
  case Nil
  then show ?case by (simp add: readFrom_loop.simps [of bs])
next
  case (Cons r rs)
  note d = DecodeAt_drop [of pos bs r "concat (map enc rs)"]
  have "pos < sz" using Cons.prems EncodedSize_ge [of r] by simp
  moreover have "DecodeAt bs pos = Inr (r, EncodedSize r)" using Cons.prems d by simp
  moreover have "readFrom_loop bs sz fromOffset maxBytes maxOffset (pos + EncodedSize r)
       (n + int (EncodedSize r)) (out @ [r]) =
     Inr ((out @ [r]) @ budget maxBytes (n + int (EncodedSize r)) (takeWhile (\<lambda>r. Offset r < maxOffset) rs))"
    using Cons.prems d by (intro Cons.IH) auto
  ultimately show ?case using Cons.prems by (simp add: readFrom_loop.simps [of bs])
qed

lemma readFrom_loop_skip:
  assumes "\<forall>r\<in>set rs. valid_rec r" "consec b rs"
    "drop pos bs = concat (map enc rs)" "pos + rec_bytes rs = sz"
  shows "readFrom_loop bs sz fromOffset maxBytes maxOffset pos n out =
    Inr (out @ budget maxBytes n (takeWhile (\<lambda>r. Offset r < maxOffset) (drop (nat (fromOffset - b)) rs)))"
  using assms
proof (induction rs arbitrary: pos b)
  case Nil
  then show ?case by (simp add: readFrom_loop.simps [of bs])
next
  case (Cons r rs)
  note d = DecodeAt_drop [of pos bs r "concat (map enc rs)"]
  show ?case
  proof (cases "b < fromOffset")
    case True
    have "pos < sz" using Cons.prems EncodedSize_ge [of r] by simp
    moreover have "DecodeAt bs pos = Inr (r, EncodedSize r)" using Cons.prems d by simp
    moreover have "Offset r < fromOffset" using True Cons.prems by (simp add: consec_Cons)
    ultimately have "readFrom_loop bs sz fromOffset maxBytes maxOffset pos n out =
        readFrom_loop bs sz fromOffset maxBytes maxOffset (pos + EncodedSize r) n out"
      by (simp add: readFrom_loop.simps [of bs sz _ _ _ pos])
    also have "\<dots> = Inr (out @ budget maxBytes n (takeWhile (\<lambda>r. Offset r < maxOffset)
        (drop (nat (fromOffset - (b + 1))) rs)))"
      using Cons.prems d by (intro Cons.IH) (auto simp: consec_Cons)
    finally show ?thesis using True by (simp add: nat_diff_succ)
  next
    case False
    then have "\<forall>s\<in>set (r # rs). valid_rec s \<and> fromOffset \<le> Offset s"
      using Cons.prems(1) consec_ge [OF Cons.prems(2)] by force
    from readFrom_loop_take [OF this Cons.prems(3,4)] False show ?thesis by simp
  qed
qed

text \<open>The position that the index gives is the first byte of a record at or before the target.\<close>

lemma lookup_position:
  assumes "index_upto k rs ix"
  shows "\<exists>i \<le> unat rel. unat (lookup ix rel) = rec_bytes (take i rs)"
proof -
  from assms have "sorted (map RelOffset (entries ix))" by (simp add: index_upto_def)
  then obtain m where m: "m \<le> length (entries ix)"
      "filter (\<lambda>e. RelOffset e \<le> rel) (entries ix) = take m (entries ix)"
      "lookup ix rel = (if m = 0 then 0 else Position (entries ix ! (m - 1)))"
    using lookup_search by blast
  show ?thesis
  proof (cases m)
    case 0
    with m show ?thesis by (intro exI [of _ 0]) simp
  next
    case (Suc j)
    let ?e = "entries ix ! j"
    have "?e \<in> set (take m (entries ix))" using m(1) Suc by (auto simp: in_set_conv_nth)
    then have e: "?e \<in> set (entries ix)" "RelOffset ?e \<le> rel" unfolding m(2) [symmetric] by auto
    with assms m(3) Suc show ?thesis
      by (intro exI [of _ "unat (RelOffset ?e)"]) (simp add: index_upto_def word_le_nat_alt)
  qed
qed

lemma readFrom_correct:
  assumes "seg_ok s rs" "baseOffset s \<le> fromOffset" "fromOffset < nextOffset s" "fromOffset < maxOffset"
  shows "readFrom s fromOffset maxBytes maxOffset =
    Inr (budget maxBytes 0 (takeWhile (\<lambda>r. Offset r < maxOffset) (drop (nat (fromOffset - baseOffset s)) rs)))"
proof -
  let ?b = "baseOffset s" and ?bs = "fbytes (logFile s)"
  let ?rel = "word_of_int (fromOffset - ?b) :: uint32"
  obtain i where i: "i \<le> unat ?rel" "unat (lookup (idx s) ?rel) = rec_bytes (take i rs)"
    using lookup_position assms(1) by (force simp: seg_ok_def)
  have rel: "unat ?rel = nat (fromOffset - ?b)"
  proof -
    have "nat (fromOffset - ?b) < 4294967296" using assms by (auto simp: seg_ok_def)
    moreover have "?rel = word_of_nat (nat (fromOffset - ?b))" using assms(2) by simp
    ultimately show ?thesis by (metis unat_of_nat_u32)
  qed
  have bs: "drop (rec_bytes (take i rs)) ?bs = concat (map enc (drop i rs))"
    using assms(1) drop_concat_take [of enc i rs] by (simp add: seg_ok_def rec_bytes_def)
  have "rec_bytes (take i rs) + rec_bytes (drop i rs) = ssize s"
    using assms(1) rec_bytes_simps(3) [of "take i rs" "drop i rs"] by (simp add: seg_ok_def)
  moreover have "\<forall>r\<in>set (drop i rs). valid_rec r"
    using assms(1) by (auto simp: seg_ok_def dest: in_set_dropD)
  moreover have il: "i \<le> length rs" using i(1) rel assms by (auto simp: seg_ok_def)
  moreover have "consec (?b + int i) (drop i rs)"
    using assms(1) il consec_append [of ?b "take i rs" "drop i rs"] by (simp add: seg_ok_def min.absorb2)
  ultimately have "readFrom_loop ?bs (ssize s) fromOffset maxBytes maxOffset (rec_bytes (take i rs)) 0 [] =
      Inr ([] @ budget maxBytes 0 (takeWhile (\<lambda>r. Offset r < maxOffset)
        (drop (nat (fromOffset - (?b + int i))) (drop i rs))))"
    using bs by (intro readFrom_loop_skip) auto
  moreover have "nat (fromOffset - (?b + int i)) + i = nat (fromOffset - ?b)"
    using i(1) rel assms by (auto simp: seg_ok_def)
  ultimately show ?thesis
    using assms(2-4) i(2) by (simp add: readFrom_def Let_def drop_drop)
qed

section \<open>Appending\<close>

lemma segment_append_mismatch:
  "Offset rec \<noteq> nextOffset s \<Longrightarrow>
     segment_append flt now s rec = (Inl (ErrOffset (nextOffset s) (Offset rec)), s)"
  by (simp add: segment_append_def)

lemma segment_append_eq:
  "Offset rec = nextOffset s \<Longrightarrow>
     segment_append no_fault now s rec =
       (Inr (Offset rec),
        s\<lparr>logFile := file_write (logFile s) (Encode now rec),
          idx := (if bytesSinceIndex s = 0 \<or> indexInterval s \<le> int (bytesSinceIndex s)
                  then snd (index_append no_fault (idx s) (word_of_int (Offset rec - baseOffset s))
                              (word_of_nat (ssize s)))
                  else idx s),
          ssize := ssize s + EncodedSize rec,
          nextOffset := i64 (nextOffset s + 1),
          bytesSinceIndex := (if bytesSinceIndex s = 0 \<or> indexInterval s \<le> int (bytesSinceIndex s)
                  then 0 else bytesSinceIndex s) + EncodedSize rec\<rparr>)"
  by (simp add: segment_append_def Let_def Encode_eq)

lemma segment_append_ok:
  assumes ok: "seg_ok s rs" and off: "Offset rec = nextOffset s" and v: "valid_rec (stamp now rec)"
    and room: "ssize s < 4294967296" "nextOffset s < max_i64"
  shows "\<exists>s'. segment_append no_fault now s rec = (Inr (Offset rec), s') \<and>
    seg_ok s' (rs @ [stamp now rec]) \<and> baseOffset s' = baseOffset s \<and>
    ssize s' = ssize s + EncodedSize rec \<and> indexInterval s' = indexInterval s \<and>
    (index_file_ok (idx s) \<longrightarrow> index_file_ok (idx s'))"
proof -
  let ?rs = "rs @ [stamp now rec]"
  define s' where "s' = snd (segment_append no_fault now s rec)"
  note eq = segment_append_eq [OF off, of now]
  have len: "length rs < 4294967296"
    using rec_bytes_ge [of rs] room(1) ok by (simp add: seg_ok_def)
  have rel: "(word_of_int (Offset rec - baseOffset s) :: uint32) = word_of_nat (length rs)"
    using ok off by (simp add: seg_ok_def)
  have pos: "ssize s = rec_bytes (take (length rs) ?rs)" using ok by (simp add: seg_ok_def)
  have ix0: "index_upto (length rs) ?rs (idx s)"
    using ok index_upto_extend [of "length rs" rs "idx s" "[stamp now rec]"] by (simp add: seg_ok_def)
  have "index_upto (length ?rs) ?rs (idx s')"
    using index_upto_mono [OF ix0, of "Suc (length rs)"] index_upto_append [OF ix0] len room(1) pos
    by (simp add: s'_def eq rel [simplified])
  moreover have "i64 (nextOffset s + 1) = nextOffset s + 1"
    using ok room(2) by (intro i64_id) (simp add: in_i64_def seg_ok_def)
  ultimately have "seg_ok s' ?rs"
    using ok off v room(2) len by (simp add: s'_def eq seg_ok_def Encode_eq)
  moreover have "index_file_ok (idx s) \<longrightarrow> index_file_ok (idx s')"
    by (simp add: s'_def eq index_file_ok_append)
  ultimately show ?thesis by (simp add: s'_def eq)
qed

section \<open>Recovery\<close>

definition end_of :: "rec_error \<Rightarrow> scan_end" where
  "end_of e = (if e = ErrIO EOF then Clean else if e = Panic then Crash else Torn)"

lemma Decode_drop:
  assumes "drop pos bs = enc r @ rest" "valid_rec r"
  shows "Decode bs pos = Inr (r, EncodedSize r)" "drop (pos + EncodedSize r) bs = rest"
  using assms decode_enc [of r rest] drop_drop [of "EncodedSize r" pos bs]
  by (simp_all add: Decode_eq add.commute)

lemma recover_tail_correct:
  assumes "drop cursor bs = concat (map enc rs) @ rest" "decode_bytes rest = Inl e"
    "\<forall>r\<in>set rs. valid_rec r" "consec b rs" "0 \<le> b" "b + int (length rs) \<le> max_i64"
  shows "recover_tail bs cursor b pos = (end_of e, b + int (length rs), pos + rec_bytes rs)"
  using assms
proof (induction rs arbitrary: cursor b pos)
  case Nil
  then show ?case by (simp add: recover_tail.simps [of bs] Decode_eq end_of_def)
next
  case (Cons r rs)
  note d = Decode_drop [of cursor bs r "concat (map enc rs) @ rest"]
  have "i64 (Offset r + 1) = b + 1"
    using Cons.prems by (simp add: consec_Cons in_i64_def)
  moreover have "recover_tail bs (cursor + EncodedSize r) (b + 1) (pos + EncodedSize r) =
      (end_of e, b + 1 + int (length rs), pos + EncodedSize r + rec_bytes rs)"
    using Cons.prems d by (intro Cons.IH) (auto simp: consec_Cons)
  ultimately show ?case
    using Cons.prems d by (simp add: recover_tail.simps [of bs cursor])
qed

lemma recover_scan_correct:
  assumes "drop (rec_bytes rs0) bs = concat (map enc rs) @ rest" "decode_bytes rest = Inl e"
    "\<forall>r\<in>set rs. valid_rec r" "consec b (rs0 @ rs)" "0 \<le> b" "b + int (length (rs0 @ rs)) \<le> max_i64"
    "length bs \<le> 4294967296" "index_upto (length rs0) (rs0 @ rs) ix" "index_file_ok ix"
  shows "\<exists>ix' since'. recover_scan no_fault b intv bs (rec_bytes rs0) ix since (b + int (length rs0)) (rec_bytes rs0)
      = (Some (end_of e), ix', since', b + int (length (rs0 @ rs)), rec_bytes (rs0 @ rs))
    \<and> index_upto (length (rs0 @ rs)) (rs0 @ rs) ix' \<and> index_file_ok ix'"
  using assms
proof (induction rs arbitrary: rs0 ix since)
  case Nil
  then show ?case by (simp add: recover_scan.simps [of _ _ _ bs] Decode_eq end_of_def)
next
  case (Cons r rs)
  let ?k = "length rs0" and ?p = "rec_bytes rs0" and ?RS = "rs0 @ r # rs"
  note d = Decode_drop [of ?p bs r "concat (map enc rs) @ rest"]
  have off: "Offset r = b + int ?k"
    using Cons.prems(4) by (simp add: consec_append consec_Cons)
  then have nxt: "i64 (Offset r + 1) = b + int (length (rs0 @ [r]))"
    using Cons.prems(5,6) by (simp add: in_i64_def)
  have rel: "(word_of_int (Offset r - b) :: uint32) = word_of_nat ?k" by (simp add: off)
  have "length (drop ?p bs) \<ge> EncodedSize r" using Cons.prems(1) by simp
  then have p: "?p < 4294967296" using Cons.prems(7) EncodedSize_ge [of r] by simp
  have k: "?k < 4294967296" using rec_bytes_ge [of rs0] p by simp
  define rb where "rb = (since = 0 \<or> intv \<le> int since)"
  define ix1 where "ix1 = (if rb then snd (index_append no_fault ix (word_of_nat ?k) (word_of_nat ?p)) else ix)"
  define since1 where "since1 = (if rb then 0 else since) + EncodedSize r"
  have "index_upto (Suc ?k) ?RS ix1"
    using index_upto_mono [OF Cons.prems(8), of "Suc ?k"] index_upto_append [OF Cons.prems(8) k] p
    by (simp add: ix1_def)
  moreover have "index_file_ok ix1" using Cons.prems(9) by (simp add: ix1_def index_file_ok_append)
  ultimately have ih: "\<exists>ix' since'. recover_scan no_fault b intv bs (rec_bytes (rs0 @ [r])) ix1 since1
       (b + int (length (rs0 @ [r]))) (rec_bytes (rs0 @ [r]))
      = (Some (end_of e), ix', since', b + int (length ((rs0 @ [r]) @ rs)), rec_bytes ((rs0 @ [r]) @ rs))
    \<and> index_upto (length ((rs0 @ [r]) @ rs)) ((rs0 @ [r]) @ rs) ix' \<and> index_file_ok ix'"
    using Cons.prems d by (intro Cons.IH) auto
  have "recover_scan no_fault b intv bs ?p ix since (b + int ?k) ?p =
      recover_scan no_fault b intv bs (?p + EncodedSize r) ix1 since1 (i64 (Offset r + 1)) (?p + EncodedSize r)"
    using Cons.prems d by (simp add: recover_scan.simps [of _ _ _ bs ?p] rel [simplified] ix1_def since1_def rb_def)
  with ih show ?case by (simp add: nxt)
qed

text \<open>The full scan: the segment that results holds exactly the records that decode.\<close>

lemma recover_segment_full:
  assumes s: "fbytes (logFile s) = concat (map enc rs) @ rest" "ssize s = length (fbytes (logFile s))"
      "ssize s \<noteq> 0" "ssize s \<le> 4294967296" "0 \<le> baseOffset s"
    and mode: "scanAll \<or> entries (idx s) = []"
    and rest: "decode_bytes rest = Inl e" "e \<noteq> Panic"
    and rs: "\<forall>r\<in>set rs. valid_rec r" "consec (baseOffset s) rs" "baseOffset s + int (length rs) \<le> max_i64"
  shows "\<exists>s'. recover_segment no_fault s scanAll = Inr s' \<and> seg_ok s' rs \<and> index_file_ok (idx s')
    \<and> baseOffset s' = baseOffset s \<and> indexInterval s' = indexInterval s"
proof -
  let ?ix0 = "\<lparr>idxFile = seek_start (file_truncate (idxFile (idx s)) 0) 0, entries = []\<rparr>"
  have ix0: "index_upto 0 rs ?ix0" "index_file_ok ?ix0"
    by (simp_all add: index_upto_def index_file_ok_def)
  obtain ix since where sc: "recover_scan no_fault (baseOffset s) (indexInterval s) (fbytes (logFile s)) 0 ?ix0 0
        (baseOffset s) 0 = (Some (end_of e), ix, since, baseOffset s + int (length rs), rec_bytes rs)"
      and ix: "index_upto (length rs) rs ix" "index_file_ok ix"
    using recover_scan_correct [of "[]" "fbytes (logFile s)" rs rest e "baseOffset s" ?ix0 "indexInterval s" 0]
      s rest rs ix0 by auto
  have len: "rec_bytes rs \<le> 4294967296" using s by (simp add: rec_bytes_def)
  then have cnt: "length rs \<le> 4294967296" using rec_bytes_ge [of rs] by simp
  define lf where "lf = (if end_of e = Torn then file_truncate (logFile s) (rec_bytes rs) else logFile s)"
  define s' where "s' = s\<lparr>logFile := seek_end lf, idx := ix, nextOffset := baseOffset s + int (length rs),
      ssize := rec_bytes rs, bytesSinceIndex := since\<rparr>"
  have ends: "end_of e = Torn \<or> end_of e = Clean \<and> rest = []"
    using rest decode_eof [of rest] by (auto simp: end_of_def)
  then have "fbytes lf = concat (map enc rs)" using s(1) by (auto simp: lf_def rec_bytes_def)
  then have "seg_ok s' rs"
    using s rs ix cnt by (simp add: s'_def seg_ok_def rec_bytes_def)
  moreover have "recover_segment no_fault s scanAll = Inr s'"
    using ends mode s(3) unfolding recover_segment_def sc s'_def lf_def by auto
  ultimately show ?thesis using ix by (simp add: s'_def)
qed

lemma recover_segment_tail:
  assumes s: "fbytes (logFile s) = concat (map enc rs) @ rest" "ssize s \<noteq> 0" "0 \<le> baseOffset s"
    and ix: "index_upto (length rs) rs (idx s)" "entries (idx s) \<noteq> []"
    and rest: "decode_bytes rest = Inl e" "e \<noteq> Panic"
    and rs: "\<forall>r\<in>set rs. valid_rec r" "consec (baseOffset s) rs" "baseOffset s + int (length rs) \<le> max_i64"
      "length rs \<le> 4294967296"
  shows "\<exists>s'. recover_segment no_fault s False = Inr s' \<and> seg_ok s' rs \<and> idx s' = idx s
    \<and> baseOffset s' = baseOffset s \<and> indexInterval s' = indexInterval s"
proof -
  let ?e = "last (entries (idx s))"
  let ?i = "unat (RelOffset ?e)" and ?p = "unat (Position ?e)"
  have "?e \<in> set (entries (idx s))" using ix(2) by simp
  then have i: "?i < length rs" "?p = rec_bytes (take ?i rs)" using ix(1) by (auto simp: index_upto_def)
  have "drop ?p (fbytes (logFile s)) = concat (map enc (drop ?i rs)) @ rest"
    using drop_concat_take [of enc ?i rs] length_concat_take_le [of enc ?i rs]
    by (simp add: s(1) i(2) rec_bytes_def)
  moreover have "consec (baseOffset s + int ?i) (drop ?i rs)"
    using rs(2) i(1) consec_append [of "baseOffset s" "take ?i rs" "drop ?i rs"] by (simp add: min.absorb2)
  ultimately have "recover_tail (fbytes (logFile s)) ?p (baseOffset s + int ?i) ?p =
      (end_of e, baseOffset s + int ?i + int (length (drop ?i rs)), ?p + rec_bytes (drop ?i rs))"
    using rest rs s(3) i(1) by (intro recover_tail_correct) (auto dest: in_set_dropD)
  moreover have "?p + rec_bytes (drop ?i rs) = rec_bytes rs"
    using rec_bytes_simps(3) [of "take ?i rs" "drop ?i rs"] i(2) by simp
  ultimately have tl: "recover_tail (fbytes (logFile s)) ?p (baseOffset s + int ?i) ?p =
      (end_of e, baseOffset s + int (length rs), rec_bytes rs)"
    using i(1) by simp
  define lf where "lf = (if end_of e = Torn then file_truncate (logFile s) (rec_bytes rs) else logFile s)"
  define s' where "s' = s\<lparr>logFile := seek_end lf, nextOffset := baseOffset s + int (length rs),
      ssize := rec_bytes rs\<rparr>"
  have ends: "end_of e = Torn \<or> end_of e = Clean \<and> rest = []"
    using rest decode_eof [of rest] by (auto simp: end_of_def)
  then have "fbytes lf = concat (map enc rs)" using s(1) by (auto simp: lf_def rec_bytes_def)
  then have "seg_ok s' rs"
    using s rs ix by (simp add: s'_def seg_ok_def rec_bytes_def)
  moreover have "recover_segment no_fault s False = Inr s'"
    using ends ix(2) s(2) unfolding recover_segment_def Let_def tl s'_def lf_def by auto
  ultimately show ?thesis by (simp add: s'_def)
qed

text \<open>A torn record is never taken for the end of the file and never makes the decoder panic.\<close>

lemma decode_torn:
  assumes "valid_rec r" "k < EncodedSize r"
  shows "\<exists>e. decode_bytes (take k (enc r)) = Inl e \<and> e \<noteq> Panic"
proof -
  define bs where "bs = take k (enc r)"
  have len: "length bs = k" using assms(2) by (simp add: bs_def)
  have "unat (Uint32 (take 4 (drop 4 bs))) = psize r" if "8 \<le> k"
  proof -
    have "take 4 (drop 4 bs) = PutUint32 (word_of_nat (psize r))"
      using that by (simp add: bs_def enc_eq drop_take)
    then show ?thesis using assms(1) by (simp add: valid_rec_def EncodedSize_psize)
  qed
  then have "8 \<le> k \<Longrightarrow> decode_bytes bs = Inl ErrCorrupt"
    using assms(2) len by (auto simp: decode_bytes_def EncodedSize_psize Let_def)
  moreover have "k < 8 \<Longrightarrow> decode_bytes bs = Inl (ErrIO (if k = 0 then EOF else UnexpectedEOF))"
    using len by (auto simp: decode_bytes_def)
  ultimately show ?thesis unfolding bs_def [symmetric] by (cases "k < 8") auto
qed

lemma torn_split:
  assumes "\<forall>r\<in>set rs. valid_rec r"
  shows "\<exists>rest e. take k (concat (map enc rs)) = concat (map enc (take (whole enc k rs) rs)) @ rest
     \<and> decode_bytes rest = Inl e \<and> e \<noteq> Panic"
  using assms
proof (induction rs arbitrary: k)
  case Nil
  then show ?case by (auto simp: rc.dec_Nil)
next
  case (Cons r rs)
  show ?case
  proof (cases "EncodedSize r \<le> k")
    case True
    from Cons obtain rest e where "take (k - EncodedSize r) (concat (map enc rs)) =
        concat (map enc (take (whole enc (k - EncodedSize r) rs) rs)) @ rest"
      "decode_bytes rest = Inl e" "e \<noteq> Panic" by fastforce
    with True show ?thesis by auto
  next
    case False
    with Cons.prems obtain e where "decode_bytes (take k (enc r)) = Inl e" "e \<noteq> Panic"
      using decode_torn [of r k] by auto
    with False show ?thesis by auto
  qed
qed

section \<open>A tail that does not decode\<close>

lemma readFrom_loop_bad_tail:
  assumes "\<forall>r\<in>set rs. valid_rec r \<and> Offset r < fromOffset"
    "drop pos bs = concat (map enc rs) @ rest" "pos + rec_bytes rs < sz"
    "decode_bytes rest = Inl e" "e \<noteq> ErrIO EOF"
  shows "readFrom_loop bs sz fromOffset maxBytes maxOffset pos n out = Inl (ErrRec e)"
  using assms
proof (induction rs arbitrary: pos)
  case Nil
  then show ?case by (simp add: readFrom_loop.simps [of bs] DecodeAt_eq)
next
  case (Cons r rs)
  note d = DecodeAt_drop [of pos bs r "concat (map enc rs) @ rest"]
  have "readFrom_loop bs sz fromOffset maxBytes maxOffset (pos + EncodedSize r) n out = Inl (ErrRec e)"
    using Cons.prems d by (intro Cons.IH) auto
  then show ?case using Cons.prems d by (simp add: readFrom_loop.simps [of bs sz _ _ _ pos])
qed

text \<open>
  If the bytes after the records of a segment do not decode but the segment counts one more
  record, reading that record fails.
\<close>

lemma readFrom_bad_tail:
  assumes "fbytes (logFile s) = concat (map enc rs) @ rest" "decode_bytes rest = Inl e" "e \<noteq> ErrIO EOF"
    "rec_bytes rs < ssize s" "\<forall>r\<in>set rs. valid_rec r" "consec (baseOffset s) rs" "length rs < 4294967296"
    "nextOffset s = baseOffset s + int (length rs) + 1" "index_upto (Suc (length rs)) (rs @ [r]) (idx s)"
    "baseOffset s + int (length rs) < maxOffset"
  shows "readFrom s (baseOffset s + int (length rs)) maxBytes maxOffset = Inl (ErrRec e)"
proof -
  let ?from = "baseOffset s + int (length rs)"
  obtain i where i: "i \<le> length rs" "unat (lookup (idx s) (word_of_nat (length rs))) = rec_bytes (take i (rs @ [r]))"
    using lookup_position [OF assms(9), of "word_of_nat (length rs)"] assms(7) by auto
  then have p: "unat (lookup (idx s) (word_of_nat (length rs))) = rec_bytes (take i rs)" by simp
  have "drop (rec_bytes (take i rs)) (fbytes (logFile s)) = concat (map enc (drop i rs)) @ rest"
    using drop_concat_take [of enc i rs] length_concat_take_le [of enc i rs]
    by (simp add: assms(1) rec_bytes_def)
  moreover have "rec_bytes (take i rs) + rec_bytes (drop i rs) = rec_bytes rs"
    using rec_bytes_simps(3) [of "take i rs" "drop i rs"] by simp
  moreover have "\<forall>x\<in>set (drop i rs). valid_rec x \<and> Offset x < ?from"
    using assms(5) consec_less [OF assms(6)] by (auto dest: in_set_dropD)
  ultimately have "readFrom_loop (fbytes (logFile s)) (ssize s) ?from maxBytes maxOffset
      (rec_bytes (take i rs)) 0 [] = Inl (ErrRec e)"
    using assms(2-4) by (intro readFrom_loop_bad_tail) auto
  then show ?thesis using assms(8,10) by (simp add: readFrom_def Let_def p)
qed

lemma index_after_append:
  assumes "seg_ok s rs" "Offset rec = nextOffset s" "ssize s < 4294967296"
    "segment_append no_fault now s1 rec = (Inr v, s2)" "s1 = s\<lparr>logFile := f\<rparr>"
  shows "index_upto (Suc (length rs)) (rs @ [x]) (idx s2)"
proof -
  have len: "length rs < 4294967296"
    using rec_bytes_ge [of rs] assms(1,3) by (simp add: seg_ok_def)
  have rel: "(word_of_int (Offset rec - baseOffset s) :: uint32) = word_of_nat (length rs)"
    using assms(1,2) by (simp add: seg_ok_def)
  have pos: "ssize s = rec_bytes (take (length rs) (rs @ [x]))" using assms(1) by (simp add: seg_ok_def)
  have ix0: "index_upto (length rs) (rs @ [x]) (idx s)"
    using assms(1) index_upto_extend [of "length rs" rs "idx s" "[x]"] by (simp add: seg_ok_def)
  have "segment_append no_fault now s1 rec = (Inr v, s2)" by (fact assms(4))
  then have "idx s2 = (if bytesSinceIndex s = 0 \<or> indexInterval s \<le> int (bytesSinceIndex s)
                  then snd (index_append no_fault (idx s) (word_of_nat (length rs)) (word_of_nat (ssize s)))
                  else idx s)"
    using assms(2) by (auto simp: assms(5) segment_append_eq rel [simplified])
  then show ?thesis
    using index_upto_mono [OF ix0, of "Suc (length rs)"] index_upto_append [OF ix0 len] assms(3) pos
    by simp
qed

text \<open>Opening the last segment after a crash at byte \<open>k\<close> of its log file.\<close>

lemma openSegment_active:
  assumes "map_of dir (fst (segmentPaths base)) = Some (take k (concat (map enc rs)))"
    and "0 < k \<and> rs \<noteq> [] \<or> map_of dir (snd (segmentPaths base)) \<in> {None, Some []}"
    and "\<forall>r\<in>set rs. valid_rec r" "consec base rs" "0 \<le> base" "base + int (length rs) \<le> max_i64"
    and "rec_bytes rs \<le> 4294967296"
  shows "\<exists>s. openSegment no_fault dir base intv True = Inr s
    \<and> seg_ok s (take (whole enc k rs) rs) \<and> baseOffset s = base \<and> index_file_ok (idx s)"
proof -
  let ?bs = "take k (concat (map enc rs))" and ?rs = "take (whole enc k rs) rs"
  obtain ix where ix: "openIndex no_fault (map_of dir (snd (segmentPaths base))) = Some ix"
      and ix0: "map_of dir (snd (segmentPaths base)) \<in> {None, Some []} \<longrightarrow> entries ix = [] \<and> index_file_ok ix"
    using ie.scan_concat [of "[]"] by (auto simp: openIndex_ok index_file_ok_def)
  define s where "s = \<lparr>baseOffset = base, logFile = \<lparr>fbytes = ?bs, fpos = 0\<rparr>, idx = ix,
      ssize = length ?bs, nextOffset = 0, bytesSinceIndex = 0, indexInterval = intv\<rparr>"
  have opn: "openSegment no_fault dir base intv True = recover_segment no_fault s True"
    using assms(1) ix by (simp add: openSegment_def s_def case_prod_unfold)
  have rs: "\<forall>r\<in>set ?rs. valid_rec r" "consec base ?rs" "base + int (length ?rs) \<le> max_i64"
    using assms(3,4,6) whole_le [of enc k rs] by (auto simp: consec_take dest: in_set_takeD)
  show ?thesis
  proof (cases "?bs = []")
    case True
    then have empty: "k = 0 \<or> rs = []" using rc.enc_nonempty by (cases rs) auto
    then have nil: "?rs = []" by (cases rs) (auto simp: EncodedSize_def)
    have ents: "entries ix = []" "index_file_ok ix" using empty assms(2) ix0 by auto
    have s0: "ssize s = 0" "fbytes (logFile s) = []"
      unfolding s_def True by simp_all
    then have "seg_ok (s\<lparr>nextOffset := base\<rparr>) []"
      using ents assms(5,6) by (simp add: s_def seg_ok_def index_upto_def)
    moreover have "recover_segment no_fault s True = Inr (s\<lparr>nextOffset := base\<rparr>)"
      using s0 by (simp add: recover_segment_def) (simp add: s_def)
    ultimately show ?thesis unfolding nil opn using ents by (simp add: s_def)
  next
    case False
    obtain rest e where r: "?bs = concat (map enc ?rs) @ rest" "decode_bytes rest = Inl e" "e \<noteq> Panic"
      using torn_split [OF assms(3), of k] by blast
    have "length ?bs \<le> 4294967296" using assms(7) by (simp add: rec_bytes_def)
    then show ?thesis
      using recover_segment_full [of s ?rs rest True e] r rs False assms(5) opn by (auto simp: s_def)
  qed
qed

section \<open>Properties\<close>

text \<open>
  Crash recovery of the active segment: if the log file holds any prefix of the bytes of
  consecutive valid records \<open>rs\<close> (a crash cut it at byte \<open>k\<close>), whatever the index file holds,
  \<open>openSegment\<close> succeeds and the segment holds exactly the records that were written
  completely, with a correct rebuilt index, ready for the next append.  The one case that
  is excluded is an empty log file beside a non-empty index file, which is the subject of
  \<open>stale_index_hides_records\<close>.
\<close>

theorem recovery_keeps_whole_records:
  assumes "map_of dir (fst (segmentPaths base)) = Some (take k (concat (map enc rs)))"
    and "0 < k \<and> rs \<noteq> [] \<or> map_of dir (snd (segmentPaths base)) \<in> {None, Some []}"
    and "\<forall>r\<in>set rs. valid_rec r" "consec base rs" "0 \<le> base" "base + int (length rs) \<le> max_i64"
    and "rec_bytes rs \<le> 4294967296"
  shows "\<exists>s. openSegment no_fault dir base intv True = Inr s
    \<and> seg_ok s (take (whole enc k rs) rs) \<and> baseOffset s = base"
  using openSegment_active [OF assms] by blast

theorem recovery_keeps_whole_records_witness:
  "\<exists>s. openSegment no_fault
      [(fst (segmentPaths 4), take 50 (concat (map enc
          [\<lparr>Offset = 4, Timestamp = 7, Key = [], Value = []\<rparr>, \<lparr>Offset = 5, Timestamp = 7, Key = [], Value = []\<rparr>])))]
      4 4096 True = Inr s
    \<and> seg_ok s [\<lparr>Offset = 4, Timestamp = 7, Key = [], Value = []\<rparr>] \<and> baseOffset s = 4"
proof -
  let ?rs = "[\<lparr>Offset = 4, Timestamp = 7, Key = [], Value = []\<rparr>, \<lparr>Offset = 5, Timestamp = 7, Key = [], Value = []\<rparr>]"
  have w: "take (whole enc 50 ?rs) ?rs = [\<lparr>Offset = 4, Timestamp = 7, Key = [], Value = []\<rparr>]"
    by (simp add: EncodedSize_def)
  show ?thesis
    unfolding w [symmetric]
    by (rule recovery_keeps_whole_records)
      (auto simp: segmentPaths_def valid_rec_def in_i64_def EncodedSize_def consec_Cons)
qed

text \<open>
  A record whose payload exceeds 64 MiB is accepted by \<open>append\<close> and acknowledged with
  its offset, but it can never be read: reading it fails with \<open>ErrCorrupt\<close>, and a later
  recovery scan of the file stops before it.
\<close>

theorem oversize_append_unreadable:
  assumes "seg_ok s rs" "Offset rec = nextOffset s" "ssize s < 4294967296" "nextOffset s < max_i64"
    and "67108872 < EncodedSize rec" "EncodedSize rec < 4294967296" "nextOffset s < maxOffset"
  shows "\<exists>s'. segment_append no_fault now s rec = (Inr (Offset rec), s')
    \<and> readFrom s' (Offset rec) maxBytes maxOffset = Inl (ErrRec ErrCorrupt)
    \<and> scan decode_bytes (fbytes (logFile s')) = rs"
proof -
  define s' where "s' = snd (segment_append no_fault now s rec)"
  note eq = segment_append_eq [OF assms(2), of now]
  have app: "segment_append no_fault now s rec = (Inr (Offset rec), s')"
    by (simp add: s'_def eq)
  let ?e = "enc (stamp now rec)"
  have sz: "unat (Uint32 (take 4 (drop 4 ?e))) = psize (stamp now rec)"
    using assms(6) stamp_simps(4) [of now rec] by (simp add: enc_eq EncodedSize_psize)
  have bad: "decode_bytes ?e = Inl ErrCorrupt"
    using assms(5) sz length_enc [of "stamp now rec"] stamp_simps(4) [of now rec]
    unfolding decode_bytes_def Let_def sz by (auto simp: EncodedSize_psize rc.enc_nonempty)
  have fb: "fbytes (logFile s') = concat (map enc rs) @ ?e"
    using assms(1) by (simp add: s'_def eq seg_ok_def Encode_eq)
  have nxt: "nextOffset s' = baseOffset s' + int (length rs) + 1"
    using assms(1,4) by (simp add: s'_def eq seg_ok_def in_i64_def)
  have len: "length rs < 4294967296"
    using rec_bytes_ge [of rs] assms(1,3) by (simp add: seg_ok_def)
  have ix: "index_upto (Suc (length rs)) (rs @ [rec]) (idx s')"
    by (rule index_after_append [OF assms(1-3) app, of "logFile s"]) simp
  have same: "baseOffset s' = baseOffset s" "rec_bytes rs < ssize s'"
    using assms(1,5) by (simp_all add: s'_def eq seg_ok_def)
  have "readFrom s' (baseOffset s' + int (length rs)) maxBytes maxOffset = Inl (ErrRec ErrCorrupt)"
    using assms(1,7) same by (intro readFrom_bad_tail [OF fb bad _ _ _ _ len nxt ix]) (auto simp: seg_ok_def)
  moreover have "Offset rec = baseOffset s' + int (length rs)"
    using assms(1,2) same by (simp add: seg_ok_def)
  moreover have "scan decode_bytes (fbytes (logFile s')) = rs"
    using assms(1) rc.scan_append [of rs ?e] rc.scan_Err [OF bad] by (simp add: fb seg_ok_def)
  ultimately show ?thesis using app by simp
qed

theorem oversize_append_unreadable_witness:
  "\<exists>s'. segment_append no_fault 1 \<lparr>baseOffset = 0, logFile = \<lparr>fbytes = [], fpos = 0\<rparr>,
       idx = \<lparr>idxFile = \<lparr>fbytes = [], fpos = 0\<rparr>, entries = []\<rparr>, ssize = 0, nextOffset = 0,
       bytesSinceIndex = 0, indexInterval = 4096\<rparr>
       \<lparr>Offset = 0, Timestamp = 7, Key = [], Value = replicate 67108840 0\<rparr> = (Inr 0, s')
     \<and> readFrom s' 0 100 1 = Inl (ErrRec ErrCorrupt)
     \<and> scan decode_bytes (fbytes (logFile s')) = []"
  using oversize_append_unreadable [of "\<lparr>baseOffset = 0, logFile = \<lparr>fbytes = [], fpos = 0\<rparr>,
       idx = \<lparr>idxFile = \<lparr>fbytes = [], fpos = 0\<rparr>, entries = []\<rparr>, ssize = 0, nextOffset = 0,
       bytesSinceIndex = 0, indexInterval = 4096\<rparr>" "[]"
       "\<lparr>Offset = 0, Timestamp = 7, Key = [], Value = replicate 67108840 0\<rparr>" 1 1 100]
  by (simp add: seg_ok_def index_upto_def EncodedSize_def)

text \<open>
  A write that fails part-way (for example because the disk is full) poisons the
  segment: the bytes already written stay in the file and the segment does not count them,
  so that the next append, although it is acknowledged, puts its record where neither a
  read nor a recovery scan finds it.  Stated for a failed record that is longer than what
  was written of it together with the next record.
\<close>

theorem failed_write_poisons_segment:
  assumes "seg_ok s rs" "ssize s < 4294967296" "nextOffset s < max_i64" "nextOffset s < maxOffset"
    and "Offset rec1 = nextOffset s" "valid_rec (stamp now rec1)" "Offset rec2 = nextOffset s"
    and "8 \<le> k" "k + EncodedSize rec2 < EncodedSize rec1"
  shows "\<exists>s1 s2. segment_append (no_fault\<lparr>f_logw := Some k\<rparr>) now s rec1 = (Inl ErrOS, s1)
    \<and> segment_append no_fault now s1 rec2 = (Inr (Offset rec2), s2)
    \<and> readFrom s2 (Offset rec2) maxBytes maxOffset = Inl (ErrRec ErrCorrupt)
    \<and> scan decode_bytes (fbytes (logFile s2)) = rs"
proof -
  let ?e1 = "enc (stamp now rec1)" and ?e2 = "enc (stamp now rec2)"
  define s1 where "s1 = s\<lparr>logFile := file_write (logFile s) (take k ?e1)\<rparr>"
  define s2 where "s2 = snd (segment_append no_fault now s1 rec2)"
  have a1: "segment_append (no_fault\<lparr>f_logw := Some k\<rparr>) now s rec1 = (Inl ErrOS, s1)"
    using assms(5) by (simp add: segment_append_def try_write_def s1_def Encode_eq Let_def)
  have n1: "Offset rec2 = nextOffset s1" using assms(7) by (simp add: s1_def)
  note eq = segment_append_eq [OF n1, of now]
  have a2: "segment_append no_fault now s1 rec2 = (Inr (Offset rec2), s2)" by (simp add: s2_def eq)
  let ?t = "take k ?e1 @ ?e2"
  have sz: "unat (Uint32 (take 4 (drop 4 ?t))) = psize rec1"
  proof -
    have "take 4 (drop 4 ?t) = PutUint32 (word_of_nat (psize (stamp now rec1)))"
      using assms(8,9) by (simp add: enc_eq drop_take EncodedSize_psize)
    then show ?thesis using assms(6) stamp_simps(4) [of now rec1]
      by (simp add: valid_rec_def EncodedSize_psize)
  qed
  have bad: "decode_bytes ?t = Inl ErrCorrupt"
    using assms(8,9) unfolding decode_bytes_def Let_def sz
    by (auto simp: EncodedSize_psize rc.enc_nonempty)
  have fb: "fbytes (logFile s2) = concat (map enc rs) @ ?t"
    unfolding s2_def eq using assms(1) by (simp add: s1_def seg_ok_def Encode_eq)
  have len: "length rs < 4294967296"
    using rec_bytes_ge [of rs] assms(1,2) by (simp add: seg_ok_def)
  have nxt: "nextOffset s2 = baseOffset s2 + int (length rs) + 1"
    unfolding s2_def eq using assms(1,3) by (simp add: s1_def seg_ok_def in_i64_def)
  have ix: "index_upto (Suc (length rs)) (rs @ [rec2]) (idx s2)"
    by (rule index_after_append [OF assms(1,7,2) a2 s1_def])
  have same: "baseOffset s2 = baseOffset s" "rec_bytes rs < ssize s2"
    unfolding s2_def eq using assms(1) EncodedSize_ge [of rec2] by (simp_all add: s1_def seg_ok_def)
  have "readFrom s2 (baseOffset s2 + int (length rs)) maxBytes maxOffset = Inl (ErrRec ErrCorrupt)"
    using assms(1,4) same by (intro readFrom_bad_tail [OF fb bad _ _ _ _ len nxt ix]) (auto simp: seg_ok_def)
  moreover have "Offset rec2 = baseOffset s2 + int (length rs)"
    using assms(1,7) same by (simp add: seg_ok_def)
  moreover have "scan decode_bytes (fbytes (logFile s2)) = rs"
    using assms(1) rc.scan_append [of rs ?t] rc.scan_Err [OF bad] by (simp add: fb seg_ok_def)
  ultimately show ?thesis using a1 a2 by auto
qed

theorem failed_write_poisons_segment_witness:
  "\<exists>s1 s2. segment_append (no_fault\<lparr>f_logw := Some 8\<rparr>) 1
       \<lparr>baseOffset = 0, logFile = \<lparr>fbytes = [], fpos = 0\<rparr>,
        idx = \<lparr>idxFile = \<lparr>fbytes = [], fpos = 0\<rparr>, entries = []\<rparr>, ssize = 0, nextOffset = 0,
        bytesSinceIndex = 0, indexInterval = 4096\<rparr>
       \<lparr>Offset = 0, Timestamp = 7, Key = [], Value = replicate 100 0\<rparr> = (Inl ErrOS, s1)
     \<and> segment_append no_fault 1 s1 \<lparr>Offset = 0, Timestamp = 7, Key = [], Value = [5]\<rparr> = (Inr 0, s2)
     \<and> readFrom s2 0 100 1 = Inl (ErrRec ErrCorrupt)
     \<and> scan decode_bytes (fbytes (logFile s2)) = []"
  using failed_write_poisons_segment [of "\<lparr>baseOffset = 0, logFile = \<lparr>fbytes = [], fpos = 0\<rparr>,
        idx = \<lparr>idxFile = \<lparr>fbytes = [], fpos = 0\<rparr>, entries = []\<rparr>, ssize = 0, nextOffset = 0,
        bytesSinceIndex = 0, indexInterval = 4096\<rparr>" "[]" 1
        "\<lparr>Offset = 0, Timestamp = 7, Key = [], Value = replicate 100 0\<rparr>" 1
        "\<lparr>Offset = 0, Timestamp = 7, Key = [], Value = [5]\<rparr>" 8 100]
  by (simp add: seg_ok_def index_upto_def EncodedSize_def valid_rec_def stamp_def in_i64_def)

definition stale_dir :: directory where
  "stale_dir = [(fst (segmentPaths 0), []),
     (snd (segmentPaths 0), enc_entry \<lparr>RelOffset = 0, Position = 0\<rparr>
        @ enc_entry \<lparr>RelOffset = 2, Position = 1000\<rparr> @ enc_entry \<lparr>RelOffset = 5, Position = 2000\<rparr>)]"

definition append3 :: "segment \<Rightarrow> segment" where
  "append3 s0 =
     (let s1 = snd (segment_append no_fault 1 s0 \<lparr>Offset = 0, Timestamp = 1, Key = [], Value = []\<rparr>);
          s2 = snd (segment_append no_fault 1 s1 \<lparr>Offset = 1, Timestamp = 1, Key = [], Value = []\<rparr>)
      in snd (segment_append no_fault 1 s2 \<lparr>Offset = 2, Timestamp = 1, Key = [], Value = []\<rparr>))"

text \<open>
  Recovery of an empty log file does not clear the index that was loaded from disk.
  With an index file left over from before the crash, records appended after the restart
  can be invisible: here three records are appended and acknowledged, and a read from
  offset 2 silently returns nothing.
\<close>

theorem stale_index_hides_records:
  "\<exists>s. openSegment no_fault stale_dir 0 4096 True = Inr s
    \<and> nextOffset (append3 s) = 3 \<and> readFrom (append3 s) 2 1000 3 = Inr []"
proof -
  let ?es = "[\<lparr>RelOffset = 0, Position = 0\<rparr>, \<lparr>RelOffset = 2, Position = 1000\<rparr>, \<lparr>RelOffset = 5, Position = 2000\<rparr>]"
  let ?bs = "enc_entry (?es ! 0) @ enc_entry (?es ! 1) @ enc_entry (?es ! 2)"
  define ix where "ix = \<lparr>idxFile = \<lparr>fbytes = ?bs, fpos = 0\<rparr>, entries = ?es\<rparr>"
  define s where "s = \<lparr>baseOffset = 0, logFile = \<lparr>fbytes = [], fpos = 0\<rparr>, idx = ix, ssize = 0,
      nextOffset = 0, bytesSinceIndex = 0, indexInterval = 4096\<rparr>"
  have "scan decode_entry ?bs = ?es" using ie.scan_concat [of ?es] by simp
  then have ixo: "openIndex no_fault (Some ?bs) = Some ix" by (simp add: openIndex_ok ix_def)
  have ne: "fst (segmentPaths 0) \<noteq> snd (segmentPaths 0)" by (simp add: segmentPaths_def)
  have "openSegment no_fault stale_dir 0 4096 True = Inr s"
    using ixo ne by (simp add: openSegment_def stale_dir_def recover_segment_def s_def case_prod_unfold)
  moreover have n: "nextOffset (append3 s) = 3" "ssize (append3 s) = 99" "baseOffset (append3 s) = 0"
    by (simp_all add: append3_def Let_def s_def segment_append_eq EncodedSize_def in_i64_def)
  moreover have "entries (idx (append3 s)) = ?es @ [\<lparr>RelOffset = 0, Position = 0\<rparr>]"
    by (simp add: append3_def Let_def s_def ix_def segment_append_eq EncodedSize_def in_i64_def)
  then have "lookup (idx (append3 s)) 2 = 1000"
    by (simp add: lookup_def sort_Search_def sort_Search_loop.simps)
  ultimately show ?thesis by (auto simp: readFrom_def Let_def readFrom_loop.simps)
qed

end
