(* ===== verification/LS_Log.thy ===== *)
theory LS_Log
  imports LS_Segment
begin

text \<open>
  The partition log (\<^verbatim>\<open>src/internal/log/log.go\<close>): a list of segments, of which the last is
  the active one (the pointer \<open>active\<close> of the source always aliases the last element of
  \<open>segments\<close>), the high watermark and the append counter.  Each method of the source runs
  under the mutex of the log, so it is one atomic function on the state.  \<open>ldir\<close> is the
  partition directory as the process found it and extended it; it decides which files
  exist.  Config.Dir is the directory itself.
\<close>

definition DefaultMaxSegmentBytes :: int where
  "DefaultMaxSegmentBytes = 1048576"

definition DefaultIndexInterval :: int where
  "DefaultIndexInterval = 4096"

record LogConfig =
  MaxSegmentBytes :: int
  IndexInterval :: int
  FsyncEvery :: int

record Log =
  lcfg :: LogConfig
  ldir :: directory
  segments :: "segment list"
  hw :: int
  appends :: int

definition active :: "Log \<Rightarrow> segment" where
  "active l = last (segments l)"

definition set_active :: "Log \<Rightarrow> segment \<Rightarrow> Log" where
  "set_active l s = l\<lparr>segments := butlast (segments l) @ [s]\<rparr>"

section \<open>Opening a log\<close>

definition segment_base_of_name :: "string \<Rightarrow> int option" where
  "segment_base_of_name name =
     (if suffix ''.log'' name then ParseInt (take (length name - 4) name) else None)"

definition listSegmentBases :: "iofault \<Rightarrow> directory \<Rightarrow> log_error + int list" where
  "listSegmentBases flt dir =
     (if f_open flt then Inl ErrOS
      else Inr (sort (List.map_filter (\<lambda>(name, _). segment_base_of_name name) dir)))"

fun open_segments :: "iofault \<Rightarrow> directory \<Rightarrow> int \<Rightarrow> int list \<Rightarrow> log_error + segment list" where
  "open_segments flt dir intv [] = Inr []"
| "open_segments flt dir intv (base # bases) =
     (case openSegment flt dir base intv (bases = []) of
        Inl e \<Rightarrow> Inl e
      | Inr s \<Rightarrow>
          (case open_segments flt dir intv bases of Inl e \<Rightarrow> Inl e | Inr ss \<Rightarrow> Inr (s # ss)))"

definition recover_log :: "iofault \<Rightarrow> Log \<Rightarrow> log_error + Log" where
  "recover_log flt l =
     (case listSegmentBases flt (ldir l) of
        Inl e \<Rightarrow> Inl e
      | Inr bases \<Rightarrow>
          if bases = [] then
            (case createSegment flt (ldir l) 0 (IndexInterval (lcfg l)) of
               (Inl e, dir) \<Rightarrow> Inl e
             | (Inr s, dir) \<Rightarrow> Inr (l\<lparr>ldir := dir, segments := [s]\<rparr>))
          else
            (case open_segments flt (ldir l) (IndexInterval (lcfg l)) bases of
               Inl e \<Rightarrow> Inl e
             | Inr ss \<Rightarrow> Inr (l\<lparr>segments := ss, hw := 0\<rparr>)))"

definition Log_Open :: "iofault \<Rightarrow> LogConfig \<Rightarrow> directory \<Rightarrow> log_error + Log" where
  "Log_Open flt cfg0 dir =
     (let cfg1 = (if MaxSegmentBytes cfg0 \<le> 0 then cfg0\<lparr>MaxSegmentBytes := DefaultMaxSegmentBytes\<rparr> else cfg0);
          cfg = (if IndexInterval cfg1 \<le> 0 then cfg1\<lparr>IndexInterval := DefaultIndexInterval\<rparr> else cfg1)
      in if f_open flt then Inl ErrOS
         else recover_log flt \<lparr>lcfg = cfg, ldir = dir, segments = [], hw = 0, appends = 0\<rparr>)"

section \<open>Appending\<close>

definition rotateLocked :: "iofault \<Rightarrow> Log \<Rightarrow> log_error option \<times> Log" where
  "rotateLocked flt l =
     (case segment_flush flt (active l) of
        Some e \<Rightarrow> (Some e, l)
      | None \<Rightarrow>
          (case createSegment flt (ldir l) (nextOffset (active l)) (IndexInterval (lcfg l)) of
             (Inl e, dir) \<Rightarrow> (Some e, l\<lparr>ldir := dir\<rparr>)
           | (Inr s, dir) \<Rightarrow> (None, l\<lparr>ldir := dir, segments := segments l @ [s]\<rparr>)))"

definition appendLocked :: "iofault \<Rightarrow> int \<Rightarrow> Log \<Rightarrow> Record \<Rightarrow> (log_error + int) \<times> Log" where
  "appendLocked flt now l rec =
     (let rotate = (0 < ssize (active l) \<and>
            int (ssize (active l)) + int (EncodedSize rec) > MaxSegmentBytes (lcfg l));
          (err, l1) = (if rotate then rotateLocked flt l else (None, l))
      in case err of
           Some e \<Rightarrow> (Inl e, l1)
         | None \<Rightarrow>
             (let rec1 = (if rotate \<and> Offset rec \<noteq> nextOffset (active l1)
                          then rec\<lparr>Offset := nextOffset (active l1)\<rparr> else rec);
                  (res, s) = segment_append flt now (active l1) rec1;
                  l2 = set_active l1 s
              in case res of
                   Inl e \<Rightarrow> (Inl e, l2)
                 | Inr off \<Rightarrow>
                     (let l3 = l2\<lparr>appends := appends l2 + 1\<rparr> in
                      if FsyncEvery (lcfg l3) > 0 \<and> appends l3 mod FsyncEvery (lcfg l3) = 0
                      then (case segment_flush flt (active l3) of
                              Some e \<Rightarrow> (Inl e, l3)
                            | None \<Rightarrow> (Inr off, l3))
                      else (Inr off, l3))))"

definition Log_Append ::
    "iofault \<Rightarrow> int \<Rightarrow> Log \<Rightarrow> byte list \<Rightarrow> byte list \<Rightarrow> (log_error + int) \<times> Log" where
  "Log_Append flt now l key val =
     appendLocked flt now l
       \<lparr>Offset = nextOffset (active l), Timestamp = now, Key = key, Value = val\<rparr>"

definition AppendAt :: "iofault \<Rightarrow> int \<Rightarrow> Log \<Rightarrow> Record \<Rightarrow> (log_error + int) \<times> Log" where
  "AppendAt flt now l rec =
     (if Offset rec \<noteq> nextOffset (active l)
      then (Inl (ErrOffset (nextOffset (active l)) (Offset rec)), l)
      else appendLocked flt now l rec)"

section \<open>Reading\<close>

fun Read_loop ::
    "segment list \<Rightarrow> int \<Rightarrow> int \<Rightarrow> int \<Rightarrow> int \<Rightarrow> Record list \<Rightarrow> log_error + Record list" where
  "Read_loop [] fromOff maxBytes maxOffset n out = Inr out"
| "Read_loop (s # ss) fromOff maxBytes maxOffset n out =
     (if nextOffset s \<le> fromOff then Read_loop ss fromOff maxBytes maxOffset n out
      else if baseOffset s \<ge> maxOffset then Inr out
      else
        (case readFrom s fromOff (maxBytes - n) maxOffset of
           Inl e \<Rightarrow> Inl e
         | Inr recs \<Rightarrow>
             (let out' = out @ recs;
                  n' = n + (\<Sum>r\<leftarrow>recs. int (EncodedSize r))
              in if n' \<ge> maxBytes then Inr out'
                 else
                   (let from' = (if recs \<noteq> [] then i64 (Offset (last recs) + 1)
                                 else if nextOffset s > fromOff then nextOffset s else fromOff)
                    in Read_loop ss from' maxBytes maxOffset n' out'))))"

definition Read :: "Log \<Rightarrow> int \<Rightarrow> int \<Rightarrow> int \<Rightarrow> log_error + Record list" where
  "Read l fromOff maxBytes0 maxOffset0 =
     (let maxBytes = (if maxBytes0 \<le> 0 then 1048576 else maxBytes0);
          maxOffset = (if maxOffset0 < 0 then nextOffset (active l) else maxOffset0)
      in if fromOff \<ge> nextOffset (active l) \<or> fromOff \<ge> maxOffset then Inr []
         else Read_loop (segments l) fromOff maxBytes maxOffset 0 [])"

section \<open>Log end offset and high watermark\<close>

definition LEO :: "Log \<Rightarrow> int" where
  "LEO l = nextOffset (active l)"

definition HighWatermark :: "Log \<Rightarrow> int" where
  "HighWatermark l = hw l"

definition SetHighWatermark :: "Log \<Rightarrow> int \<Rightarrow> Log" where
  "SetHighWatermark l h =
     (let h' = (if h > nextOffset (active l) then nextOffset (active l) else h)
      in if h' > hw l then l\<lparr>hw := h'\<rparr> else l)"

text \<open>
  \<open>WaitHighWatermark\<close> gives up the mutex in \<open>Wait\<close>; other calls then change the log.  The
  list gives, for each pass of the loop, the clock before waiting, the clock after the
  wake-up and the high watermark found then.  \<open>None\<close>: still waiting when the list ends;
  \<open>Some True\<close>: returned \<open>nil\<close>; \<open>Some False\<close>: returned the timeout error.
\<close>

fun WaitHighWatermark_loop :: "int \<Rightarrow> int \<Rightarrow> int \<Rightarrow> int \<Rightarrow> (int \<times> int \<times> int) list \<Rightarrow> bool option" where
  "WaitHighWatermark_loop off timeout deadline h wakes =
     (if h > off then Some True
      else if timeout \<le> 0 then Some False
      else
        (case wakes of
           [] \<Rightarrow> None
         | (before, after, h') # ws \<Rightarrow>
             if deadline - before \<le> 0 then Some False
             else if after > deadline \<and> h' \<le> off then Some False
             else WaitHighWatermark_loop off timeout deadline h' ws))"

declare WaitHighWatermark_loop.simps [simp del]

definition WaitHighWatermark :: "int \<Rightarrow> Log \<Rightarrow> int \<Rightarrow> int \<Rightarrow> (int \<times> int \<times> int) list \<Rightarrow> bool option" where
  "WaitHighWatermark now l off timeout wakes =
     WaitHighWatermark_loop off timeout (now + timeout) (hw l) wakes"

text \<open>\<open>Close\<close> goes on after an error and returns the first one.\<close>

definition Log_Close :: "iofault \<Rightarrow> Log \<Rightarrow> log_error option" where
  "Log_Close flt l =
     foldl (\<lambda>err s.
        let err1 = (case segment_flush flt s of Some e \<Rightarrow> (if err = None then Some e else err) | None \<Rightarrow> err)
        in (case segment_close flt s of Some e \<Rightarrow> (if err1 = None then Some e else err1) | None \<Rightarrow> err1))
       None (segments l)"

section \<open>The invariant of a log\<close>

text \<open>
  \<open>log_ok l rss\<close>: the segments of \<open>l\<close> hold the record lists \<open>rss\<close>; their offsets join up,
  only the active segment may be empty, the high watermark does not exceed the log end, and
  the directory holds no file for a segment that is still to be created.
\<close>

fun chained :: "int \<Rightarrow> segment list \<Rightarrow> bool" where
  "chained b [] = True"
| "chained b (s # ss) = (baseOffset s = b \<and> chained (nextOffset s) ss)"

definition fresh_names :: "directory \<Rightarrow> int \<Rightarrow> bool" where
  "fresh_names dir b \<longleftrightarrow>
     (\<forall>b'. b < b' \<and> b' \<le> max_i64 \<longrightarrow>
        map_of dir (fst (segmentPaths b')) = None \<and> map_of dir (snd (segmentPaths b')) = None)"

definition log_ok :: "Log \<Rightarrow> Record list list \<Rightarrow> bool" where
  "log_ok l rss \<longleftrightarrow>
     segments l \<noteq> [] \<and> list_all2 seg_ok (segments l) rss \<and>
     (\<forall>rs\<in>set rss. rec_bytes rs \<le> 4294967296) \<and>
     (\<exists>b. chained b (segments l)) \<and> (\<forall>rs\<in>set (butlast rss). rs \<noteq> []) \<and>
     (\<forall>s\<in>set (segments l). fbytes (idxFile (idx s)) = concat (map enc_entry (entries (idx s)))) \<and>
     fpos (idxFile (idx (active l))) = length (fbytes (idxFile (idx (active l)))) \<and>
     0 \<le> hw l \<and> hw l \<le> LEO l \<and>
     MaxSegmentBytes (lcfg l) \<le> 4294967296 \<and> fresh_names (ldir l) (baseOffset (active l))"

definition contents :: "Log \<Rightarrow> Record list" where
  "contents l = concat (map (\<lambda>s. scan decode_bytes (fbytes (logFile s))) (segments l))"

definition start :: "Log \<Rightarrow> int" where
  "start l = baseOffset (hd (segments l))"

definition log_inv :: "Log \<Rightarrow> bool" where
  "log_inv l \<longleftrightarrow> (\<exists>rss. log_ok l rss)"

lemma seg_ok_scan: "seg_ok s rs \<Longrightarrow> scan decode_bytes (fbytes (logFile s)) = rs"
  by (simp add: seg_ok_def rc.scan_concat)

lemma list_all2_scan:
  "list_all2 seg_ok ss rss \<Longrightarrow> map (\<lambda>s. scan decode_bytes (fbytes (logFile s))) ss = rss"
  by (induction rule: list_all2_induct) (auto simp: seg_ok_scan)

lemma contents_eq: "log_ok l rss \<Longrightarrow> contents l = concat rss"
  using list_all2_scan [of "segments l" rss] by (auto simp: log_ok_def contents_def)

lemma chained_consec:
  assumes "list_all2 seg_ok ss rss" "chained b ss"
  shows "consec b (concat rss) \<and> (\<forall>r\<in>set (concat rss). valid_rec r)
    \<and> (ss \<noteq> [] \<longrightarrow> nextOffset (last ss) = b + int (length (concat rss)))"
  using assms
proof (induction arbitrary: b rule: list_all2_induct)
  case Nil
  then show ?case by simp
next
  case (Cons s ss rs rss)
  from Cons.prems have b: "baseOffset s = b" and ch: "chained (nextOffset s) ss" by auto
  from Cons.hyps(1) b have s: "consec b rs" "nextOffset s = b + int (length rs)" "\<forall>r\<in>set rs. valid_rec r"
    by (auto simp: seg_ok_def)
  have "ss = [] \<Longrightarrow> rss = []" using Cons.hyps(2) by simp
  with Cons.IH [OF ch] s show ?case by (auto simp: consec_append)
qed

lemma log_ok_facts:
  assumes "log_ok l rss"
  shows "consec (start l) (concat rss)" "LEO l = start l + int (length (concat rss))"
    "\<forall>r\<in>set (concat rss). valid_rec r" "chained (start l) (segments l)" "0 \<le> start l" "LEO l \<le> max_i64"
    "rss \<noteq> []" "seg_ok (active l) (last rss)"
proof -
  from assms obtain b where ss: "segments l \<noteq> []" "list_all2 seg_ok (segments l) rss" "chained b (segments l)"
    by (auto simp: log_ok_def)
  then have b: "b = start l" by (cases "segments l") (auto simp: start_def)
  with chained_consec [OF ss(2,3)] ss show "consec (start l) (concat rss)"
    "LEO l = start l + int (length (concat rss))" "\<forall>r\<in>set (concat rss). valid_rec r"
    "chained (start l) (segments l)"
    by (auto simp: LEO_def active_def)
  from ss show ne: "rss \<noteq> []" by auto
  from ss ne have "seg_ok (segments l ! (length rss - 1)) (rss ! (length rss - 1))"
    by (auto simp: list_all2_conv_all_nth)
  with ss(2) ne show act: "seg_ok (active l) (last rss)"
    by (metis active_def last_conv_nth list_all2_lengthD ss(1))
  from act show "LEO l \<le> max_i64" by (simp add: seg_ok_def LEO_def)
  from ss(1,2) show "0 \<le> start l"
    by (cases "segments l"; cases rss) (auto simp: start_def seg_ok_def)
qed

lemma fmt020d_inj: "in_i64 a \<Longrightarrow> in_i64 b \<Longrightarrow> fmt020d a = fmt020d b \<Longrightarrow> a = b"
  by (metis ParseInt_fmt020d option.inject)

lemma paths_distinct:
  "fst (segmentPaths a) \<noteq> snd (segmentPaths b)" "snd (segmentPaths a) \<noteq> fst (segmentPaths b)"
  by (auto simp: segmentPaths_def dest: arg_cong [where f = last])

lemma paths_inj:
  assumes "in_i64 a" "in_i64 b"
  shows "fst (segmentPaths a) = fst (segmentPaths b) \<longleftrightarrow> a = b"
    "snd (segmentPaths a) = snd (segmentPaths b) \<longleftrightarrow> a = b"
  using fmt020d_inj [OF assms] by (auto simp: segmentPaths_def)

lemma createSegment_ok:
  assumes "map_of dir (fst (segmentPaths b)) = None" "map_of dir (snd (segmentPaths b)) = None"
    "0 \<le> b" "b \<le> max_i64"
  shows "\<exists>s dir'. createSegment no_fault dir b intv = (Inr s, dir')
    \<and> seg_ok s [] \<and> baseOffset s = b \<and> ssize s = 0 \<and> index_file_ok (idx s)
    \<and> (fresh_names dir b \<longrightarrow> fresh_names dir' b)"
proof -
  let ?ix = "\<lparr>idxFile = \<lparr>fbytes = [], fpos = 0\<rparr>, entries = []\<rparr>"
  let ?dir = "mput (snd (segmentPaths b)) [] (mput (fst (segmentPaths b)) [] dir)"
  have "map_of (mput (fst (segmentPaths b)) [] dir) (snd (segmentPaths b)) = None"
    using assms(2) paths_distinct(2) [of b b] by simp
  then have "createSegment no_fault dir b intv =
     (Inr \<lparr>baseOffset = b, logFile = \<lparr>fbytes = [], fpos = 0\<rparr>, idx = ?ix, ssize = 0,
        nextOffset = b, bytesSinceIndex = 0, indexInterval = intv\<rparr>, ?dir)"
    using assms(1) by (simp add: createSegment_def case_prod_unfold openIndex_ok Let_def)
  moreover have "fresh_names dir b \<longrightarrow> fresh_names ?dir b"
  proof
    assume fr: "fresh_names dir b"
    show "fresh_names ?dir b"
      unfolding fresh_names_def
    proof (intro allI impI)
      fix b'
      assume b': "b < b' \<and> b' \<le> max_i64"
      then have "in_i64 b" "in_i64 b'" "b \<noteq> b'" using assms(3,4) by (auto simp: in_i64_def)
      with b' fr show "map_of ?dir (fst (segmentPaths b')) = None \<and> map_of ?dir (snd (segmentPaths b')) = None"
        using paths_inj [of b b'] paths_distinct by (auto simp: fresh_names_def)
    qed
  qed
  ultimately show ?thesis
    using assms(3,4) by (simp add: seg_ok_def index_upto_def index_file_ok_def)
qed

lemma active_set_active [simp]: "active (set_active l s) = s"
  by (simp add: active_def set_active_def)

lemma set_active_simps [simp]:
  "ldir (set_active l s) = ldir l" "hw (set_active l s) = hw l" "lcfg (set_active l s) = lcfg l"
  "segments (set_active l s) = butlast (segments l) @ [s]" "appends (set_active l s) = appends l"
  by (simp_all add: set_active_def)

lemma chained_snoc: "ss \<noteq> [] \<Longrightarrow> chained b (ss @ [s]) \<longleftrightarrow> chained b ss \<and> baseOffset s = nextOffset (last ss)"
  by (induction ss arbitrary: b) auto

lemma chained_replace_last:
  assumes "chained b ss" "ss \<noteq> []" "baseOffset s = baseOffset (last ss)"
  shows "chained b (butlast ss @ [s])"
  using assms by (induction ss arbitrary: b) auto

lemma list_all2_replace_last:
  assumes "list_all2 P ss rss" "ss \<noteq> []" "P s rs"
  shows "list_all2 P (butlast ss @ [s]) (butlast rss @ [rs])"
proof -
  have "rss \<noteq> []" using assms by auto
  then have "list_all2 P (butlast ss @ [last ss]) (butlast rss @ [last rss])" using assms by simp
  then have "list_all2 P (butlast ss) (butlast rss)"
    using list_all2_lengthD [OF assms(1)] by (simp add: list_all2_append)
  with assms(3) show ?thesis by (simp add: list_all2_appendI)
qed

section \<open>Appending keeps the invariant\<close>

lemma rotate_ok:
  assumes "log_ok l rss" "last rss \<noteq> []"
  shows "\<exists>l'. rotateLocked no_fault l = (None, l') \<and> log_ok l' (rss @ [[]])
    \<and> nextOffset (active l') = nextOffset (active l) \<and> ssize (active l') = 0
    \<and> lcfg l' = lcfg l \<and> hw l' = hw l \<and> appends l' = appends l"
proof -
  note f = log_ok_facts [OF assms(1)]
  let ?n = "nextOffset (active l)"
  from f(8) have n: "0 \<le> ?n" "?n \<le> max_i64" "baseOffset (active l) < ?n"
    using assms(2) by (auto simp: seg_ok_def)
  have fr: "fresh_names (ldir l) (baseOffset (active l))" using assms(1) by (simp add: log_ok_def)
  then have none: "map_of (ldir l) (fst (segmentPaths ?n)) = None" "map_of (ldir l) (snd (segmentPaths ?n)) = None"
    using n by (auto simp: fresh_names_def)
  have "fresh_names (ldir l) ?n" using fr n(3) by (simp add: fresh_names_def)
  then obtain s dir' where c: "createSegment no_fault (ldir l) ?n (IndexInterval (lcfg l)) = (Inr s, dir')"
      "seg_ok s []" "baseOffset s = ?n" "ssize s = 0" "index_file_ok (idx s)" "fresh_names dir' ?n"
    using createSegment_ok [OF none n(1,2)] by blast
  define l' where "l' = l\<lparr>ldir := dir', segments := segments l @ [s]\<rparr>"
  have act: "active l' = s" by (simp add: l'_def active_def)
  have nx: "nextOffset s = ?n" using c(2,3) by (simp add: seg_ok_def)
  have ch: "chained (start l) (segments l @ [s])"
    using f(4) assms(1) c(3) by (subst chained_snoc) (auto simp: log_ok_def active_def)
  have "list_all2 seg_ok (segments l @ [s]) (rss @ [[]])"
    using assms(1) c(2) by (simp add: log_ok_def list_all2_appendI)
  moreover have "\<forall>rs\<in>set rss. rs \<noteq> []"
    using assms by (metis append_butlast_last_id f(7) log_ok_def in_set_butlastD Un_iff
        set_append list.set(1) list.set(2) insert_iff empty_iff)
  ultimately have "log_ok l' (rss @ [[]])"
    using assms(1) ch c nx act unfolding log_ok_def index_file_ok_def
    by (auto simp: l'_def LEO_def)
  then show ?thesis
    using c(1,4) act nx by (simp add: rotateLocked_def segment_flush_def l'_def)
qed

text \<open>Replacing the active segment by one that holds one more record.\<close>

lemma log_ok_set_active:
  assumes "log_ok l rss" "seg_ok s (last rss @ [r])" "baseOffset s = baseOffset (active l)"
    "index_file_ok (idx s)" "rec_bytes (last rss @ [r]) \<le> 4294967296"
  shows "log_ok (set_active l s) (butlast rss @ [last rss @ [r]])"
proof -
  note f = log_ok_facts [OF assms(1)]
  have ss: "segments l \<noteq> []" "list_all2 seg_ok (segments l) rss" using assms(1) by (auto simp: log_ok_def)
  have "list_all2 seg_ok (butlast (segments l) @ [s]) (butlast rss @ [last rss @ [r]])"
    using list_all2_replace_last [of seg_ok, OF ss(2,1) assms(2)] .
  moreover have "chained (start l) (butlast (segments l) @ [s])"
    using f(4) ss(1) assms(3) by (intro chained_replace_last) (auto simp: active_def)
  moreover have "LEO l < LEO (set_active l s)"
    using assms(2,3) f(8) by (simp add: LEO_def seg_ok_def)
  ultimately show ?thesis
    using assms(1,3,4,5) unfolding log_ok_def index_file_ok_def
    by (auto dest: in_set_butlastD)
qed

text \<open>How an append distributes the records over the segments.\<close>

definition split_append :: "int \<Rightarrow> Record list list \<Rightarrow> Record \<Rightarrow> Record list list" where
  "split_append maxBytes rss r =
     (if last rss \<noteq> [] \<and> int (rec_bytes (last rss)) + int (EncodedSize r) > maxBytes
      then rss @ [[r]] else butlast rss @ [last rss @ [r]])"

lemma concat_split_append: "rss \<noteq> [] \<Longrightarrow> concat (split_append mb rss r) = concat rss @ [r]"
  by (simp add: split_append_def)
     (metis append.assoc concat.simps concat_append append_Nil2 append_butlast_last_id)

lemma appendLocked_ok:
  assumes ok: "log_ok l rss" and off: "Offset rec = LEO l" and v: "valid_rec (stamp now rec)"
    and room: "LEO l < max_i64"
  shows "\<exists>l' rss'. appendLocked no_fault now l rec = (Inr (LEO l), l') \<and> log_ok l' rss'
    \<and> rss' = split_append (MaxSegmentBytes (lcfg l)) rss (stamp now rec) \<and> hw l' = hw l \<and> lcfg l' = lcfg l
    \<and> appends l' = appends l + 1"
proof -
  define rot where "rot \<longleftrightarrow> 0 < ssize (active l) \<and>
      int (ssize (active l)) + int (EncodedSize rec) > MaxSegmentBytes (lcfg l)"
  have rot: "rot \<longleftrightarrow> last rss \<noteq> [] \<and>
      int (rec_bytes (last rss)) + int (EncodedSize (stamp now rec)) > MaxSegmentBytes (lcfg l)"
    using log_ok_facts(8) [OF ok] rec_bytes_ge [of "last rss"] by (cases "last rss") (auto simp: rot_def seg_ok_def)
  obtain l1 rss1 where l1: "(if rot then rotateLocked no_fault l else (None, l)) = (None, l1)"
      "log_ok l1 rss1" "rss1 = (if rot then rss @ [[]] else rss)" "nextOffset (active l1) = LEO l"
      "ssize (active l1) < 4294967296" "hw l1 = hw l" "lcfg l1 = lcfg l" "appends l1 = appends l"
  proof (cases rot)
    case True
    then have "last rss \<noteq> []" using log_ok_facts(8) [OF ok] by (auto simp: rot_def seg_ok_def)
    from rotate_ok [OF ok this] True that show ?thesis by (fastforce simp: LEO_def)
  next
    case False
    have "int (ssize (active l)) < 4294967296"
      using False ok EncodedSize_ge [of rec] by (auto simp: rot_def log_ok_def)
    with False ok that show ?thesis by (auto simp: LEO_def)
  qed
  note f1 = log_ok_facts [OF l1(2)]
  have o1: "Offset rec = nextOffset (active l1)" using off l1(4) by simp
  obtain s where s: "segment_append no_fault now (active l1) rec = (Inr (Offset rec), s)"
      "seg_ok s (last rss1 @ [stamp now rec])" "baseOffset s = baseOffset (active l1)"
      "index_file_ok (idx (active l1)) \<longrightarrow> index_file_ok (idx s)"
    using segment_append_ok [OF f1(8) o1 v l1(5)] room l1(4) by auto
  have ifo: "index_file_ok (idx (active l1))"
    using l1(2) by (auto simp: log_ok_def index_file_ok_def active_def)
  define l' where "l' = (set_active l1 s)\<lparr>appends := appends l1 + 1\<rparr>"
  let ?rss = "butlast rss1 @ [last rss1 @ [stamp now rec]]"
  have "rec_bytes (last rss1 @ [stamp now rec]) \<le> 4294967296"
  proof (cases "last rss1 = []")
    case True
    then show ?thesis using v by (simp add: valid_rec_def)
  next
    case False
    then show ?thesis using l1(3) rot ok by (auto simp: log_ok_def split: if_splits)
  qed
  then have "log_ok (set_active l1 s) ?rss"
    using log_ok_set_active [OF l1(2) s(2,3)] s(4) ifo by blast
  then have "log_ok l' ?rss" by (simp add: l'_def log_ok_def LEO_def active_def)
  moreover have "?rss = split_append (MaxSegmentBytes (lcfg l)) rss (stamp now rec)"
    using l1(3) rot by (simp add: split_append_def)
  moreover have "appendLocked no_fault now l rec = (Inr (LEO l), l')"
    unfolding appendLocked_def rot_def [symmetric] l1(1) Let_def
    using o1 off s(1) by (simp add: l'_def segment_flush_def)
  ultimately show ?thesis using l1 by (auto simp: l'_def)
qed

end
