(* ===== verification/LS_LogRead.thy ===== *)
theory LS_LogRead
  imports LS_Log
begin

text \<open>
  What \<open>Read\<close> of \<^verbatim>\<open>src/internal/log/log.go\<close> returns: records of the requested range in
  order, the first of them always, all of them when they fit the byte budget, and a
  contiguous run when the range lies in at most two segments.  Across three or more
  segments the loop can step over whole segments (\<open>Read_skips_segment\<close>).
\<close>

section \<open>Reading\<close>

abbreviation visible :: "int \<Rightarrow> int \<Rightarrow> Record list \<Rightarrow> Record list" where
  "visible f m rs \<equiv> filter (\<lambda>r. f \<le> Offset r \<and> Offset r < m) rs"

lemma budget_prefix: "prefix (budget mb n rs) rs"
  by (induction mb n rs rule: budget.induct) auto

lemma budget_nonempty: "rs \<noteq> [] \<Longrightarrow> budget mb 0 rs \<noteq> []"
  by (cases rs) auto

lemma budget_bytes: "n < mb \<Longrightarrow> n + int (rec_bytes (butlast (budget mb n rs))) < mb"
  by (induction mb n rs rule: budget.induct) (auto simp: algebra_simps)

lemma consec_filter_ge:
  "consec b rs \<Longrightarrow> filter (\<lambda>r. f \<le> Offset r) rs = drop (nat (f - b)) rs"
proof (induction rs arbitrary: b)
  case Nil
  then show ?case by simp
next
  case (Cons r rs)
  show ?case
  proof (cases "b < f")
    case True
    with Cons show ?thesis by (auto simp: consec_Cons nat_diff_succ)
  next
    case False
    then have "\<forall>x\<in>set (r # rs). f \<le> Offset x" using consec_ge [OF Cons.prems] by force
    with False show ?thesis by (simp add: filter_id_conv)
  qed
qed

lemma consec_filter_less:
  "consec b rs \<Longrightarrow> filter (\<lambda>r. Offset r < m) rs = takeWhile (\<lambda>r. Offset r < m) rs"
proof (induction rs arbitrary: b)
  case Nil
  then show ?case by simp
next
  case (Cons r rs)
  show ?case
  proof (cases "b < m")
    case True
    with Cons show ?thesis by (auto simp: consec_Cons)
  next
    case False
    then have "\<forall>x\<in>set (r # rs). \<not> Offset x < m" using consec_ge [OF Cons.prems] by force
    then show ?thesis by (simp add: filter_empty_conv)
  qed
qed

lemma consec_drop: "consec b rs \<Longrightarrow> k \<le> length rs \<Longrightarrow> consec (b + int k) (drop k rs)"
  using consec_append [of b "take k rs" "drop k rs"] by (simp add: min.absorb2)

lemma consec_visible:
  assumes "consec b rs" "f \<le> b + int (length rs)" "b \<le> f"
  shows "takeWhile (\<lambda>r. Offset r < m) (drop (nat (f - b)) rs) = visible f m rs"
proof -
  have "consec (b + int (nat (f - b))) (drop (nat (f - b)) rs)"
    using assms by (intro consec_drop) auto
  then have "takeWhile (\<lambda>r. Offset r < m) (drop (nat (f - b)) rs)
      = filter (\<lambda>r. Offset r < m) (filter (\<lambda>r. f \<le> Offset r) rs)"
    by (simp add: consec_filter_less consec_filter_ge [OF assms(1)])
  then show ?thesis by (simp add: conj_commute)
qed

lemma readFrom_visible:
  assumes "seg_ok s rs"
  shows "readFrom s f mb m =
    Inr (if baseOffset s \<le> f \<and> f < nextOffset s then budget mb 0 (visible f m rs) else [])"
proof (cases "baseOffset s \<le> f \<and> f < nextOffset s")
  case False
  then show ?thesis by (auto simp: readFrom_def)
next
  case True
  show ?thesis
  proof (cases "f < m")
    case False
    then have "visible f m rs = []" by (auto simp: filter_empty_conv)
    with False True show ?thesis by (simp add: readFrom_def)
  next
    case m: True
    have "takeWhile (\<lambda>r. Offset r < m) (drop (nat (f - baseOffset s)) rs) = visible f m rs"
      using True assms by (intro consec_visible) (auto simp: seg_ok_def)
    with readFrom_correct [OF assms _ _ m, of mb] True show ?thesis by simp
  qed
qed

lemma visible_before: "consec b rs \<Longrightarrow> b + int (length rs) \<le> f \<Longrightarrow> visible f m rs = []"
  using consec_less by (fastforce simp: filter_empty_conv)

lemma visible_beyond: "consec b rs \<Longrightarrow> m \<le> b \<Longrightarrow> visible f m rs = []"
  using consec_ge by (fastforce simp: filter_empty_conv)

lemma visible_mono: "f \<le> f' \<Longrightarrow> subseq (visible f' m rs) (visible f m rs)"
proof -
  assume "f \<le> f'"
  then have "visible f' m rs = filter (\<lambda>r. f' \<le> Offset r) (visible f m rs)"
    by (auto intro: filter_cong)
  then show ?thesis by (simp only: subseq_filter_left)
qed

lemma sum_sizes: "(\<Sum>r\<leftarrow>rs. int (EncodedSize r)) = int (rec_bytes rs)"
  by (induction rs) auto

text \<open>One segment of the read loop.\<close>

lemma Read_loop_step:
  fixes mb n :: int
  assumes "seg_ok s rs" "f < nextOffset s" "baseOffset s < m"
  defines "recs \<equiv> (if baseOffset s \<le> f then budget (mb - n) 0 (visible f m rs) else [])"
  defines "f' \<equiv> (if recs \<noteq> [] then Offset (last recs) + 1 else nextOffset s)"
  shows "Read_loop (s # ss) f mb m n out =
      (if n + int (rec_bytes recs) \<ge> mb then Inr (out @ recs)
       else Read_loop ss f' mb m (n + int (rec_bytes recs)) (out @ recs))"
    and "prefix recs (visible f m rs)" and "f \<le> f'" and "f' \<le> nextOffset s"
proof -
  show pre: "prefix recs (visible f m rs)" by (simp add: recs_def budget_prefix)
  have lst: "Offset (last recs) + 1 \<le> nextOffset s" "f \<le> Offset (last recs)" if "recs \<noteq> []"
  proof -
    from that pre have "last recs \<in> set (visible f m rs)"
      by (metis last_in_set set_mono_prefix subsetD)
    then have "last recs \<in> set rs" "f \<le> Offset (last recs)" by auto
    then show "Offset (last recs) + 1 \<le> nextOffset s" "f \<le> Offset (last recs)"
      using consec_less assms(1) by (force simp: seg_ok_def)+
  qed
  then show "f \<le> f'" "f' \<le> nextOffset s" using assms(2) by (auto simp: f'_def)
  have i64: "recs \<noteq> [] \<Longrightarrow> i64 (Offset (last recs) + 1) = Offset (last recs) + 1"
    using lst assms(1) pre consec_ge by (intro i64_id) (force simp: in_i64_def seg_ok_def
        dest!: set_mono_prefix last_in_set)
  have "readFrom s f (mb - n) m = Inr recs"
    using readFrom_visible [OF assms(1), of f "mb - n" m] assms(2) by (simp add: recs_def)
  then show "Read_loop (s # ss) f mb m n out =
      (if n + int (rec_bytes recs) \<ge> mb then Inr (out @ recs)
       else Read_loop ss f' mb m (n + int (rec_bytes recs)) (out @ recs))"
    using assms(2,3) i64 by (auto simp: f'_def sum_sizes Let_def)
qed

lemma recs_bytes:
  "n < mb \<Longrightarrow> n + int (rec_bytes (butlast (budget (mb - n) 0 rs))) < mb"
  using budget_bytes [of 0 "mb - n" rs] by simp

text \<open>
  Whatever the number of segments, the loop succeeds and returns records of the requested
  range, in order and without repetition, and stops once the byte budget is reached.
\<close>

lemma Read_loop_sound:
  assumes "list_all2 seg_ok ss rss" "chained b ss" "n < mb"
  shows "\<exists>new. Read_loop ss f mb m n out = Inr (out @ new)
    \<and> subseq new (visible f m (concat rss)) \<and> n + int (rec_bytes (butlast new)) < mb"
  using assms
proof (induction arbitrary: b n f out rule: list_all2_induct)
  case Nil
  then show ?case by simp
next
  case (Cons s ss rs rss)
  have ch: "chained (nextOffset s) ss" using Cons.prems by simp
  have rs: "consec (baseOffset s) rs" "nextOffset s = baseOffset s + int (length rs)"
    using Cons.hyps(1) by (auto simp: seg_ok_def)
  consider (skip) "nextOffset s \<le> f" | (stop) "f < nextOffset s" "m \<le> baseOffset s"
    | (rd) "f < nextOffset s" "baseOffset s < m" by linarith
  then show ?case
  proof cases
    case skip
    with rs have "visible f m rs = []" by (intro visible_before) auto
    with skip Cons.IH [OF ch Cons.prems(2), of f out] show ?thesis by auto
  next
    case stop
    then show ?thesis using Cons.prems(2) by simp
  next
    case rd
    define recs where "recs = (if baseOffset s \<le> f then budget (mb - n) 0 (visible f m rs) else [])"
    define f' where "f' = (if recs \<noteq> [] then Offset (last recs) + 1 else nextOffset s)"
    note st = Read_loop_step [where mb = mb and n = n, OF Cons.hyps(1) rd, folded recs_def, folded f'_def]
    have bytes: "n + int (rec_bytes (butlast recs)) < mb"
      using Cons.prems(2) recs_bytes [of n mb] by (simp add: recs_def)
    show ?thesis
    proof (cases "n + int (rec_bytes recs) \<ge> mb")
      case True
      then show ?thesis
        using st bytes by (intro exI [of _ recs]) (simp add: prefix_imp_subseq list_emb_prefix)
    next
      case False
      then obtain new where new: "Read_loop ss f' mb m (n + int (rec_bytes recs)) (out @ recs) = Inr ((out @ recs) @ new)"
        "subseq new (visible f' m (concat rss))" "n + int (rec_bytes recs) + int (rec_bytes (butlast new)) < mb"
        using Cons.IH [OF ch, of "n + int (rec_bytes recs)" f' "out @ recs"] by auto
      have "subseq new (visible f m (concat rss))"
        using new(2) visible_mono [OF st(3)] subseq_order.trans by blast
      then have "subseq (recs @ new) (visible f m (concat (rs # rss)))"
        using st(2) by (simp add: list_emb_append_mono prefix_imp_subseq)
      moreover have "n + int (rec_bytes (butlast (recs @ new))) < mb"
        using new(3) bytes by (simp add: butlast_append)
      ultimately show ?thesis using st(1) new(1) False by auto
    qed
  qed
qed

text \<open>The first record returned is the one at the requested offset.\<close>

lemma Read_loop_first:
  assumes "list_all2 seg_ok ss rss" "chained b ss" "n < mb" "b \<le> f" "ss \<noteq> []" "f < nextOffset (last ss)" "f < m"
  shows "\<exists>r new. Read_loop ss f mb m n out = Inr (out @ r # new) \<and> Offset r = f"
  using assms
proof (induction arbitrary: b rule: list_all2_induct)
  case Nil
  then show ?case by simp
next
  case (Cons s ss rs rss)
  have ch: "chained (nextOffset s) ss" and b: "baseOffset s = b" using Cons.prems by auto
  have rs: "consec (baseOffset s) rs" "nextOffset s = baseOffset s + int (length rs)"
    using Cons.hyps(1) by (auto simp: seg_ok_def)
  show ?case
  proof (cases "nextOffset s \<le> f")
    case True
    then have "ss \<noteq> []" using Cons.prems by auto
    then show ?thesis using Cons.IH [OF ch] True Cons.prems by auto
  next
    case False
    define recs where "recs = (if baseOffset s \<le> f then budget (mb - n) 0 (visible f m rs) else [])"
    define f' where "f' = (if recs \<noteq> [] then Offset (last recs) + 1 else nextOffset s)"
    have lt: "f < nextOffset s" "baseOffset s < m" using False b Cons.prems by auto
    note st = Read_loop_step [where mb = mb and n = n, OF Cons.hyps(1) lt, folded recs_def, folded f'_def]
    let ?k = "nat (f - baseOffset s)"
    have k: "?k < length rs" using lt rs b Cons.prems by auto
    then have hd: "drop ?k rs = rs ! ?k # drop (Suc ?k) rs" by (rule Cons_nth_drop_Suc [symmetric])
    have off: "Offset (rs ! ?k) = f" using rs(1) k b Cons.prems by (auto simp: consec_def)
    have "visible f m rs = takeWhile (\<lambda>r. Offset r < m) (drop ?k rs)"
      using rs lt b Cons.prems by (intro consec_visible [symmetric]) auto
    then have vis: "visible f m rs = rs ! ?k # takeWhile (\<lambda>r. Offset r < m) (drop (Suc ?k) rs)"
      using hd off Cons.prems by simp
    then have "recs \<noteq> []" using b Cons.prems budget_nonempty [of "visible f m rs" "mb - n"]
      by (simp add: recs_def)
    with st(2) vis obtain xs where recs: "recs = rs ! ?k # xs" by (cases recs) auto
    obtain new where "n + int (rec_bytes recs) < mb \<Longrightarrow>
        Read_loop ss f' mb m (n + int (rec_bytes recs)) (out @ recs) = Inr ((out @ recs) @ new)"
      using Read_loop_sound [OF Cons.hyps(2) ch, of "n + int (rec_bytes recs)" mb f' m "out @ recs"]
      by blast
    with st(1) recs off show ?thesis by (cases "n + int (rec_bytes recs) \<ge> mb") auto
  qed
qed

lemma budget_all: "n + int (rec_bytes rs) \<le> mb \<Longrightarrow> budget mb n rs = rs"
proof (induction mb n rs rule: budget.induct)
  case (2 mb n r rs)
  have "n + int (EncodedSize r) \<ge> mb \<Longrightarrow> rs = []"
    using 2 rec_bytes_ge [of rs] by (cases rs) auto
  with 2 show ?case by auto
qed simp

lemma rec_bytes_0: "rec_bytes rs = 0 \<longleftrightarrow> rs = []"
  using rec_bytes_ge [of rs] by (cases rs) auto

lemma chained_ge:
  assumes "list_all2 seg_ok ss rss" "chained b ss" "s \<in> set ss"
  shows "b \<le> baseOffset s" "baseOffset s \<le> nextOffset s"
  using assms
proof (induction arbitrary: b rule: list_all2_induct)
  case (Cons t ts rs rss)
  { case 1
    then show ?case using Cons.IH(1) [of "nextOffset t"] Cons.hyps(1)
      by (auto simp: seg_ok_def) }
  { case 2
    then show ?case using Cons.IH(2) Cons.hyps(1) by (auto simp: seg_ok_def) }
qed auto

lemma visible_from_base:
  assumes "consec b rs" "f \<le> b" "f' \<le> b"
  shows "visible f m rs = visible f' m rs"
  using assms consec_ge by (intro filter_cong) force+

lemma Read_loop_none:
  "\<forall>s\<in>set ss. nextOffset s \<le> f \<or> m \<le> baseOffset s \<Longrightarrow> Read_loop ss f mb m n out = Inr out"
  by (induction ss) auto

text \<open>Everything that is visible is returned when it fits the budget.\<close>

lemma Read_loop_complete:
  assumes "list_all2 seg_ok ss rss" "chained b ss" "b \<le> f" "n < mb"
    "n + int (rec_bytes (visible f m (concat rss))) \<le> mb"
  shows "Read_loop ss f mb m n out = Inr (out @ visible f m (concat rss))"
  using assms
proof (induction arbitrary: b n f out rule: list_all2_induct)
  case Nil
  then show ?case by simp
next
  case (Cons s ss rs rss)
  have ch: "chained (nextOffset s) ss" and b: "baseOffset s \<le> f" using Cons.prems by auto
  have rs: "consec (baseOffset s) rs" "nextOffset s = baseOffset s + int (length rs)"
    using Cons.hyps(1) by (auto simp: seg_ok_def)
  have cc: "consec (nextOffset s) (concat rss)" using chained_consec [OF Cons.hyps(2) ch] by simp
  show ?case
  proof (cases "nextOffset s \<le> f \<or> m \<le> baseOffset s")
    case True
    show ?thesis
    proof (cases "nextOffset s \<le> f")
      case True
      then have "visible f m rs = []" using rs by (intro visible_before) auto
      with True Cons show ?thesis using ch by simp
    next
      case False
      then have "m \<le> f" using True b by simp
      then have "visible f m (concat (rs # rss)) = []" by (auto simp: filter_empty_conv)
      with False True show ?thesis by simp
    qed
  next
    case False
    define recs where "recs = (if baseOffset s \<le> f then budget (mb - n) 0 (visible f m rs) else [])"
    define f' where "f' = (if recs \<noteq> [] then Offset (last recs) + 1 else nextOffset s)"
    have lt: "f < nextOffset s" "baseOffset s < m" using False by auto
    note st = Read_loop_step [where mb = mb and n = n, OF Cons.hyps(1) lt, folded recs_def, folded f'_def]
    have recs: "recs = visible f m rs"
      using Cons.prems(4) b by (simp add: recs_def budget_all)
    show ?thesis
    proof (cases "n + int (rec_bytes recs) \<ge> mb")
      case True
      then have "int (rec_bytes (visible f m (concat rss))) \<le> 0" using Cons.prems(4) recs by simp
      then have "rec_bytes (visible f m (concat rss)) = 0" by linarith
      then have "visible f m (concat rss) = []" by (simp only: rec_bytes_0)
      with True st(1) recs show ?thesis by simp
    next
      case short: False
      show ?thesis
      proof (cases "nextOffset s \<le> f'")
        case True
        then have f': "f' = nextOffset s" using st(4) by simp
        have "visible f' m (concat rss) = visible f m (concat rss)"
          using visible_from_base [OF cc] f' lt(1) by simp
        then show ?thesis
          using Cons.IH [OF ch True, of "n + int (rec_bytes recs)" "out @ recs"] short st(1) recs Cons.prems(4)
          by simp
      next
        case last: False
        then have ne: "recs \<noteq> []" by (auto simp: f'_def)
        have "m \<le> nextOffset s"
        proof (rule ccontr)
          assume "\<not> m \<le> nextOffset s"
          then have "visible f m rs = filter (\<lambda>r. f \<le> Offset r) rs"
            using consec_less [OF rs(1)] rs(2) by (intro filter_cong) force+
          then have all: "recs = drop (nat (f - baseOffset s)) rs"
            using recs consec_filter_ge [OF rs(1)] by simp
          then have "last recs = rs ! (length rs - 1)" using ne by (simp add: last_conv_nth)
          then have "Offset (last recs) = nextOffset s - 1"
            using rs all ne by (cases "length rs") (auto simp: consec_def)
          with last ne show False by (simp add: f'_def)
        qed
        then have "Read_loop ss f' mb m (n + int (rec_bytes recs)) (out @ recs) = Inr (out @ recs)"
          using chained_ge [OF Cons.hyps(2) ch] by (intro Read_loop_none) force
        moreover have "visible f m (concat rss) = []"
          using visible_beyond [OF cc \<open>m \<le> nextOffset s\<close>] .
        ultimately show ?thesis using st(1) short recs by simp
      qed
    qed
  qed
qed

text \<open>A range that touches at most two segments is read without gaps.\<close>

lemma visible_consec:
  assumes "consec b rs" "b \<le> f" "f \<le> b + int (length rs)"
  shows "consec f (visible f m rs)"
proof -
  have "consec (b + int (nat (f - b))) (drop (nat (f - b)) rs)" using assms by (intro consec_drop) auto
  then have "consec f (drop (nat (f - b)) rs)" using assms by simp
  then have "consec f (takeWhile (\<lambda>r. Offset r < m) (drop (nat (f - b)) rs))"
    by (simp add: consec_takeWhile consec_take)
  then show ?thesis using consec_visible [OF assms(1,3,2)] by simp
qed

lemma read_to_end:
  assumes "consec b rs" "b \<le> f" "f < b + int (length rs)" "prefix recs (visible f m rs)" "recs \<noteq> []"
    "b + int (length rs) \<le> Offset (last recs) + 1"
  shows "recs = visible f m rs"
proof -
  obtain zs where zs: "visible f m rs = recs @ zs" using assms(4) by (auto simp: prefix_def)
  have c: "consec f (recs @ zs)" using visible_consec [OF assms(1,2), of m] assms(3) zs by simp
  then have "Offset (last recs) = f + int (length recs - 1)"
    using assms(5) by (cases recs rule: rev_cases) (auto simp: consec_append consec_Cons)
  then have o: "Offset (last recs) + 1 = f + int (length recs)"
    using assms(5) by (cases recs) auto
  have "zs = []"
  proof (rule ccontr)
    assume "zs \<noteq> []"
    then have "Offset (hd zs) = f + int (length recs)" "hd zs \<in> set (visible f m rs)"
      using c zs by (cases zs; auto simp: consec_append consec_Cons)+
    then show False using consec_less [OF assms(1), of "hd zs"] assms(6) o by auto
  qed
  with zs show ?thesis by simp
qed

definition spans :: "int \<Rightarrow> int \<Rightarrow> segment list \<Rightarrow> nat" where
  "spans f m ss = length (filter (\<lambda>s. f < nextOffset s \<and> baseOffset s < m) ss)"

lemma spans_Cons:
  "spans f m (s # ss) = (if f < nextOffset s \<and> baseOffset s < m then 1 else 0) + spans f m ss"
  by (simp add: spans_def)

lemma spans_mono: "f \<le> f' \<Longrightarrow> spans f' m ss \<le> spans f m ss"
  by (induction ss) (auto simp: spans_Cons spans_def)

lemma Read_loop_skip_one:
  assumes "list_all2 seg_ok ss rss" "chained b ss" "f < b" "spans f m ss \<le> 1" "n < mb"
  shows "Read_loop ss f mb m n out = Inr out"
proof (cases ss)
  case Nil
  then show ?thesis by simp
next
  case (Cons t ts)
  from assms(1) Cons obtain rt rts where t: "seg_ok t rt" "list_all2 seg_ok ts rts" "rss = rt # rts"
    by (auto simp: list_all2_Cons1)
  have tb: "f < baseOffset t" "f < nextOffset t" using assms(2,3) Cons t(1) by (auto simp: seg_ok_def)
  show ?thesis
  proof (cases "baseOffset t < m")
    case True
    then have "spans f m ts = 0" using assms(4) Cons tb by (simp add: spans_Cons)
    then have "\<forall>s\<in>set ts. nextOffset s \<le> f \<or> m \<le> baseOffset s"
      by (auto simp: spans_def filter_empty_conv)
    then have "Read_loop ts (nextOffset t) mb m n out = Inr out"
      using tb by (intro Read_loop_none) force
    then show ?thesis
      using Read_loop_step(1) [where mb = mb and n = n, OF t(1) tb(2) True, of ts out] tb assms(5) Cons by simp
  next
    case False
    then show ?thesis using Cons tb by simp
  qed
qed

lemma Read_loop_prefix:
  assumes "list_all2 seg_ok ss rss" "chained b ss" "b \<le> f" "n < mb" "spans f m ss \<le> 2"
  shows "\<exists>new. Read_loop ss f mb m n out = Inr (out @ new) \<and> prefix new (visible f m (concat rss))"
  using assms
proof (induction arbitrary: b n f out rule: list_all2_induct)
  case Nil
  then show ?case by simp
next
  case (Cons s ss rs rss)
  have ch: "chained (nextOffset s) ss" and b: "baseOffset s \<le> f" using Cons.prems by auto
  have rs: "consec (baseOffset s) rs" "nextOffset s = baseOffset s + int (length rs)"
    using Cons.hyps(1) by (auto simp: seg_ok_def)
  have cc: "consec (nextOffset s) (concat rss)" using chained_consec [OF Cons.hyps(2) ch] by simp
  consider (skip) "nextOffset s \<le> f" | (stop) "f < nextOffset s" "m \<le> baseOffset s"
    | (rd) "f < nextOffset s" "baseOffset s < m" by linarith
  then show ?case
  proof cases
    case skip
    with rs have "visible f m rs = []" by (intro visible_before) auto
    with skip Cons.IH [OF ch skip Cons.prems(3), of out] Cons.prems(4) show ?thesis
      by (auto simp: spans_Cons)
  next
    case stop
    then show ?thesis by simp
  next
    case rd
    define recs where "recs = (if baseOffset s \<le> f then budget (mb - n) 0 (visible f m rs) else [])"
    define f' where "f' = (if recs \<noteq> [] then Offset (last recs) + 1 else nextOffset s)"
    note st = Read_loop_step [where mb = mb and n = n, OF Cons.hyps(1) rd, folded recs_def, folded f'_def]
    have sp: "spans f m ss \<le> 1" "spans f' m ss \<le> 1"
      using Cons.prems(4) rd spans_mono [OF st(3), of m ss] by (auto simp: spans_Cons)
    have pre: "prefix recs (visible f m (concat (rs # rss)))" using st(2) by simp
    consider (full) "n + int (rec_bytes recs) \<ge> mb" | (whole) "n + int (rec_bytes recs) < mb" "f' = nextOffset s"
      | (part) "n + int (rec_bytes recs) < mb" "f' < nextOffset s" using st(4) by linarith
    then show ?thesis
    proof cases
      case full
      then show ?thesis using st(1) pre by auto
    next
      case whole
      have "recs = visible f m rs"
      proof (cases "recs = []")
        case True
        then show ?thesis using b budget_nonempty [of "visible f m rs" "mb - n"] by (metis recs_def)
      next
        case False
        then show ?thesis using whole(2) b rd rs st(2)
          by (intro read_to_end [OF rs(1)]) (auto simp: f'_def)
      qed
      moreover have "visible f' m (concat rss) = visible f m (concat rss)"
        using visible_from_base [OF cc] whole(2) rd(1) by simp
      moreover have "spans f' m ss \<le> 2" using sp by simp
      ultimately show ?thesis
        using Cons.IH [OF ch _ whole(1), of f' "out @ recs"] whole st(1) by auto
    next
      case part
      then show ?thesis
        using Read_loop_skip_one [OF Cons.hyps(2) ch part(2) sp(2) part(1)] st(1) pre by auto
    qed
  qed
qed

section \<open>Reading a log\<close>

text \<open>The bounds that \<open>Read\<close> puts in place of a missing budget and a missing upper offset.\<close>

abbreviation read_budget :: "int \<Rightarrow> int" where
  "read_budget mb \<equiv> (if mb \<le> 0 then 1048576 else mb)"

abbreviation read_limit :: "Log \<Rightarrow> int \<Rightarrow> int" where
  "read_limit l m \<equiv> (if m < 0 then LEO l else m)"

lemma Read_unfold:
  assumes "f < LEO l" "f < read_limit l m"
  shows "Read l f mb m = Read_loop (segments l) f (read_budget mb) (read_limit l m) 0 []"
  using assms by (auto simp: Read_def LEO_def Let_def)

lemma log_ok_segments:
  "log_ok l rss \<Longrightarrow> list_all2 seg_ok (segments l) rss \<and> chained (start l) (segments l) \<and> segments l \<noteq> []"
  using log_ok_facts(4) by (auto simp: log_ok_def)

text \<open>
  Progress and safety of \<open>Read\<close>.  From an offset the log holds, a read of a
  well-formed log succeeds; its first record is the one asked for; all of its records are
  records of the log in the range, in log order and each at most once; and apart from the
  last record they stay within the byte budget.
\<close>

lemma Read_sound:
  assumes "log_inv l" "start l \<le> f" "f < LEO l" "f < read_limit l m"
  shows "\<exists>r new. Read l f mb m = Inr (r # new) \<and> Offset r = f
    \<and> subseq (r # new) (visible f (read_limit l m) (contents l))
    \<and> int (rec_bytes (butlast (r # new))) < read_budget mb"
proof -
  from assms(1) obtain rss where ok: "log_ok l rss" by (auto simp: log_inv_def)
  let ?m = "read_limit l m" and ?mb = "read_budget mb"
  note seg = log_ok_segments [OF ok]
  have mb: "0 < ?mb" by simp
  obtain r new where r: "Read_loop (segments l) f ?mb ?m 0 [] = Inr ([] @ r # new)" "Offset r = f"
    using Read_loop_first [of "segments l" rss "start l" 0 ?mb f ?m "[]"] seg mb assms(2-4)
    by (auto simp: LEO_def active_def)
  obtain new' where new': "Read_loop (segments l) f ?mb ?m 0 [] = Inr ([] @ new')"
      "subseq new' (visible f ?m (concat rss))" "0 + int (rec_bytes (butlast new')) < ?mb"
    using Read_loop_sound [of "segments l" rss "start l" 0 ?mb f ?m "[]"] seg mb by blast
  have "new' = r # new" using r(1) new'(1) by simp
  then show ?thesis
    using Read_unfold [OF assms(3,4)] r new' contents_eq [OF ok] by auto
qed

lemma Read_complete:
  assumes "log_inv l" "start l \<le> f"
    "int (rec_bytes (visible f (read_limit l m) (contents l))) \<le> read_budget mb"
  shows "Read l f mb m = Inr (visible f (read_limit l m) (contents l))"
proof -
  from assms(1) obtain rss where ok: "log_ok l rss" by (auto simp: log_inv_def)
  show ?thesis
  proof (cases "f < LEO l \<and> f < read_limit l m")
    case True
    then show ?thesis
      using Read_unfold Read_loop_complete [of "segments l" rss "start l" f 0 "read_budget mb" "read_limit l m" "[]"]
        log_ok_segments [OF ok] assms contents_eq [OF ok] by auto
  next
    case False
    have "visible f (read_limit l m) (contents l) = []"
    proof (cases "f < LEO l")
      case True
      with False show ?thesis by (auto simp: filter_empty_conv)
    next
      case nf: False
      then show ?thesis using log_ok_facts(1,2) [OF ok] contents_eq [OF ok]
        by (intro visible_before) auto
    qed
    with False show ?thesis by (auto simp: Read_def LEO_def Let_def)
  qed
qed

lemma Read_contiguous:
  assumes "log_inv l" "start l \<le> f" "f < LEO l" "f < read_limit l m"
    "spans f (read_limit l m) (segments l) \<le> 2"
  shows "\<exists>out. Read l f mb m = Inr out \<and> out \<noteq> [] \<and> prefix out (visible f (read_limit l m) (contents l))"
proof -
  from assms(1) obtain rss where ok: "log_ok l rss" by (auto simp: log_inv_def)
  have mb: "0 < read_budget mb" by simp
  obtain new where "Read l f mb m = Inr new" "prefix new (visible f (read_limit l m) (concat rss))"
    using Read_loop_prefix [of "segments l" rss "start l" f 0 "read_budget mb" "read_limit l m" "[]"]
      log_ok_segments [OF ok] assms(2,5) mb Read_unfold [OF assms(3,4)] by auto
  moreover have "new \<noteq> []" using Read_sound [OF assms(1-4), of mb] calculation by auto
  ultimately show ?thesis using contents_eq [OF ok] by auto
qed

end
