(* ===== verification/LS_LogLife.thy ===== *)
theory LS_LogLife
  imports LS_LogRead
begin

text \<open>
  The life of a partition log (\<^verbatim>\<open>src/internal/log/log.go\<close>): opening an empty directory,
  appending, the high watermark, a crash and the recovery of what was on disk.
\<close>

section \<open>Opening an empty directory\<close>

definition norm_cfg :: "LogConfig \<Rightarrow> LogConfig" where
  "norm_cfg c = c\<lparr>MaxSegmentBytes := (if MaxSegmentBytes c \<le> 0 then DefaultMaxSegmentBytes else MaxSegmentBytes c),
     IndexInterval := (if IndexInterval c \<le> 0 then DefaultIndexInterval else IndexInterval c)\<rparr>"

lemma Log_Open_eq:
  "Log_Open no_fault cfg dir =
     recover_log no_fault \<lparr>lcfg = norm_cfg cfg, ldir = dir, segments = [], hw = 0, appends = 0\<rparr>"
  by (simp add: Log_Open_def norm_cfg_def Let_def)

lemma Log_Open_empty:
  assumes "MaxSegmentBytes cfg \<le> 4294967296"
  shows "\<exists>l. Log_Open no_fault cfg [] = Inr l \<and> log_ok l [[]] \<and> start l = 0 \<and> hw l = 0
    \<and> lcfg l = norm_cfg cfg"
proof -
  obtain s dir where c: "createSegment no_fault [] 0 (IndexInterval (norm_cfg cfg)) = (Inr s, dir)"
      "seg_ok s []" "baseOffset s = 0" "index_file_ok (idx s)" "fresh_names [] 0 \<longrightarrow> fresh_names dir 0"
    using createSegment_ok [of "[]" 0 "IndexInterval (norm_cfg cfg)"] by auto
  have "fresh_names dir 0" using c(5) by (simp add: fresh_names_def)
  then show ?thesis
    using c assms by (simp add: Log_Open_eq recover_log_def listSegmentBases_def map_filter_simps log_ok_def
        active_def LEO_def start_def index_file_ok_def norm_cfg_def seg_ok_def DefaultMaxSegmentBytes_def)
qed

section \<open>Appending\<close>

lemma Log_Append_ok:
  assumes "log_ok l rss" "LEO l < max_i64" "in_i64 now" "25 + length key + length val \<le> 67108864"
  shows "\<exists>l' r. Log_Append no_fault now l key val = (Inr (LEO l), l')
    \<and> log_ok l' (split_append (MaxSegmentBytes (lcfg l)) rss r)
    \<and> r = \<lparr>Offset = LEO l, Timestamp = now, Key = key, Value = val\<rparr>
    \<and> hw l' = hw l \<and> lcfg l' = lcfg l \<and> appends l' = appends l + 1"
proof -
  let ?r = "\<lparr>Offset = LEO l, Timestamp = now, Key = key, Value = val\<rparr>"
  have st: "stamp now ?r = ?r" by (simp add: stamp_def)
  have "valid_rec ?r"
    using assms log_ok_facts(2,5) [OF assms(1)] by (simp add: valid_rec_def EncodedSize_def in_i64_def)
  then show ?thesis
    using appendLocked_ok [OF assms(1), of ?r now] st assms(2)
    by (auto simp: Log_Append_def LEO_def)
qed

section \<open>The files of a log\<close>

definition seg_files :: "segment \<Rightarrow> directory" where
  "seg_files s = [(fst (segmentPaths (baseOffset s)), fbytes (logFile s)),
                  (snd (segmentPaths (baseOffset s)), fbytes (idxFile (idx s)))]"

text \<open>
  The directory that a crash leaves: the closed segments are complete (\<open>rotateLocked\<close> syncs
  them), the log file of the active segment is cut at byte \<open>k\<close>, its index file holds
  anything.
\<close>

definition cut_active :: "Log \<Rightarrow> nat \<Rightarrow> byte list \<Rightarrow> segment" where
  "cut_active l k ixb = (active l)\<lparr>logFile := \<lparr>fbytes = take k (fbytes (logFile (active l))), fpos = 0\<rparr>,
     idx := \<lparr>idxFile = \<lparr>fbytes = ixb, fpos = 0\<rparr>, entries = []\<rparr>\<rparr>"

definition crash_disk :: "Log \<Rightarrow> nat \<Rightarrow> byte list \<Rightarrow> directory" where
  "crash_disk l k ixb = concat (map seg_files (butlast (segments l) @ [cut_active l k ixb]))"

lemma suffix_last: "suffix xs ys \<Longrightarrow> xs \<noteq> [] \<Longrightarrow> last ys = last xs"
  by (auto simp: suffix_def)

lemma base_of_paths:
  assumes "in_i64 b"
  shows "segment_base_of_name (fst (segmentPaths b)) = Some b"
    "segment_base_of_name (snd (segmentPaths b)) = None"
proof -
  have "suffix ''.log'' (fmt020d b @ ''.log'')" by (rule suffixI) (rule refl)
  then show "segment_base_of_name (fst (segmentPaths b)) = Some b"
    using ParseInt_fmt020d [OF assms] by (simp add: segment_base_of_name_def segmentPaths_def)
  show "segment_base_of_name (snd (segmentPaths b)) = None"
    using suffix_last [of "''.log''" "fmt020d b @ ''.index''"]
    by (auto simp: segment_base_of_name_def segmentPaths_def)
qed

lemma bases_of_files:
  "\<forall>s\<in>set ss. in_i64 (baseOffset s) \<Longrightarrow>
     List.map_filter (\<lambda>(name, _). segment_base_of_name name) (concat (map seg_files ss)) = map baseOffset ss"
  by (induction ss) (auto simp: seg_files_def map_filter_simps base_of_paths)

lemma files_keys:
  "set (map fst (concat (map seg_files ss))) =
     (\<Union>s\<in>set ss. {fst (segmentPaths (baseOffset s)), snd (segmentPaths (baseOffset s))})"
  by (induction ss) (auto simp: seg_files_def)

lemma files_distinct:
  assumes "distinct (map baseOffset ss)" "\<forall>s\<in>set ss. in_i64 (baseOffset s)"
  shows "distinct (map fst (concat (map seg_files ss)))"
  using assms
proof (induction ss)
  case Nil
  then show ?case by simp
next
  case (Cons s ss)
  have "fst (segmentPaths (baseOffset s)) \<noteq> fst (segmentPaths (baseOffset t))
      \<and> snd (segmentPaths (baseOffset s)) \<noteq> snd (segmentPaths (baseOffset t))" if "t \<in> set ss" for t
    using Cons.prems that paths_inj [of "baseOffset s" "baseOffset t"] by (auto simp: image_iff)
  then have "set (map fst (seg_files s)) \<inter> set (map fst (concat (map seg_files ss))) = {}"
    unfolding files_keys using paths_distinct by (fastforce simp: seg_files_def)
  then show ?case using Cons paths_distinct by (simp add: seg_files_def)
qed

lemma files_lookup:
  assumes "distinct (map baseOffset ss)" "\<forall>s\<in>set ss. in_i64 (baseOffset s)" "s \<in> set ss"
  shows "map_of (concat (map seg_files ss)) (fst (segmentPaths (baseOffset s))) = Some (fbytes (logFile s))"
    "map_of (concat (map seg_files ss)) (snd (segmentPaths (baseOffset s))) = Some (fbytes (idxFile (idx s)))"
  using files_distinct [OF assms(1,2)] assms(3)
  by (auto intro!: map_of_is_SomeI bexI [of _ s] simp: seg_files_def)

section \<open>Opening the segments\<close>

lemma openSegment_closed:
  assumes "seg_ok s rs" "rs \<noteq> []" "rec_bytes rs \<le> 4294967296"
    "fbytes (idxFile (idx s)) = concat (map enc_entry (entries (idx s)))"
    "map_of dir (fst (segmentPaths (baseOffset s))) = Some (fbytes (logFile s))"
    "map_of dir (snd (segmentPaths (baseOffset s))) = Some (fbytes (idxFile (idx s)))"
  shows "\<exists>s'. openSegment no_fault dir (baseOffset s) intv False = Inr s' \<and> seg_ok s' rs
    \<and> baseOffset s' = baseOffset s
    \<and> fbytes (idxFile (idx s')) = concat (map enc_entry (entries (idx s')))"
proof -
  define ix where "ix = \<lparr>idxFile = \<lparr>fbytes = fbytes (idxFile (idx s)), fpos = 0\<rparr>, entries = entries (idx s)\<rparr>"
  define t where "t = \<lparr>baseOffset = baseOffset s, logFile = \<lparr>fbytes = fbytes (logFile s), fpos = 0\<rparr>, idx = ix,
      ssize = rec_bytes rs, nextOffset = 0, bytesSinceIndex = 0, indexInterval = intv\<rparr>"
  have rb: "length (fbytes (logFile s)) = rec_bytes rs" "rec_bytes rs \<noteq> 0"
    using assms(1,2) rec_bytes_0 by (auto simp: seg_ok_def rec_bytes_def)
  have "openIndex no_fault (Some (fbytes (idxFile (idx s)))) = Some ix"
    using ie.scan_concat [of "entries (idx s)"] assms(4) by (simp add: openIndex_ok ix_def)
  then have opn: "openSegment no_fault dir (baseOffset s) intv False = recover_segment no_fault t False"
    using assms(5,6) rb by (simp add: openSegment_def t_def case_prod_unfold)
  have eof: "decode_bytes [] = Inl (ErrIO EOF)" by (rule rc.dec_Nil)
  show ?thesis
  proof (cases "entries (idx s) = []")
    case True
    then show ?thesis
      using recover_segment_full [of t rs "[]" False "ErrIO EOF"] assms(1,3) opn rb eof
      by (auto simp: t_def ix_def seg_ok_def rec_bytes_def index_file_ok_def)
  next
    case False
    have "index_upto (length rs) rs ix" using assms(1) by (simp add: seg_ok_def ix_def index_upto_def)
    then show ?thesis
      using recover_segment_tail [of t rs "[]" "ErrIO EOF"] assms(1,4) opn rb eof False
      by (auto simp: t_def ix_def seg_ok_def)
  qed
qed

lemma open_segments_ok:
  assumes "list_all2 seg_ok ss rss" "\<forall>rs\<in>set rss. rs \<noteq> [] \<and> rec_bytes rs \<le> 4294967296"
    and "\<forall>s\<in>set ss. fbytes (idxFile (idx s)) = concat (map enc_entry (entries (idx s)))
      \<and> map_of dir (fst (segmentPaths (baseOffset s))) = Some (fbytes (logFile s))
      \<and> map_of dir (snd (segmentPaths (baseOffset s))) = Some (fbytes (idxFile (idx s)))"
    and "openSegment no_fault dir b intv True = Inr t"
  shows "\<exists>ss'. open_segments no_fault dir intv (map baseOffset ss @ [b]) = Inr (ss' @ [t])
    \<and> list_all2 seg_ok ss' rss \<and> map baseOffset ss' = map baseOffset ss
    \<and> (\<forall>s\<in>set ss'. fbytes (idxFile (idx s)) = concat (map enc_entry (entries (idx s))))"
  using assms(1-3)
proof (induction rule: list_all2_induct)
  case Nil
  then show ?case using assms(4) by simp
next
  case (Cons s ss rs rss)
  then obtain s' where s': "openSegment no_fault dir (baseOffset s) intv False = Inr s'" "seg_ok s' rs"
      "baseOffset s' = baseOffset s" "fbytes (idxFile (idx s')) = concat (map enc_entry (entries (idx s')))"
    using openSegment_closed [of s rs dir intv] by auto
  obtain ss' where "open_segments no_fault dir intv (map baseOffset ss @ [b]) = Inr (ss' @ [t])"
      "list_all2 seg_ok ss' rss" "map baseOffset ss' = map baseOffset ss"
      "\<forall>s\<in>set ss'. fbytes (idxFile (idx s)) = concat (map enc_entry (entries (idx s)))"
    using Cons.IH Cons.prems by auto
  then show ?case using s' by (intro exI [of _ "s' # ss'"]) simp
qed

lemma chained_strict:
  assumes "list_all2 seg_ok ss rss" "chained b ss" "\<forall>rs\<in>set (butlast rss). rs \<noteq> []"
  shows "sorted_wrt (<) (map baseOffset ss)"
  using assms
proof (induction arbitrary: b rule: list_all2_induct)
  case Nil
  then show ?case by simp
next
  case (Cons s ss rs rss)
  have ch: "chained (nextOffset s) ss" using Cons.prems by simp
  have ne: "\<forall>rs\<in>set (butlast rss). rs \<noteq> []" using Cons.prems(2) by (cases rss) auto
  have "baseOffset s < baseOffset t" if "t \<in> set ss" for t
  proof -
    have "rs \<noteq> []" using that Cons.hyps(2) Cons.prems(2) by (cases rss) auto
    then have "baseOffset s < nextOffset s" using Cons.hyps(1) by (simp add: seg_ok_def)
    then show ?thesis using chained_ge(1) [OF Cons.hyps(2) ch that] by simp
  qed
  then show ?case using Cons.IH [OF ch ne] by auto
qed

lemma chained_cong:
  assumes "chained b ss" "map baseOffset ss' = map baseOffset ss"
    "map nextOffset (butlast ss') = map nextOffset (butlast ss)"
  shows "chained b ss'"
  using assms
proof (induction ss arbitrary: b ss')
  case Nil
  then show ?case by simp
next
  case (Cons s ss)
  then obtain t ts where t: "ss' = t # ts" "baseOffset t = b" "map baseOffset ts = map baseOffset ss" by auto
  show ?case
  proof (cases ss)
    case Nil
    with t show ?thesis by simp
  next
    case (Cons u us)
    with t have "ts \<noteq> []" "nextOffset t = nextOffset s" "map nextOffset (butlast ts) = map nextOffset (butlast ss)"
      using Cons.prems(3) by auto
    then show ?thesis using Cons.IH [of "nextOffset s" ts] Cons.prems t by simp
  qed
qed

lemma seg_ok_next_eq:
  assumes "list_all2 seg_ok ss rss" "list_all2 seg_ok ss' rss" "map baseOffset ss' = map baseOffset ss"
  shows "map nextOffset ss' = map nextOffset ss"
  using assms
proof (induction arbitrary: ss' rule: list_all2_induct)
  case (Cons s ss rs rss)
  then show ?case by (cases ss') (auto simp: seg_ok_def)
qed simp

section \<open>Crash recovery of a log\<close>

lemma closed_segments:
  assumes "log_ok l rss"
  shows "segments l = butlast (segments l) @ [active l]" "rss = butlast rss @ [last rss]"
    "list_all2 seg_ok (butlast (segments l)) (butlast rss)"
    "\<forall>rs\<in>set (butlast rss). rs \<noteq> [] \<and> rec_bytes rs \<le> 4294967296" "rec_bytes (last rss) \<le> 4294967296"
    "sorted_wrt (<) (map baseOffset (segments l))" "\<forall>s\<in>set (segments l). in_i64 (baseOffset s)"
proof -
  note f = log_ok_facts [OF assms] and seg = log_ok_segments [OF assms]
  show "segments l = butlast (segments l) @ [active l]" using seg by (simp add: active_def)
  show rss: "rss = butlast rss @ [last rss]" using f(7) by simp
  then show "list_all2 seg_ok (butlast (segments l)) (butlast rss)" using seg
    by (metis active_def append_butlast_last_id length_butlast list_all2_append list_all2_lengthD)
  show "\<forall>rs\<in>set (butlast rss). rs \<noteq> [] \<and> rec_bytes rs \<le> 4294967296" "rec_bytes (last rss) \<le> 4294967296"
    using assms f(7) by (auto simp: log_ok_def dest: in_set_butlastD)
  show "sorted_wrt (<) (map baseOffset (segments l))"
    using seg assms by (intro chained_strict) (auto simp: log_ok_def)
  have "baseOffset s \<le> nextOffset s \<and> 0 \<le> baseOffset s \<and> nextOffset s \<le> max_i64" if "s \<in> set (segments l)" for s
    using seg that by (auto simp: in_set_conv_nth list_all2_conv_all_nth seg_ok_def)
  then show "\<forall>s\<in>set (segments l). in_i64 (baseOffset s)" by (force simp: in_i64_def)
qed

lemma cut_active_base [simp]: "baseOffset (cut_active l k ixb) = baseOffset (active l)"
  by (simp add: cut_active_def)

lemma crash_disk_facts:
  assumes "log_ok l rss"
  shows "listSegmentBases no_fault (crash_disk l k ixb) = Inr (map baseOffset (butlast (segments l)) @ [baseOffset (active l)])"
    and "\<forall>s\<in>set (butlast (segments l)). map_of (crash_disk l k ixb) (fst (segmentPaths (baseOffset s))) = Some (fbytes (logFile s))
      \<and> map_of (crash_disk l k ixb) (snd (segmentPaths (baseOffset s))) = Some (fbytes (idxFile (idx s)))"
    and "map_of (crash_disk l k ixb) (fst (segmentPaths (baseOffset (active l)))) = Some (take k (fbytes (logFile (active l))))"
    and "map_of (crash_disk l k ixb) (snd (segmentPaths (baseOffset (active l)))) = Some ixb"
    and "fresh_names (crash_disk l k ixb) (baseOffset (active l))"
proof -
  note c = closed_segments [OF assms]
  let ?ss = "butlast (segments l) @ [cut_active l k ixb]"
  have bs: "map baseOffset ?ss = map baseOffset (segments l)" by (subst (2) c(1)) simp
  have i64: "\<forall>s\<in>set ?ss. in_i64 (baseOffset s)"
    using c(1,7) by (metis bs in_set_conv_nth length_map nth_map nth_mem)
  have d: "distinct (map baseOffset ?ss)" using c(6) bs by (simp add: strict_sorted_iff)
  have "sort (map baseOffset ?ss) = map baseOffset ?ss"
    using c(6) bs by (simp add: sorted_sort_id strict_sorted_iff)
  then show "listSegmentBases no_fault (crash_disk l k ixb) = Inr (map baseOffset (butlast (segments l)) @ [baseOffset (active l)])"
    using bases_of_files [OF i64] by (simp add: listSegmentBases_def crash_disk_def)
  note look = files_lookup [OF d i64, folded crash_disk_def]
  show "\<forall>s\<in>set (butlast (segments l)). map_of (crash_disk l k ixb) (fst (segmentPaths (baseOffset s))) = Some (fbytes (logFile s))
      \<and> map_of (crash_disk l k ixb) (snd (segmentPaths (baseOffset s))) = Some (fbytes (idxFile (idx s)))"
    using look by simp
  show "map_of (crash_disk l k ixb) (fst (segmentPaths (baseOffset (active l)))) = Some (take k (fbytes (logFile (active l))))"
    "map_of (crash_disk l k ixb) (snd (segmentPaths (baseOffset (active l)))) = Some ixb"
    using look [of "cut_active l k ixb"] by (simp_all add: cut_active_def)
  have le: "baseOffset s \<le> baseOffset (active l)" if "s \<in> set ?ss" for s
    using that c(6) by (subst (asm) (2) c(1)) (auto simp: sorted_wrt_append)
  show "fresh_names (crash_disk l k ixb) (baseOffset (active l))"
    unfolding fresh_names_def
  proof (intro allI impI)
    fix b assume b: "baseOffset (active l) < b \<and> b \<le> max_i64"
    have "in_i64 (baseOffset (active l))" using i64 by simp
    then have "in_i64 b" using b by (simp add: in_i64_def)
    then have other: "fst (segmentPaths b) \<noteq> fst (segmentPaths (baseOffset s))
        \<and> snd (segmentPaths b) \<noteq> snd (segmentPaths (baseOffset s))" if "s \<in> set ?ss" for s
    proof -
      have "b \<noteq> baseOffset s" "in_i64 (baseOffset s)" using le [OF that] i64 that b by auto
      then show ?thesis using paths_inj [OF \<open>in_i64 b\<close>] by simp
    qed
    have "fst (segmentPaths b) \<notin> set (map fst (crash_disk l k ixb))"
      "snd (segmentPaths b) \<notin> set (map fst (crash_disk l k ixb))"
      unfolding crash_disk_def files_keys using other paths_distinct by blast+
    then show "map_of (crash_disk l k ixb) (fst (segmentPaths b)) = None \<and> map_of (crash_disk l k ixb) (snd (segmentPaths b)) = None"
      by (simp add: map_of_eq_None_iff)
  qed
qed

lemma Log_Open_crash:
  assumes ok: "log_ok l rss" and cut: "0 < k \<and> last rss \<noteq> [] \<or> ixb = []"
    and cfg: "MaxSegmentBytes cfg \<le> 4294967296"
  shows "\<exists>l'. Log_Open no_fault cfg (crash_disk l k ixb) = Inr l'
    \<and> log_ok l' (butlast rss @ [take (whole enc k (last rss)) (last rss)]) \<and> start l' = start l \<and> hw l' = 0"
proof -
  note c = closed_segments [OF ok] and d = crash_disk_facts [OF ok, of k ixb] and f = log_ok_facts [OF ok]
  let ?dir = "crash_disk l k ixb" and ?intv = "IndexInterval (norm_cfg cfg)"
  let ?rs = "take (whole enc k (last rss)) (last rss)"
  note act = f(8) [unfolded seg_ok_def]
  obtain t where t: "openSegment no_fault ?dir (baseOffset (active l)) ?intv True = Inr t"
      "seg_ok t ?rs" "baseOffset t = baseOffset (active l)" "index_file_ok (idx t)"
    using openSegment_active [of ?dir "baseOffset (active l)" k "last rss" ?intv] d(3,4) act c(5) cut by auto
  have ixf: "\<forall>s\<in>set (butlast (segments l)). fbytes (idxFile (idx s)) = concat (map enc_entry (entries (idx s)))"
    using ok by (auto simp: log_ok_def dest: in_set_butlastD)
  obtain ss' where ss': "open_segments no_fault ?dir ?intv (map baseOffset (butlast (segments l)) @ [baseOffset (active l)]) = Inr (ss' @ [t])"
      "list_all2 seg_ok ss' (butlast rss)" "map baseOffset ss' = map baseOffset (butlast (segments l))"
      "\<forall>s\<in>set ss'. fbytes (idxFile (idx s)) = concat (map enc_entry (entries (idx s)))"
    using open_segments_ok [OF c(3,4), of ?dir "baseOffset (active l)" ?intv t] d(2) ixf t(1) by auto
  define l' where "l' = \<lparr>lcfg = norm_cfg cfg, ldir = ?dir, segments = ss' @ [t], hw = 0, appends = 0\<rparr>"
  have opn: "Log_Open no_fault cfg ?dir = Inr l'"
    using d(1) ss'(1) by (simp add: Log_Open_eq recover_log_def l'_def)
  have bs: "map baseOffset (ss' @ [t]) = map baseOffset (segments l)"
    using ss'(3) t(3) by (subst c(1)) simp
  have ch: "chained (start l) (ss' @ [t])"
    using seg_ok_next_eq [OF c(3) ss'(2,3)] bs by (intro chained_cong [OF f(4)]) auto
  have st: "start l' = start l"
    using ch by (cases ss') (auto simp: start_def l'_def)
  have rb: "rec_bytes ?rs \<le> rec_bytes (last rss)"
    by (metis append_take_drop_id le_add1 rec_bytes_simps(3))
  have "0 \<le> nextOffset t" using t(2) by (simp add: seg_ok_def)
  then have "log_ok l' (butlast rss @ [?rs])"
    unfolding log_ok_def
    using ss'(2,4) t ch c(4,5) rb cfg d(5)
    by (auto simp: l'_def active_def LEO_def index_file_ok_def list_all2_appendI norm_cfg_def DefaultMaxSegmentBytes_def
          dest: in_set_butlastD)
  with opn st show ?thesis by (auto simp: l'_def)
qed

section \<open>Properties of the log\<close>

lemma log_ok_extend:
  assumes "log_ok l rss" "log_ok l' rss'" "concat rss' = concat rss @ [r]" "Offset r = LEO l"
  shows "contents l' = contents l @ [r]" "start l' = start l" "LEO l' = LEO l + 1"
proof -
  note f = log_ok_facts [OF assms(1)] and f' = log_ok_facts [OF assms(2)]
  show "contents l' = contents l @ [r]" using contents_eq assms(1-3) by simp
  have "consec (start l') (concat rss @ [r])" using f'(1) assms(3) by simp
  then show st: "start l' = start l" using f(1,2) assms(4) by auto
  show "LEO l' = LEO l + 1" using f(2) f'(2) st assms(3) by simp
qed

text \<open>A log that the examples below use: the default sizes on an empty directory.\<close>

abbreviation example_cfg :: LogConfig where
  "example_cfg \<equiv> \<lparr>MaxSegmentBytes = 0, IndexInterval = 0, FsyncEvery = 0\<rparr>"

lemma open_example:
  "\<exists>l. Log_Open no_fault example_cfg [] = Inr l \<and> log_ok l [[]] \<and> log_inv l \<and> LEO l = 0 \<and> start l = 0 \<and> hw l = 0
    \<and> contents l = [] \<and> length (segments l) = 1"
proof -
  obtain l where l: "Log_Open no_fault example_cfg [] = Inr l" "log_ok l [[]]" "start l = 0" "hw l = 0"
    using Log_Open_empty [of example_cfg] by auto
  then show ?thesis
    using log_ok_facts(2) [OF l(2)] contents_eq [OF l(2)] log_ok_segments [OF l(2)]
    by (auto simp: log_inv_def dest: list_all2_lengthD)
qed

lemma Log_Append_inv:
  assumes "log_inv l" "LEO l < max_i64" "in_i64 now" "25 + length key + length val \<le> 67108864"
  shows "\<exists>l'. Log_Append no_fault now l key val = (Inr (LEO l), l') \<and> log_inv l'
    \<and> contents l' = contents l @ [\<lparr>Offset = LEO l, Timestamp = now, Key = key, Value = val\<rparr>]
    \<and> LEO l' = LEO l + 1 \<and> start l' = start l \<and> HighWatermark l' = HighWatermark l"
proof -
  from assms(1) obtain rss where ok: "log_ok l rss" by (auto simp: log_inv_def)
  obtain l' r where l': "Log_Append no_fault now l key val = (Inr (LEO l), l')"
      "log_ok l' (split_append (MaxSegmentBytes (lcfg l)) rss r)" "hw l' = hw l"
      and r: "r = \<lparr>Offset = LEO l, Timestamp = now, Key = key, Value = val\<rparr>"
    using Log_Append_ok [OF ok assms(2-4)] by blast
  then show ?thesis
    using log_ok_extend [OF ok l'(2) concat_split_append [OF log_ok_facts(7) [OF ok]]]
    by (auto simp: log_inv_def HighWatermark_def)
qed

text \<open>
  C6.  \<open>Append\<close> on a well-formed log whose record fits the format returns the log end
  offset, and the log then holds exactly one more record, at that offset, with the key and
  value given and the current time; the log stays well-formed (whether or not the append
  started a new segment) and the high watermark does not move.
\<close>

theorem append_extends_log:
  assumes "log_inv l" "LEO l < max_i64" "in_i64 now" "25 + length key + length val \<le> 67108864"
  shows "\<exists>l'. Log_Append no_fault now l key val = (Inr (LEO l), l') \<and> log_inv l'
    \<and> contents l' = contents l @ [\<lparr>Offset = LEO l, Timestamp = now, Key = key, Value = val\<rparr>]
    \<and> LEO l' = LEO l + 1 \<and> start l' = start l \<and> HighWatermark l' = HighWatermark l"
  using Log_Append_inv [OF assms] .

theorem append_extends_log_witness:
  "\<exists>l l'. Log_Open no_fault example_cfg [] = Inr l \<and> Log_Append no_fault 5 l [1] [2, 3] = (Inr 0, l')
    \<and> contents l' = [\<lparr>Offset = 0, Timestamp = 5, Key = [1], Value = [2, 3]\<rparr>] \<and> LEO l' = 1"
proof -
  obtain l where "Log_Open no_fault example_cfg [] = Inr l" "log_inv l" "LEO l = 0" "contents l = []"
    using open_example by blast
  then show ?thesis using append_extends_log [of l 5 "[1]" "[2, 3]"] by (auto simp: in_i64_def)
qed

text \<open>
  \<open>AppendAt\<close>, the follower path: a record whose offset is not the log end offset is refused
  and the log does not change; a record at the log end is stored unchanged (its timestamp
  is filled in only when it is zero).
\<close>

theorem append_at_offset:
  assumes "log_inv l" "LEO l < max_i64" "valid_rec (stamp now rec)"
  shows "(if Offset rec = LEO l
     then \<exists>l'. AppendAt no_fault now l rec = (Inr (LEO l), l') \<and> log_inv l'
        \<and> contents l' = contents l @ [stamp now rec] \<and> LEO l' = LEO l + 1 \<and> HighWatermark l' = HighWatermark l
     else AppendAt no_fault now l rec = (Inl (ErrOffset (LEO l) (Offset rec)), l))"
proof (cases "Offset rec = LEO l")
  case True
  from assms(1) obtain rss where ok: "log_ok l rss" by (auto simp: log_inv_def)
  obtain l' where l': "appendLocked no_fault now l rec = (Inr (LEO l), l')"
      "log_ok l' (split_append (MaxSegmentBytes (lcfg l)) rss (stamp now rec))" "hw l' = hw l"
    using appendLocked_ok [OF ok True assms(3,2)] by blast
  then show ?thesis
    using True log_ok_extend [OF ok l'(2) concat_split_append [OF log_ok_facts(7) [OF ok]]]
    by (auto simp: AppendAt_def log_inv_def HighWatermark_def LEO_def)
next
  case False
  then show ?thesis by (simp add: AppendAt_def LEO_def)
qed

theorem append_at_offset_witness:
  "\<exists>l l'. Log_Open no_fault example_cfg [] = Inr l
    \<and> AppendAt no_fault 5 l \<lparr>Offset = 0, Timestamp = 3, Key = [], Value = []\<rparr> = (Inr 0, l')
    \<and> contents l' = [\<lparr>Offset = 0, Timestamp = 3, Key = [], Value = []\<rparr>]
    \<and> AppendAt no_fault 5 l \<lparr>Offset = 2, Timestamp = 3, Key = [], Value = []\<rparr> = (Inl (ErrOffset 0 2), l)"
proof -
  obtain l where l: "Log_Open no_fault example_cfg [] = Inr l" "log_inv l" "LEO l = 0" "contents l = []"
    using open_example by blast
  show ?thesis
    using l append_at_offset [of l 5 "\<lparr>Offset = 0, Timestamp = 3, Key = [], Value = []\<rparr>"]
      append_at_offset [of l 5 "\<lparr>Offset = 2, Timestamp = 3, Key = [], Value = []\<rparr>"]
    by (auto simp: in_i64_def valid_rec_def stamp_def EncodedSize_def)
qed

text \<open>
  The high watermark of a well-formed log is set to the larger of its old value and the
  request cut down to the log end offset: it never retreats and never passes the log end.
  Nothing else of the log changes.
\<close>

theorem high_watermark_monotone:
  assumes "log_inv l"
  shows "HighWatermark (SetHighWatermark l h) = max (HighWatermark l) (min h (LEO l))
    \<and> log_inv (SetHighWatermark l h) \<and> contents (SetHighWatermark l h) = contents l
    \<and> LEO (SetHighWatermark l h) = LEO l"
proof -
  from assms obtain rss where ok: "log_ok l rss" by (auto simp: log_inv_def)
  then have "0 \<le> hw l" "hw l \<le> LEO l" by (auto simp: log_ok_def)
  moreover have upd: "log_ok (l\<lparr>hw := x\<rparr>) rss" if "0 \<le> x" "x \<le> LEO l" for x
    using ok that by (simp add: log_ok_def LEO_def active_def)
  ultimately have "log_ok (SetHighWatermark l h) rss"
    using ok by (auto simp: SetHighWatermark_def Let_def LEO_def)
  with ok \<open>hw l \<le> LEO l\<close> show ?thesis
    by (auto simp: log_inv_def SetHighWatermark_def HighWatermark_def Let_def LEO_def contents_def active_def)
qed

lemma WaitHighWatermark_loop_simps [simp]:
  "WaitHighWatermark_loop off tmo dl h [] = (if h > off then Some True else if tmo \<le> 0 then Some False else None)"
  "WaitHighWatermark_loop off tmo dl h ((b, a, h') # ws) =
     (if h > off then Some True else if tmo \<le> 0 \<or> dl - b \<le> 0 \<or> a > dl \<and> h' \<le> off then Some False
      else WaitHighWatermark_loop off tmo dl h' ws)"
  by (subst WaitHighWatermark_loop.simps, simp)+

lemma WaitHighWatermark_loop_above: "h > off \<Longrightarrow> WaitHighWatermark_loop off tmo dl h wakes = Some True"
  by (subst WaitHighWatermark_loop.simps) simp

lemma WaitHighWatermark_loop_result:
  "WaitHighWatermark_loop off tmo dl h wakes = Some True \<Longrightarrow> h > off \<or> (\<exists>(b, a, h')\<in>set wakes. h' > off)"
  by (induction wakes arbitrary: h) (fastforce split: if_splits)+

lemma WaitHighWatermark_loop_returns:
  "\<exists>(b, a, h')\<in>set wakes. a > dl \<Longrightarrow> WaitHighWatermark_loop off tmo dl h wakes \<noteq> None"
proof (induction wakes arbitrary: h)
  case (Cons w ws)
  obtain b a h' where w: "w = (b, a, h')" by (cases w)
  show ?case
  proof (cases "a > dl")
    case True
    then show ?thesis using WaitHighWatermark_loop_above [of off h' tmo dl ws] by (auto simp: w)
  next
    case False
    with Cons w show ?thesis by auto
  qed
qed simp

theorem high_watermark_monotone_witness:
  "\<exists>l. Log_Open no_fault example_cfg [] = Inr l \<and> HighWatermark (SetHighWatermark l 7) = 0
    \<and> log_inv (SetHighWatermark l 7)"
proof -
  obtain l where "Log_Open no_fault example_cfg [] = Inr l" "log_inv l" "LEO l = 0" "hw l = 0"
    using open_example by blast
  then show ?thesis using high_watermark_monotone [of l 7] by (auto simp: HighWatermark_def)
qed

text \<open>
  \<open>WaitHighWatermark\<close> reports success only when the high watermark was seen above the
  offset, and it does not wait for ever: once a wake-up comes after the deadline, it has
  returned.
\<close>

theorem wait_high_watermark:
  "(WaitHighWatermark now l off timeout wakes = Some True \<longrightarrow>
      HighWatermark l > off \<or> (\<exists>(b, a, h)\<in>set wakes. h > off)) \<and>
   ((\<exists>(b, a, h)\<in>set wakes. a > now + timeout) \<longrightarrow> WaitHighWatermark now l off timeout wakes \<noteq> None)"
  using WaitHighWatermark_loop_result WaitHighWatermark_loop_returns
  unfolding WaitHighWatermark_def HighWatermark_def by blast

theorem wait_high_watermark_witness:
  "let l = \<lparr>lcfg = example_cfg, ldir = [], segments = [], hw = 0, appends = 0\<rparr> in
   WaitHighWatermark 100 l 3 10 [(101, 105, 2), (105, 106, 4)] = Some True
   \<and> WaitHighWatermark 100 l 3 10 [(101, 105, 2), (105, 111, 3)] = Some False
   \<and> WaitHighWatermark 100 l 3 10 [(101, 105, 2), (105, 111, 3)] \<noteq> None"
  using wait_high_watermark [of 100 "\<lparr>lcfg = example_cfg, ldir = [], segments = [], hw = 0, appends = 0\<rparr>" 3 10
      "[(101, 105, 2), (105, 111, 3)]"]
  by (auto simp: WaitHighWatermark_def)

section \<open>Crash recovery and reading\<close>

text \<open>Example logs: records of 33 bytes, appended one after the other.\<close>

abbreviation empty_rec :: "int \<Rightarrow> Record" where
  "empty_rec n \<equiv> \<lparr>Offset = n, Timestamp = 1, Key = [], Value = []\<rparr>"

primrec append_empty :: "nat \<Rightarrow> Log \<Rightarrow> Log" where
  "append_empty 0 l = l"
| "append_empty (Suc k) l = snd (Log_Append no_fault 1 (append_empty k l) [] [])"

lemma append_empty_step:
  assumes "log_ok (append_empty k l) rss" "start (append_empty k l) = 0" "MaxSegmentBytes (lcfg (append_empty k l)) = mb"
    "length (concat rss) < 100"
  shows "log_ok (append_empty (Suc k) l) (split_append mb rss (empty_rec (int (length (concat rss)))))
    \<and> start (append_empty (Suc k) l) = 0 \<and> MaxSegmentBytes (lcfg (append_empty (Suc k) l)) = mb"
proof -
  have leo: "LEO (append_empty k l) = int (length (concat rss))" using log_ok_facts(2) [OF assms(1)] assms(2) by simp
  then obtain l' r where l': "Log_Append no_fault 1 (append_empty k l) [] [] = (Inr (LEO (append_empty k l)), l')"
      "log_ok l' (split_append (MaxSegmentBytes (lcfg (append_empty k l))) rss r)"
      "r = empty_rec (LEO (append_empty k l))" "lcfg l' = lcfg (append_empty k l)"
    using Log_Append_ok [OF assms(1), of 1 "[]" "[]"] assms(4) by (auto simp: in_i64_def)
  moreover have "start l' = start (append_empty k l)"
    using log_ok_extend(2) [OF assms(1) l'(2) concat_split_append [OF log_ok_facts(7) [OF assms(1)]]] l'(3) by simp
  ultimately show ?thesis using assms(2,3) leo by simp
qed

lemma append_empty_six:
  assumes "log_ok l [[]]" "start l = 0" "MaxSegmentBytes (lcfg l) = 66"
  shows "log_ok (append_empty 6 l) [[empty_rec 0, empty_rec 1], [empty_rec 2, empty_rec 3], [empty_rec 4, empty_rec 5]]
    \<and> start (append_empty 6 l) = 0"
proof -
  note st = append_empty_step [where mb = 66 and l = l] and ev = split_append_def EncodedSize_def
  have "log_ok (append_empty 0 l) [[]] \<and> start (append_empty 0 l) = 0 \<and> MaxSegmentBytes (lcfg (append_empty 0 l)) = 66"
    using assms by simp
  then have "log_ok (append_empty 1 l) [[empty_rec 0]] \<and> start (append_empty 1 l) = 0 \<and> MaxSegmentBytes (lcfg (append_empty 1 l)) = 66"
    using st [of 0 "[[]]"] by (simp add: ev del: append_empty.simps)
  then have "log_ok (append_empty 2 l) [[empty_rec 0, empty_rec 1]] \<and> start (append_empty 2 l) = 0 \<and> MaxSegmentBytes (lcfg (append_empty 2 l)) = 66"
    using st [of 1 "[[empty_rec 0]]"] by (simp add: ev numeral_2_eq_2 del: append_empty.simps)
  then have "log_ok (append_empty 3 l) [[empty_rec 0, empty_rec 1], [empty_rec 2]] \<and> start (append_empty 3 l) = 0 \<and> MaxSegmentBytes (lcfg (append_empty 3 l)) = 66"
    using st [of 2 "[[empty_rec 0, empty_rec 1]]"] by (simp add: ev del: append_empty.simps)
  then have "log_ok (append_empty 4 l) [[empty_rec 0, empty_rec 1], [empty_rec 2, empty_rec 3]] \<and> start (append_empty 4 l) = 0 \<and> MaxSegmentBytes (lcfg (append_empty 4 l)) = 66"
    using st [of 3 "[[empty_rec 0, empty_rec 1], [empty_rec 2]]"] by (simp add: ev del: append_empty.simps)
  then have "log_ok (append_empty 5 l) [[empty_rec 0, empty_rec 1], [empty_rec 2, empty_rec 3], [empty_rec 4]] \<and> start (append_empty 5 l) = 0 \<and> MaxSegmentBytes (lcfg (append_empty 5 l)) = 66"
    using st [of 4 "[[empty_rec 0, empty_rec 1], [empty_rec 2, empty_rec 3]]"] by (simp add: ev del: append_empty.simps)
  then show ?thesis
    using st [of 5 "[[empty_rec 0, empty_rec 1], [empty_rec 2, empty_rec 3], [empty_rec 4]]"] by (simp add: ev del: append_empty.simps)
qed

abbreviation small_cfg :: LogConfig where
  "small_cfg \<equiv> \<lparr>MaxSegmentBytes = 66, IndexInterval = 4096, FsyncEvery = 0\<rparr>"

lemma six_records:
  obtains l a b c where "Log_Open no_fault small_cfg [] = Inr l" "log_inv (append_empty 6 l)"
    "contents (append_empty 6 l) = map empty_rec [0, 1, 2, 3, 4, 5]"
    "LEO (append_empty 6 l) = 6" "start (append_empty 6 l) = 0" "segments (append_empty 6 l) = [a, b, c]"
    "seg_ok a [empty_rec 0, empty_rec 1]" "seg_ok b [empty_rec 2, empty_rec 3]" "seg_ok c [empty_rec 4, empty_rec 5]"
    "baseOffset a = 0" "nextOffset a = 2" "baseOffset b = 2" "nextOffset b = 4" "baseOffset c = 4" "nextOffset c = 6"
proof -
  obtain l where l: "Log_Open no_fault small_cfg [] = Inr l" "log_ok l [[]]" "start l = 0" "MaxSegmentBytes (lcfg l) = 66"
    using Log_Open_empty [of small_cfg] by (auto simp: norm_cfg_def)
  have ok: "log_ok (append_empty 6 l) [[empty_rec 0, empty_rec 1], [empty_rec 2, empty_rec 3], [empty_rec 4, empty_rec 5]]"
      "start (append_empty 6 l) = 0"
    using append_empty_six [OF l(2-4)] by (simp_all del: append_empty.simps)
  obtain a b c where ss: "segments (append_empty 6 l) = [a, b, c]" "seg_ok a [empty_rec 0, empty_rec 1]"
      "seg_ok b [empty_rec 2, empty_rec 3]" "seg_ok c [empty_rec 4, empty_rec 5]"
    using log_ok_segments [OF ok(1)] by (auto simp: list_all2_Cons2)
  have "baseOffset a = 0" "nextOffset a = 2" "baseOffset b = 2" "nextOffset b = 4" "baseOffset c = 4" "nextOffset c = 6"
    using log_ok_segments [OF ok(1)] ss ok(2) by (auto simp: seg_ok_def)
  moreover have "LEO (append_empty 6 l) = 6" using log_ok_facts(2) [OF ok(1)] ok(2) by simp
  moreover have "contents (append_empty 6 l) = map empty_rec [0, 1, 2, 3, 4, 5]"
    using contents_eq [OF ok(1)] by simp
  moreover have "log_inv (append_empty 6 l)" using ok(1) by (auto simp: log_inv_def)
  ultimately show ?thesis using that [OF l(1)] ok(2) ss by blast
qed

text \<open>
  C1.  Crash recovery of a log: whatever prefix of the active log file a crash left, and
  whatever its index file holds, \<open>Open\<close> succeeds; the log is well-formed and holds every
  record of the closed segments and the records of the active segment that were written
  completely, all of them if the file is complete.  The high watermark starts again at
  zero.  (An empty log file beside a non-empty index file is excluded, see
  \<open>stale_index_hides_records\<close>.)
\<close>

theorem crash_recovery:
  assumes "log_ok l rss" "0 < k \<and> last rss \<noteq> [] \<or> ixb = []" "MaxSegmentBytes cfg \<le> 4294967296"
  shows "\<exists>l'. Log_Open no_fault cfg (crash_disk l k ixb) = Inr l' \<and> log_inv l' \<and> start l' = start l
    \<and> contents l' = concat (butlast rss) @ take (whole enc k (last rss)) (last rss)
    \<and> prefix (contents l') (contents l)
    \<and> (length (fbytes (logFile (active l))) \<le> k \<longrightarrow> contents l' = contents l)
    \<and> HighWatermark l' = 0"
proof -
  let ?rs = "take (whole enc k (last rss)) (last rss)"
  obtain l' where l': "Log_Open no_fault cfg (crash_disk l k ixb) = Inr l'" "log_ok l' (butlast rss @ [?rs])"
      "start l' = start l" "hw l' = 0"
    using Log_Open_crash [OF assms] by blast
  have c: "contents l' = concat (butlast rss) @ ?rs" using contents_eq [OF l'(2)] by simp
  have cl: "contents l = concat (butlast rss) @ last rss"
    using contents_eq [OF assms(1)] closed_segments(2) [OF assms(1)]
    by (metis concat.simps concat_append append_Nil2)
  have "?rs = last rss" if "length (fbytes (logFile (active l))) \<le> k"
    using that log_ok_facts(8) [OF assms(1)] whole_all [of enc "last rss" k] by (simp add: seg_ok_def)
  then show ?thesis using l' c cl by (auto simp: log_inv_def HighWatermark_def take_is_prefix)
qed

theorem crash_recovery_witness:
  "\<exists>l l'. Log_Open no_fault example_cfg [] = Inr l
    \<and> Log_Open no_fault example_cfg (crash_disk (append_empty 2 l) 50 []) = Inr l'
    \<and> contents l' = [empty_rec 0] \<and> log_inv l'"
proof -
  obtain l where l: "Log_Open no_fault example_cfg [] = Inr l" "log_ok l [[]]" "start l = 0"
      "MaxSegmentBytes (lcfg l) = 1048576"
    using Log_Open_empty [of example_cfg] by (auto simp: norm_cfg_def DefaultMaxSegmentBytes_def)
  have "log_ok (append_empty 1 l) [[empty_rec 0]] \<and> start (append_empty 1 l) = 0
      \<and> MaxSegmentBytes (lcfg (append_empty 1 l)) = 1048576"
    using append_empty_step [of 0 l "[[]]" 1048576] l(2-4) by (simp add: split_append_def)
  then have ok: "log_ok (append_empty 2 l) [[empty_rec 0, empty_rec 1]]"
    using append_empty_step [of 1 l "[[empty_rec 0]]" 1048576]
    by (simp add: split_append_def EncodedSize_def numeral_2_eq_2 del: append_empty.simps)
  have "whole enc 50 [empty_rec 0, empty_rec 1] = 1" by (simp add: EncodedSize_def)
  then show ?thesis using l(1) crash_recovery [OF ok, of 50 "[]" example_cfg] by auto
qed

text \<open>
  C13.  Progress and safety of \<open>Read\<close>: from an offset the log holds, a read succeeds and its
  first record is the one asked for; all records returned are records of the log in the
  range, in log order and each at most once; all but the last one together stay below the
  byte budget.  The last one can go beyond it (\<open>Read_over_budget\<close>).
\<close>

theorem read_progress:
  assumes "log_inv l" "start l \<le> f" "f < LEO l" "f < read_limit l m"
  shows "\<exists>r new. Read l f mb m = Inr (r # new) \<and> Offset r = f
    \<and> subseq (r # new) (visible f (read_limit l m) (contents l))
    \<and> int (rec_bytes (butlast (r # new))) < read_budget mb"
  using Read_sound [OF assms] .

theorem read_progress_witness:
  "\<exists>l r new. Log_Open no_fault small_cfg [] = Inr l \<and> Read (append_empty 6 l) 3 40 (-1) = Inr (r # new) \<and> Offset r = 3"
proof -
  obtain l a b c where "Log_Open no_fault small_cfg [] = Inr l" "log_inv (append_empty 6 l)"
      "LEO (append_empty 6 l) = 6" "start (append_empty 6 l) = 0"
    by (rule six_records) blast
  then show ?thesis using read_progress [of "append_empty 6 l" 3 "-1" 40] by (auto simp del: append_empty.simps)
qed

text \<open>
  The comment of \<open>Read\<close> promises records \<^verbatim>\<open>totaling up to maxBytes\<close>.  The first record of every
  segment is returned whatever is left of the budget: here a read with a budget of 50 bytes
  returns the last record of one segment and the first of the next, 66 bytes together.
\<close>

theorem Read_over_budget:
  "\<exists>l. Log_Open no_fault small_cfg [] = Inr l
    \<and> Read (append_empty 6 l) 1 50 (-1) = Inr [empty_rec 1, empty_rec 2] \<and> rec_bytes [empty_rec 1, empty_rec 2] = 66"
proof (rule six_records)
  fix l a b c
  assume l: "Log_Open no_fault small_cfg [] = Inr l" "LEO (append_empty 6 l) = 6" "segments (append_empty 6 l) = [a, b, c]"
    and ok: "seg_ok a [empty_rec 0, empty_rec 1]" "seg_ok b [empty_rec 2, empty_rec 3]" "seg_ok c [empty_rec 4, empty_rec 5]"
    and ofs: "baseOffset a = 0" "nextOffset a = 2" "baseOffset b = 2" "nextOffset b = 4" "baseOffset c = 4" "nextOffset c = 6"
  note rd = readFrom_visible [OF ok(1)] readFrom_visible [OF ok(2)] readFrom_visible [OF ok(3)]
  have "Read (append_empty 6 l) 1 50 (-1) = Inr [empty_rec 1, empty_rec 2]"
    using Read_unfold [of 1 "append_empty 6 l" "-1" 50] l(2)
    by (simp add: l(3) ofs rd Let_def EncodedSize_def i64_id in_i64_def del: append_empty.simps)
  moreover have "rec_bytes [empty_rec 1, empty_rec 2] = 66" by (simp add: EncodedSize_def)
  ultimately show ?thesis using l(1) by blast
qed

text \<open>
  A read whose visible records fit the byte budget returns all of them, however many
  segments they are spread over.
\<close>

theorem read_complete:
  assumes "log_inv l" "start l \<le> f"
    "int (rec_bytes (visible f (read_limit l m) (contents l))) \<le> read_budget mb"
  shows "Read l f mb m = Inr (visible f (read_limit l m) (contents l))"
  using Read_complete [OF assms] .

theorem read_complete_witness:
  "\<exists>l. Log_Open no_fault small_cfg [] = Inr l \<and> Read (append_empty 6 l) 1 0 5 = Inr (map empty_rec [1, 2, 3, 4])"
proof -
  obtain l a b c where "Log_Open no_fault small_cfg [] = Inr l" "log_inv (append_empty 6 l)"
      "contents (append_empty 6 l) = map empty_rec [0, 1, 2, 3, 4, 5]" "start (append_empty 6 l) = 0"
    by (rule six_records) blast
  then show ?thesis using read_complete [of "append_empty 6 l" 1 5 0]
    by (auto simp: EncodedSize_def simp del: append_empty.simps)
qed

text \<open>
  A read whose range touches at most two segments returns a contiguous run of the
  log from the requested offset on.
\<close>

theorem read_contiguous:
  assumes "log_inv l" "start l \<le> f" "f < LEO l" "f < read_limit l m"
    "spans f (read_limit l m) (segments l) \<le> 2"
  shows "\<exists>out. Read l f mb m = Inr out \<and> out \<noteq> [] \<and> prefix out (visible f (read_limit l m) (contents l))"
  using Read_contiguous [OF assms] .

theorem read_contiguous_witness:
  "\<exists>l out. Log_Open no_fault small_cfg [] = Inr l \<and> Read (append_empty 6 l) 2 50 (-1) = Inr out
    \<and> out \<noteq> [] \<and> prefix out (map empty_rec [2, 3, 4, 5])"
proof -
  obtain l a b c where l: "Log_Open no_fault small_cfg [] = Inr l" "log_inv (append_empty 6 l)"
      "contents (append_empty 6 l) = map empty_rec [0, 1, 2, 3, 4, 5]" "LEO (append_empty 6 l) = 6"
      "start (append_empty 6 l) = 0" "segments (append_empty 6 l) = [a, b, c]"
      "nextOffset a = 2" "nextOffset b = 4" "nextOffset c = 6"
    by (rule six_records) blast
  then have "spans 2 6 (segments (append_empty 6 l)) \<le> 2" by (simp add: spans_def del: append_empty.simps)
  then show ?thesis using l read_contiguous [of "append_empty 6 l" 2 "-1" 50]
    by (auto simp del: append_empty.simps)
qed

text \<open>
  C39.  \<open>Read\<close> can step over a whole segment.  When the byte budget stops the read inside one
  segment, the next segment returns nothing for the offset inside the previous one, and the
  loop then sets \<open>from\<close> to the end of that next segment and goes on with the one after it.
  Here six 33-byte records are appended to a log whose segments hold two of them; a read
  from offset 0 with a budget of 50 bytes returns the records 0 and 4, and a consumer that
  continues after the last record it got never sees the records 1, 2 and 3.
\<close>

theorem Read_skips_segment:
  "\<exists>l. Log_Open no_fault small_cfg [] = Inr l
    \<and> contents (append_empty 6 l) = map empty_rec [0, 1, 2, 3, 4, 5]
    \<and> Read (append_empty 6 l) 0 50 (-1) = Inr [empty_rec 0, empty_rec 4]"
proof (rule six_records)
  fix l a b c
  assume l: "Log_Open no_fault small_cfg [] = Inr l" "contents (append_empty 6 l) = map empty_rec [0, 1, 2, 3, 4, 5]"
    "LEO (append_empty 6 l) = 6" "segments (append_empty 6 l) = [a, b, c]"
    and ok: "seg_ok a [empty_rec 0, empty_rec 1]" "seg_ok b [empty_rec 2, empty_rec 3]" "seg_ok c [empty_rec 4, empty_rec 5]"
    and ofs: "baseOffset a = 0" "nextOffset a = 2" "baseOffset b = 2" "nextOffset b = 4" "baseOffset c = 4" "nextOffset c = 6"
  note rd = readFrom_visible [OF ok(1)] readFrom_visible [OF ok(2)] readFrom_visible [OF ok(3)]
  have "Read (append_empty 6 l) 0 50 (-1) = Inr [empty_rec 0, empty_rec 4]"
    using Read_unfold [of 0 "append_empty 6 l" "-1" 50] l(3)
    by (simp add: l(4) ofs rd Let_def EncodedSize_def i64_id in_i64_def del: append_empty.simps)
  with l show ?thesis by blast
qed

end
