(* ===== verification/LS_Routing.thy ===== *)
theory LS_Routing
  imports LS_Stdlib
begin

text \<open>
  Partition selection for produced records (\<^verbatim>\<open>src/internal/routing/partitioner.go\<close>).
  \<open>None\<close> is the division by zero that a keyed record meets when the low 32 bits of the
  partition count are zero.
\<close>

record Partitioner =
  rr :: uint64

definition Partition :: "Partitioner \<Rightarrow> byte list \<Rightarrow> int \<Rightarrow> int option \<times> Partitioner" where
  "Partition p key numPartitions =
     (if numPartitions \<le> 0 then (Some 0, p)
      else if key = [] then
        (let n = rr p + 1
         in (Some (uint ((n - 1) mod word_of_int numPartitions)), p\<lparr>rr := n\<rparr>))
      else
        (let d = (word_of_int numPartitions :: uint32)
         in if d = 0 then (None, p) else (Some (uint (fnv32a key mod d)), p)))"

definition Hash32 :: "byte list \<Rightarrow> uint32" where
  "Hash32 key = fnv32a key"

text \<open>\<open>k\<close> calls in a row without a key.\<close>

primrec spread :: "nat \<Rightarrow> Partitioner \<Rightarrow> int \<Rightarrow> int option list" where
  "spread 0 p n = []"
| "spread (Suc k) p n = (let (r, p') = Partition p [] n in r # spread k p' n)"

lemma uint_word_mod:
  assumes "0 < n" "n < 2 ^ LENGTH('a::len)"
  shows "uint (w mod word_of_int n :: 'a word) = uint w mod n"
  using assms by (simp add: uint_mod_distrib uint_word_of_int_eq take_bit_int_eq_self)

lemma Partition_keyed:
  assumes "key \<noteq> []" "0 < n" "n < 4294967296"
  shows "Partition p key n = (Some (uint (Hash32 key) mod n), p)"
proof -
  have "uint (word_of_int n :: uint32) = n"
    using assms by (simp add: uint_word_of_int_eq take_bit_int_eq_self)
  then have "(word_of_int n :: uint32) \<noteq> 0" using assms(2) by auto
  then show ?thesis
    using assms uint_word_mod [where 'a = 32, of n] by (simp add: Partition_def Hash32_def Let_def)
qed

lemma Partition_rr:
  assumes "0 < n" "in_i64 n"
  shows "Partition p [] n = (Some (uint (rr p) mod n), p\<lparr>rr := rr p + 1\<rparr>)"
  using assms uint_word_mod [where 'a = 64, of n] by (simp add: Partition_def Let_def in_i64_def)

text \<open>
  C34.  The partition is always in range; for a record with a key it depends on the key and
  the number of partitions only (records with equal keys go to the same partition and so
  stay in order), and it is the FNV-1a hash modulo the number of partitions.
\<close>

theorem partition_in_range:
  assumes "0 < n" "n < 4294967296"
  shows "(\<exists>r. fst (Partition p key n) = Some r \<and> 0 \<le> r \<and> r < n)
    \<and> (key \<noteq> [] \<longrightarrow> Partition p key n = (Some (uint (Hash32 key) mod n), p))"
  using assms Partition_keyed [of key n p] Partition_rr [of n p]
  by (cases "key = []") (auto simp: in_i64_def)

theorem partition_in_range_witness:
  "fst (Partition \<lparr>rr = 7\<rparr> [] 3) = Some 1 \<and> (\<exists>r. fst (Partition \<lparr>rr = 7\<rparr> [97] 3) = Some r \<and> 0 \<le> r \<and> r < 3)"
  using partition_in_range [of 3 "\<lparr>rr = 7\<rparr>" "[97]"] Partition_rr [of 3 "\<lparr>rr = 7\<rparr>"] by (simp add: in_i64_def)

lemma spread_values:
  assumes "0 < n" "in_i64 n" "uint (rr p) + int k < 2 ^ 64"
  shows "spread k p n = map (\<lambda>i. Some ((uint (rr p) + int i) mod n)) [0..<k]"
  using assms(3)
proof (induction k arbitrary: p)
  case 0
  then show ?case by simp
next
  case (Suc k)
  have "uint (rr p + 1) = uint (rr p) + 1"
    using Suc.prems by (simp add: uint_word_ariths)
  then have "spread k (p\<lparr>rr := rr p + 1\<rparr>) n = map (\<lambda>i. Some ((uint (rr p) + int (Suc i)) mod n)) [0..<k]"
    using Suc.IH [of "p\<lparr>rr := rr p + 1\<rparr>"] Suc.prems by (simp add: algebra_simps)
  moreover have "[0..<Suc k] = 0 # map Suc [0..<k]" by (simp add: map_Suc_upt upt_conv_Cons)
  ultimately show ?case using Partition_rr [OF assms(1,2), of p] by (simp add: comp_def del: upt_Suc)
qed

text \<open>
  Round robin: as many records without a key as there are partitions go to every
  partition exactly once, wherever the counter stands (short of its wrap-around at
  \<open>2^64\<close>, where one step is out of turn unless the count divides \<open>2^64\<close>).
\<close>

theorem round_robin_fair:
  assumes "0 < n" "uint (rr p) + n < 2 ^ 64" "in_i64 n"
  shows "distinct (spread (nat n) p n) \<and> set (spread (nat n) p n) = Some ` {0..<n}"
proof -
  let ?f = "\<lambda>i. (uint (rr p) + int i) mod n"
  have sp: "spread (nat n) p n = map (Some \<circ> ?f) [0..<nat n]"
    using spread_values [of n p "nat n"] assms by (simp add: comp_def)
  have inj: "inj_on ?f {0..<nat n}"
  proof (rule inj_onI)
    fix i j assume ij: "i \<in> {0..<nat n}" "j \<in> {0..<nat n}" "?f i = ?f j"
    then have "n dvd int i - int j" by (simp add: mod_eq_dvd_iff)
    moreover have "\<bar>int i - int j\<bar> < n" using ij(1,2) by auto
    ultimately show "i = j" using zdvd_not_zless [of "\<bar>int i - int j\<bar>" n] by (cases "i = j") auto
  qed
  have "?f ` {0..<nat n} \<subseteq> {0..<n}" using assms(1) by auto
  moreover have "card (?f ` {0..<nat n}) = card {0..<n}" using inj by (simp add: card_image)
  ultimately have "?f ` {0..<nat n} = {0..<n}" by (intro card_subset_eq) auto
  then have "set (spread (nat n) p n) = Some ` {0..<n}" by (simp only: sp set_map set_upt image_comp [symmetric])
  moreover have "distinct (spread (nat n) p n)"
    using inj by (auto simp: sp distinct_map comp_inj_on)
  ultimately show ?thesis by simp
qed

theorem round_robin_fair_witness:
  "distinct (spread 3 \<lparr>rr = 8\<rparr> 3) \<and> set (spread 3 \<lparr>rr = 8\<rparr> 3) = Some ` {0..<3}"
  using round_robin_fair [of 3 "\<lparr>rr = 8\<rparr>"] by (simp add: in_i64_def)

end
