(* ===== verification/LS_Assignor.thy ===== *)
theory LS_Assignor
  imports LS_Prelude "HOL-Library.Multiset"
begin

text \<open>
  The range assignor (\<^verbatim>\<open>src/internal/assignor/range.go\<close>), and the contract of an assignor as
  a locale: only members are assigned anything, every partition of every topic goes to
  exactly one member.  The group coordinator relies on the contract only.
\<close>

type_synonym topic_map = "(string \<times> int list) list"
type_synonym assignment = "(string \<times> topic_map) list"

text \<open>What member \<open>m\<close> owns of topic \<open>t\<close>.\<close>

definition owned :: "assignment \<Rightarrow> string \<Rightarrow> string \<Rightarrow> int list" where
  "owned out m t = (case map_of out m of None \<Rightarrow> []
     | Some tm \<Rightarrow> (case map_of tm t of None \<Rightarrow> [] | Some ps \<Rightarrow> ps))"

section \<open>The code\<close>

text \<open>
  The loop of \<open>assignRange\<close> over the members that remain, with \<open>i\<close> the index of the first of
  them.  \<open>RangeAssign\<close> has made an entry in \<open>out\<close> for every member.
\<close>

fun assign_loop ::
    "string list \<Rightarrow> nat \<Rightarrow> nat \<Rightarrow> nat \<Rightarrow> nat \<Rightarrow> string \<Rightarrow> int list \<Rightarrow> assignment \<Rightarrow> assignment" where
  "assign_loop [] i per extra idx topic parts out = out"
| "assign_loop (m # ms) i per extra idx topic parts out =
     (let count = (if i < extra then per + 1 else per) in
      if count = 0 then assign_loop ms (i + 1) per extra idx topic parts out
      else
        (let tm = (case map_of out m of None \<Rightarrow> [] | Some tm \<Rightarrow> tm);
             ps = (case map_of tm topic of None \<Rightarrow> [] | Some ps \<Rightarrow> ps);
             out' = mput m (mput topic (ps @ take count (drop idx parts)) tm) out
         in assign_loop ms (i + 1) per extra (idx + count) topic parts out'))"

definition assignRange :: "string list \<Rightarrow> string \<Rightarrow> int list \<Rightarrow> assignment \<Rightarrow> assignment" where
  "assignRange members topic parts out =
     (let n = length members; p = length parts in
      if n = 0 \<or> p = 0 then out
      else assign_loop members 0 (p div n) (p mod n) 0 topic parts out)"

definition RangeAssign :: "string list \<Rightarrow> topic_map \<Rightarrow> assignment" where
  "RangeAssign members topicPartitions =
     (let ms = sort members;
          out = foldl (\<lambda>o1 m. mput m [] o1) [] ms
      in if ms = [] then out
         else foldl (\<lambda>o1 topic.
                  assignRange ms topic
                    (sort (case map_of topicPartitions topic of None \<Rightarrow> [] | Some ps \<Rightarrow> ps)) o1)
                out (sort (mkeys topicPartitions)))"

section \<open>The contract\<close>

locale assignor =
  fixes assign :: "string list \<Rightarrow> topic_map \<Rightarrow> assignment"
  assumes keys: "set (mkeys (assign ms tps)) = set ms"
    and cover: "\<lbrakk>ms \<noteq> []; distinct ms; go_map tps; map_of tps t = Some ps\<rbrakk>
      \<Longrightarrow> mset (concat (map (\<lambda>m. owned (assign ms tps) m t) ms)) = mset ps"
    and only: "map_of tps t = None \<Longrightarrow> owned (assign ms tps) m t = []"
begin

lemma owned_outside: "m \<notin> set ms \<Longrightarrow> owned (assign ms tps) m t = []"
  using keys [of ms tps] by (auto simp: owned_def set_mkeys split: option.splits)

lemma owned_subset:
  assumes "distinct ms" "go_map tps" "map_of tps t = Some ps" "p \<in> set (owned (assign ms tps) m t)"
  shows "p \<in> set ps" "m \<in> set ms"
proof -
  show m: "m \<in> set ms" using owned_outside assms(4) by force
  then have "p \<in> set (concat (map (\<lambda>m. owned (assign ms tps) m t) ms))" using assms(4) by auto
  moreover have "mset (concat (map (\<lambda>m. owned (assign ms tps) m t) ms)) = mset ps"
    using m by (intro cover [OF _ assms(1-3)]) auto
  ultimately show "p \<in> set ps" by (metis set_mset_mset)
qed

lemma owner_exists:
  assumes "ms \<noteq> []" "distinct ms" "go_map tps" "map_of tps t = Some ps" "p \<in> set ps"
  shows "\<exists>m\<in>set ms. p \<in> set (owned (assign ms tps) m t)"
proof -
  have "p \<in> set (concat (map (\<lambda>m. owned (assign ms tps) m t) ms))"
    using cover [OF assms(1-4)] assms(5) by (metis set_mset_mset)
  then show ?thesis by auto
qed

lemma distinct_concat_disjoint:
  "distinct (concat (map f xs)) \<Longrightarrow> a \<in> set xs \<Longrightarrow> b \<in> set xs \<Longrightarrow> a \<noteq> b \<Longrightarrow> set (f a) \<inter> set (f b) = {}"
  by (induction xs) auto

text \<open>No partition has two owners.\<close>

lemma owner_unique:
  assumes "distinct ms" "go_map tps" "\<forall>ps\<in>snd ` set tps. distinct ps" "a \<noteq> b"
  shows "set (owned (assign ms tps) a t) \<inter> set (owned (assign ms tps) b t) = {}"
proof (cases "a \<in> set ms \<and> b \<in> set ms")
  case True
  show ?thesis
  proof (cases "map_of tps t")
    case None
    then show ?thesis using only by simp
  next
    case (Some ps)
    then have "distinct ps" using assms(3) map_of_SomeD [of tps t ps] by force
    moreover have "mset (concat (map (\<lambda>m. owned (assign ms tps) m t) ms)) = mset ps"
      using True by (intro cover [OF _ assms(1,2) Some]) auto
    ultimately have "distinct (concat (map (\<lambda>m. owned (assign ms tps) m t) ms))"
      by (metis mset_eq_imp_distinct_iff)
    then show ?thesis using distinct_concat_disjoint [of "\<lambda>m. owned (assign ms tps) m t" ms a b] True assms(4) by simp
  qed
next
  case False
  then show ?thesis using owned_outside by auto
qed

end

section \<open>The range assignor meets it\<close>

text \<open>The slices that the members receive, in order.\<close>

fun slices :: "nat \<Rightarrow> nat \<Rightarrow> nat \<Rightarrow> nat \<Rightarrow> nat \<Rightarrow> int list \<Rightarrow> int list list" where
  "slices 0 i per extra idx parts = []"
| "slices (Suc n) i per extra idx parts =
     (let count = (if i < extra then per + 1 else per)
      in take count (drop idx parts) # slices n (i + 1) per extra (idx + count) parts)"

lemma slices_concat:
  "concat (slices n i per extra idx parts) =
     take (n * per + (min (i + n) extra - min i extra)) (drop idx parts)"
proof (induction n arbitrary: i idx)
  case 0
  then show ?case by simp
next
  case (Suc n)
  let ?c = "if i < extra then per + 1 else per"
  let ?rest = "n * per + (min (i + 1 + n) extra - min (i + 1) extra)"
  have "Suc n * per + (min (i + Suc n) extra - min i extra) = ?c + ?rest" by auto
  moreover have "concat (slices (Suc n) i per extra idx parts) =
      take ?c (drop idx parts) @ take ?rest (drop ?c (drop idx parts))"
    using Suc.IH [of "i + 1" "idx + ?c"] by (simp add: Let_def add.commute)
  ultimately show ?case by (simp only: take_add)
qed

lemma slices_length [simp]: "length (slices n i per extra idx parts) = n"
  by (induction n arbitrary: i idx) (auto simp: Let_def)

lemma owned_mput:
  "owned (mput m (mput topic ps (case map_of out m of None \<Rightarrow> [] | Some tm \<Rightarrow> tm)) out) m' t =
     (if m' = m \<and> t = topic then ps else owned out m' t)"
  by (auto simp: owned_def split: option.splits)

lemma owned_mput_append:
  "(let tm = (case map_of out m of None \<Rightarrow> [] | Some tm \<Rightarrow> tm);
        ps = (case map_of tm topic of None \<Rightarrow> [] | Some ps \<Rightarrow> ps)
    in ps) = owned out m topic"
  by (auto simp: owned_def split: option.splits)

lemma assign_loop_Cons:
  "assign_loop (m # ms) i per extra idx topic parts out =
     (let count = (if i < extra then per + 1 else per);
          out' = (if count = 0 then out else mput m (mput topic (owned out m topic @ take count (drop idx parts))
                    (case map_of out m of None \<Rightarrow> [] | Some tm \<Rightarrow> tm)) out)
      in assign_loop ms (i + 1) per extra (idx + count) topic parts out')"
  using owned_mput_append [of out m topic] by (simp add: Let_def)

lemma assign_loop_other:
  "m' \<notin> set ms \<or> t \<noteq> topic \<Longrightarrow>
     owned (assign_loop ms i per extra idx topic parts out) m' t = owned out m' t"
  by (induction ms arbitrary: i idx out)
     (auto simp: assign_loop_Cons Let_def owned_mput simp del: assign_loop.simps(2))

lemma assign_loop_owned:
  assumes "distinct ms" "\<forall>m\<in>set ms. owned out m topic = []"
  shows "map (\<lambda>m. owned (assign_loop ms i per extra idx topic parts out) m topic) ms =
     slices (length ms) i per extra idx parts"
  using assms
proof (induction ms arbitrary: i idx out)
  case Nil
  then show ?case by simp
next
  case (Cons m ms)
  define count where "count = (if i < extra then per + 1 else per)"
  define out' where "out' = (if count = 0 then out else mput m (mput topic (owned out m topic @ take count (drop idx parts))
                    (case map_of out m of None \<Rightarrow> [] | Some tm \<Rightarrow> tm)) out)"
  have loop: "assign_loop (m # ms) i per extra idx topic parts out =
      assign_loop ms (i + 1) per extra (idx + count) topic parts out'"
    by (simp add: assign_loop_Cons count_def out'_def Let_def del: assign_loop.simps(2))
  have m: "owned out' m topic = take count (drop idx parts)"
    using Cons.prems by (simp add: out'_def owned_mput)
  have "\<forall>m'\<in>set ms. owned out' m' topic = []"
    using Cons.prems by (auto simp: out'_def owned_mput)
  then have "map (\<lambda>m. owned (assign_loop ms (i + 1) per extra (idx + count) topic parts out') m topic) ms =
      slices (length ms) (i + 1) per extra (idx + count) parts"
    using Cons.IH [of out' "i + 1" "idx + count"] Cons.prems by simp
  moreover have "owned (assign_loop ms (i + 1) per extra (idx + count) topic parts out') m topic = take count (drop idx parts)"
    using assign_loop_other Cons.prems(1) m by simp
  ultimately show ?case unfolding loop by (simp add: count_def Let_def)
qed

lemma assignRange_other:
  "m \<notin> set ms \<or> t \<noteq> topic \<Longrightarrow> owned (assignRange ms topic parts out) m t = owned out m t"
  by (simp add: assignRange_def Let_def assign_loop_other)

lemma assignRange_owned:
  assumes "distinct ms" "\<forall>m\<in>set ms. owned out m topic = []" "ms \<noteq> []"
  shows "map (\<lambda>m. owned (assignRange ms topic parts out) m topic) ms =
     slices (length ms) 0 (length parts div length ms) (length parts mod length ms) 0 parts"
proof (cases "parts = []")
  case True
  have "slices n i 0 0 0 [] = replicate n []" for n i by (induction n arbitrary: i) auto
  then show ?thesis using True assms(2) by (simp add: assignRange_def map_replicate_const [symmetric])
next
  case False
  then show ?thesis using assign_loop_owned [OF assms(1,2)] assms(3) by (simp add: assignRange_def Let_def)
qed

lemma assign_loop_keys:
  "set ms \<subseteq> set (mkeys out) \<Longrightarrow>
     set (mkeys (assign_loop ms i per extra idx topic parts out)) = set (mkeys out)"
  by (induction ms arbitrary: i idx out) (simp_all add: Let_def insert_absorb subset_insertI2)

lemma assignRange_keys:
  "set ms \<subseteq> set (mkeys out) \<Longrightarrow> set (mkeys (assignRange ms topic parts out)) = set (mkeys out)"
  by (simp add: assignRange_def Let_def assign_loop_keys)

text \<open>The topics one after the other.\<close>

abbreviation assign_topics :: "string list \<Rightarrow> topic_map \<Rightarrow> string list \<Rightarrow> assignment \<Rightarrow> assignment" where
  "assign_topics ms tps ts out \<equiv> foldl (\<lambda>o1 topic. assignRange ms topic
      (sort (case map_of tps topic of None \<Rightarrow> [] | Some ps \<Rightarrow> ps)) o1) out ts"

lemma assign_topics_other:
  "m \<notin> set ms \<or> t \<notin> set ts \<Longrightarrow> owned (assign_topics ms tps ts out) m t = owned out m t"
  by (induction ts arbitrary: out) (auto simp: assignRange_other)

lemma assign_topics_keys:
  "set ms \<subseteq> set (mkeys out) \<Longrightarrow> set (mkeys (assign_topics ms tps ts out)) = set (mkeys out)"
  by (induction ts arbitrary: out) (auto simp: assignRange_keys)

lemma assign_topics_owned:
  assumes "distinct ms" "ms \<noteq> []" "distinct ts" "t \<in> set ts" "map_of tps t = Some ps"
    "\<forall>m\<in>set ms. owned out m t = []"
  shows "map (\<lambda>m. owned (assign_topics ms tps ts out) m t) ms =
     slices (length ms) 0 (length ps div length ms) (length ps mod length ms) 0 (sort ps)"
  using assms(3,4,6)
proof (induction ts arbitrary: out)
  case Nil
  then show ?case by simp
next
  case (Cons u ts)
  let ?out = "assignRange ms u (sort (case map_of tps u of None \<Rightarrow> [] | Some ps \<Rightarrow> ps)) out"
  show ?case
  proof (cases "u = t")
    case True
    then have "t \<notin> set ts" using Cons.prems(1) by simp
    then have "map (\<lambda>m. owned (assign_topics ms tps (u # ts) out) m t) ms = map (\<lambda>m. owned ?out m t) ms"
      by (simp add: assign_topics_other)
    then show ?thesis using assignRange_owned [OF assms(1) Cons.prems(3) assms(2), of "sort ps"] True assms(5) by simp
  next
    case False
    have "\<forall>m\<in>set ms. owned ?out m t = []" using Cons.prems(3) False by (simp add: assignRange_other)
    then show ?thesis using Cons.IH [of ?out] Cons.prems False by simp
  qed
qed

lemma init_out:
  "owned (foldl (\<lambda>o1 m. mput m [] o1) out ms) m t = (if m \<in> set ms then [] else owned out m t)"
  "set (mkeys (foldl (\<lambda>o1 m. mput m [] o1) out ms)) = set ms \<union> set (mkeys out)"
  by (induction ms arbitrary: out) (auto simp: owned_def)

lemma RangeAssign_keys: "set (mkeys (RangeAssign ms tps)) = set ms"
  unfolding RangeAssign_def Let_def using init_out(2) [of "[]" "sort ms"]
  by (simp add: assign_topics_keys) (simp add: mkeys_def)

lemma RangeAssign_slices:
  assumes "distinct ms" "ms \<noteq> []" "go_map tps" "map_of tps t = Some ps"
  shows "map (\<lambda>m. owned (RangeAssign ms tps) m t) (sort ms) =
     slices (length ms) 0 (length ps div length ms) (length ps mod length ms) 0 (sort ps)"
proof -
  let ?out = "foldl (\<lambda>o1 m. mput m [] o1) [] (sort ms)"
  have "t \<in> set (sort (mkeys tps))" using assms(4) by (auto simp: set_mkeys)
  moreover have "distinct (sort (mkeys tps))" using assms(3) by (simp add: go_map_def)
  moreover have "\<forall>m\<in>set (sort ms). owned ?out m t = []" by (simp add: init_out)
  ultimately show ?thesis
    using assign_topics_owned [of "sort ms" "sort (mkeys tps)" t tps ps ?out] assms
    by (simp add: RangeAssign_def Let_def)
qed

lemma slices_all:
  "0 < n \<Longrightarrow> concat (slices n 0 (length ps div n) (length ps mod n) 0 (sort ps)) = sort ps"
  by (simp add: slices_concat min.absorb2 less_imp_le)

lemma mset_concat_map: "mset (concat (map f xs)) = (\<Sum>x\<in>#mset xs. mset (f x))"
  by (induction xs) auto

interpretation ra: assignor RangeAssign
proof
  fix ms :: "string list" and tps :: topic_map and t m :: string and ps :: "int list"
  show "set (mkeys (RangeAssign ms tps)) = set ms" by (rule RangeAssign_keys)
  show "map_of tps t = None \<Longrightarrow> owned (RangeAssign ms tps) m t = []"
  proof -
    assume "map_of tps t = None"
    then have "t \<notin> set (sort (mkeys tps))" by (auto simp: set_mkeys)
    then show ?thesis by (simp add: RangeAssign_def Let_def assign_topics_other init_out owned_def [of "[]"])
  qed
  assume a: "ms \<noteq> []" "distinct ms" "go_map tps" "map_of tps t = Some ps"
  have "concat (map (\<lambda>m. owned (RangeAssign ms tps) m t) (sort ms)) = sort ps"
    using RangeAssign_slices [OF a(2,1,3,4)] slices_all [of "length ms" ps] a(1) by simp
  then have "mset (concat (map (\<lambda>m. owned (RangeAssign ms tps) m t) (sort ms))) = mset ps" by simp
  then show "mset (concat (map (\<lambda>m. owned (RangeAssign ms tps) m t) ms)) = mset ps"
    by (simp add: mset_concat_map)
qed

lemma slices_nth:
  "\<lbrakk>idx + n * per + (min (i + n) extra - min i extra) \<le> length parts; j < n\<rbrakk> \<Longrightarrow>
     length (slices n i per extra idx parts ! j) = (if i + j < extra then per + 1 else per)"
proof (induction n arbitrary: i idx j)
  case 0
  then show ?case by simp
next
  case (Suc n)
  let ?c = "if i < extra then per + 1 else per"
  have le: "idx + ?c + n * per + (min (i + 1 + n) extra - min (i + 1) extra) \<le> length parts"
    using Suc.prems(1) by auto
  show ?case
  proof (cases j)
    case 0
    then show ?thesis using le by (auto simp: Let_def)
  next
    case (Suc k)
    then show ?thesis using Suc.IH [OF le, of k] Suc.prems(2) by (simp add: Let_def)
  qed
qed

text \<open>
  C33.  The range assignment of a topic: going through the members in sorted order, the
  lists they are given, put together, are exactly the sorted partitions of the topic, so
  each partition has one owner and each member a contiguous range; and every member gets
  the same number of partitions, with one more for the first ones when the division
  leaves a remainder.
\<close>

theorem range_assign_exact:
  assumes "distinct ms" "ms \<noteq> []" "go_map tps" "map_of tps t = Some ps"
  shows "concat (map (\<lambda>m. owned (RangeAssign ms tps) m t) (sort ms)) = sort ps
    \<and> (\<forall>i<length ms. length (owned (RangeAssign ms tps) (sort ms ! i) t) =
         length ps div length ms + (if i < length ps mod length ms then 1 else 0))"
proof -
  note sl = RangeAssign_slices [OF assms]
  have "concat (map (\<lambda>m. owned (RangeAssign ms tps) m t) (sort ms)) = sort ps"
    unfolding sl using slices_all [of "length ms" ps] assms(2) by simp
  moreover have "length (owned (RangeAssign ms tps) (sort ms ! i) t) =
         length ps div length ms + (if i < length ps mod length ms then 1 else 0)" if "i < length ms" for i
  proof -
    have "owned (RangeAssign ms tps) (sort ms ! i) t = map (\<lambda>m. owned (RangeAssign ms tps) m t) (sort ms) ! i"
      using that by simp
    moreover have "length ms * (length ps div length ms) + length ps mod length ms = length ps" by simp
    ultimately show ?thesis
      using slices_nth [of 0 "length ms" "length ps div length ms" 0 "length ps mod length ms" "sort ps" i] that assms(2)
      unfolding sl by (simp add: min.absorb2 less_imp_le)
  qed
  ultimately show ?thesis by blast
qed

theorem range_assign_exact_witness:
  "concat (map (\<lambda>m. owned (RangeAssign [''b'', ''a''] [(''t'', [2, 0, 1])]) m ''t'') (sort [''b'', ''a''])) = sort [2, 0, 1]"
  using range_assign_exact [of "[''b'', ''a'']" "[(''t'', [2, 0, 1])]" "''t''" "[2, 0, 1]"] by (simp add: go_map_def mkeys_def)

end
