(* ===== verification/LS_Group.thy ===== *)
theory LS_Group
  imports LS_Stdlib LS_Assignor "HOL-Library.Product_Lexorder"
begin

text \<open>
  The consumer group coordinator (\<^verbatim>\<open>src/internal/group/coordinator.go\<close>).  Every method runs
  under the mutex of the coordinator, so each is one atomic function.  Readings of the
  clock, the generated member id, and whether the offsets file can be written are
  arguments; \<open>pf\<close> is the function \<open>partitionsOf\<close> (\<open>None\<close> for \<open>nil\<close>).  The field \<open>hookCalls\<close> records
  the calls of the offset hook, which the broker supplies.  Generation counters are not
  wrapped: an \<open>int\<close> counter does not reach its end.
\<close>

datatype group_error =
    ErrUnknownMember
  | ErrGenerationMismatch
  | ErrRebalanceInProgress
  | ErrUnknownGroup
  | ErrPersist

datatype State = Empty | PreparingRebalance | CompletingRebalance | Stable

definition State_String :: "State \<Rightarrow> string" where
  "State_String s = (case s of Empty \<Rightarrow> ''Empty'' | PreparingRebalance \<Rightarrow> ''PreparingRebalance''
     | CompletingRebalance \<Rightarrow> ''CompletingRebalance'' | Stable \<Rightarrow> ''Stable'')"

record Member =
  mID :: string
  Topics :: "string list"
  LastHeartbeat :: int
  Joined :: bool
  Synced :: bool
  Assignment :: "topic_map option"

record Group =
  gID :: string
  gState :: State
  Generation :: int
  Members :: "(string \<times> Member) list"
  Leader :: string

record JoinResult =
  jMemberID :: string
  jGeneration :: int
  jLeaderID :: string
  jMembers :: "string list"
  jState :: string

record OffsetEntry =
  oTopic :: string
  oPartition :: int
  oOffset :: int

record Coordinator =
  groups :: "(string \<times> Group) list"
  offsets :: "(string \<times> int) list"
  offsetFile :: "(string \<times> int) list json_file"
  sessionTimeout :: int
  rebalanceWait :: int
  hookSet :: bool
  hookCalls :: "(string \<times> string \<times> int \<times> int) list"

type_synonym partitions_fun = "(string \<Rightarrow> int list) option"

section \<open>Construction and offsets file\<close>

definition loadOffsets :: "Coordinator \<Rightarrow> Coordinator" where
  "loadOffsets c = (case offsetFile c of JSON m \<Rightarrow> c\<lparr>offsets := m\<rparr> | _ \<Rightarrow> c)"

definition Coordinator_New :: "(string \<times> int) list json_file \<Rightarrow> int \<Rightarrow> int \<Rightarrow> Coordinator" where
  "Coordinator_New stored session0 rebalance0 =
     (let session = (if session0 \<le> 0 then 10000000000 else session0);
          rebalance = (if rebalance0 \<le> 0 then 2000000000 else rebalance0)
      in loadOffsets \<lparr>groups = [], offsets = [], offsetFile = stored, sessionTimeout = session,
           rebalanceWait = rebalance, hookSet = False, hookCalls = []\<rparr>)"

definition SetOffsetHook :: "Coordinator \<Rightarrow> bool \<Rightarrow> Coordinator" where
  "SetOffsetHook c isSet = c\<lparr>hookSet := isSet\<rparr>"

definition offsetKey :: "string \<Rightarrow> string \<Rightarrow> int \<Rightarrow> string" where
  "offsetKey grp topic part = grp @ ''/'' @ topic @ ''/'' @ Itoa part"

text \<open>\<open>writable\<close>: every file operation of the call succeeds.\<close>

definition persistOffsetsLocked :: "bool \<Rightarrow> Coordinator \<Rightarrow> group_error option \<times> Coordinator" where
  "persistOffsetsLocked writable c =
     (if \<not> writable then (Some ErrPersist, c) else (None, c\<lparr>offsetFile := JSON (offsets c)\<rparr>))"

definition new_group :: "string \<Rightarrow> Group" where
  "new_group i = \<lparr>gID = i, gState = Empty, Generation = 0, Members = [], Leader = ''''\<rparr>"

definition group :: "Coordinator \<Rightarrow> string \<Rightarrow> Group \<times> Coordinator" where
  "group c i =
     (case map_of (groups c) i of
        Some g \<Rightarrow> (g, c)
      | None \<Rightarrow> (new_group i, c\<lparr>groups := mput i (new_group i) (groups c)\<rparr>))"

definition put_group :: "Coordinator \<Rightarrow> string \<Rightarrow> Group \<Rightarrow> Coordinator" where
  "put_group c i g = c\<lparr>groups := mput i g (groups c)\<rparr>"

section \<open>Rebalancing\<close>

definition beginRebalanceLocked :: "Group \<Rightarrow> Group" where
  "beginRebalanceLocked g =
     g\<lparr>gState := PreparingRebalance, Generation := Generation g + 1, Leader := '''',
       Members := mvals (\<lambda>m. m\<lparr>Joined := False, Synced := False, Assignment := None\<rparr>) (Members g)\<rparr>"

definition finishAssignmentLocked :: "partitions_fun \<Rightarrow> Group \<Rightarrow> Group" where
  "finishAssignmentLocked pf g =
     (if Members g = [] then g\<lparr>gState := Empty, Leader := ''''\<rparr>
      else
        (let ids = sort (mkeys (Members g));
             subs = remdups (concat (map (\<lambda>(i, m). Topics m) (Members g)));
             tp = (case pf of None \<Rightarrow> [] | Some f \<Rightarrow> map (\<lambda>t. (t, f t)) subs);
             asg = RangeAssign ids tp
         in g\<lparr>Leader := hd ids,
              Members := map (\<lambda>(i, m). (i, case map_of asg i of None \<Rightarrow> m
                                | Some ts \<Rightarrow> m\<lparr>Assignment := Some ts, Synced := False\<rparr>)) (Members g),
              gState := CompletingRebalance\<rparr>))"

definition maybeCompleteJoinLocked :: "partitions_fun \<Rightarrow> int \<Rightarrow> int \<Rightarrow> Group \<Rightarrow> Group" where
  "maybeCompleteJoinLocked pf now session g =
     (let kept = filter (\<lambda>(i, m). \<not> now - LastHeartbeat m > session) (Members g);
          allJoined = list_all (\<lambda>(i, m). Joined m) kept;
          g1 = g\<lparr>Members := kept\<rparr>
      in if \<not> allJoined \<and> kept \<noteq> [] then g1 else finishAssignmentLocked pf g1)"

text \<open>\<open>now1\<close> stamps the heartbeat, \<open>now2\<close> is read in \<open>maybeCompleteJoinLocked\<close>.\<close>

definition Join ::
    "partitions_fun \<Rightarrow> int \<Rightarrow> int \<Rightarrow> string \<Rightarrow> Coordinator \<Rightarrow> string \<Rightarrow> string \<Rightarrow> string list
     \<Rightarrow> JoinResult \<times> Coordinator" where
  "Join pf now1 now2 newID c groupID memberID0 topics =
     (let (g0, c0) = group c groupID;
          memberID = (if memberID0 = '''' then newID else memberID0);
          m0 = (case map_of (Members g0) memberID of Some m \<Rightarrow> m
                | None \<Rightarrow> \<lparr>mID = memberID, Topics = [], LastHeartbeat = 0, Joined = False,
                           Synced = False, Assignment = None\<rparr>);
          m1 = m0\<lparr>Topics := topics, LastHeartbeat := now1, Synced := False\<rparr>;
          g1 = g0\<lparr>Members := mput memberID m1 (Members g0)\<rparr>;
          g2 = (if gState g1 \<noteq> PreparingRebalance then beginRebalanceLocked g1 else g1);
          g3 = g2\<lparr>Members := map (\<lambda>(i, m). (i, if i = memberID then m\<lparr>Joined := True\<rparr> else m)) (Members g2)\<rparr>;
          g4 = (if gState g3 = PreparingRebalance
                then maybeCompleteJoinLocked pf now2 (sessionTimeout c0) g3 else g3);
          members = (if Leader g4 = memberID then sort (mkeys (Members g4)) else [])
      in (\<lparr>jMemberID = memberID, jGeneration = Generation g4, jLeaderID = Leader g4,
           jMembers = members, jState = State_String (gState g4)\<rparr>,
          put_group c0 groupID g4))"

definition Sync ::
    "int \<Rightarrow> Coordinator \<Rightarrow> string \<Rightarrow> string \<Rightarrow> int
     \<Rightarrow> (topic_map \<times> int \<times> string \<times> group_error option) \<times> Coordinator" where
  "Sync now c groupID memberID generation =
     (case map_of (groups c) groupID of
        None \<Rightarrow> (([], 0, '''', Some ErrUnknownGroup), c)
      | Some g \<Rightarrow>
          if generation \<noteq> Generation g
          then (([], Generation g, State_String (gState g), Some ErrGenerationMismatch), c)
          else
            (case map_of (Members g) memberID of
               None \<Rightarrow> (([], Generation g, State_String (gState g), Some ErrUnknownMember), c)
             | Some m0 \<Rightarrow>
                 if gState g = PreparingRebalance
                 then (([], Generation g, State_String (gState g), Some ErrRebalanceInProgress), c)
                 else
                   (let m = m0\<lparr>LastHeartbeat := now, Synced := True\<rparr>;
                        g1 = g\<lparr>Members := mput memberID m (Members g)\<rparr>;
                        g2 = (if gState g1 = CompletingRebalance \<and> list_all (\<lambda>(i, m). Synced m) (Members g1)
                              then g1\<lparr>gState := Stable\<rparr> else g1);
                        asg = (case Assignment m of None \<Rightarrow> [] | Some ts \<Rightarrow> ts)
                    in ((asg, Generation g2, State_String (gState g2), None), put_group c groupID g2))))"

definition Heartbeat ::
    "int \<Rightarrow> Coordinator \<Rightarrow> string \<Rightarrow> string \<Rightarrow> int \<Rightarrow> (string \<times> group_error option) \<times> Coordinator" where
  "Heartbeat now c groupID memberID generation =
     (case map_of (groups c) groupID of
        None \<Rightarrow> (('''', Some ErrUnknownGroup), c)
      | Some g \<Rightarrow>
          (case map_of (Members g) memberID of
             None \<Rightarrow> ((State_String (gState g), Some ErrUnknownMember), c)
           | Some m \<Rightarrow>
               if generation \<noteq> Generation g \<or> gState g \<noteq> Stable
               then ((State_String (gState g), Some ErrRebalanceInProgress), c)
               else ((State_String (gState g), None),
                     put_group c groupID
                       (g\<lparr>Members := mput memberID (m\<lparr>LastHeartbeat := now\<rparr>) (Members g)\<rparr>))))"

definition Leave :: "partitions_fun \<Rightarrow> int \<Rightarrow> Coordinator \<Rightarrow> string \<Rightarrow> string \<Rightarrow> Coordinator" where
  "Leave pf now c groupID memberID =
     (case map_of (groups c) groupID of
        None \<Rightarrow> c
      | Some g \<Rightarrow>
          put_group c groupID
            (maybeCompleteJoinLocked pf now (sessionTimeout c)
              (beginRebalanceLocked (g\<lparr>Members := mdel memberID (Members g)\<rparr>))))"

definition expire_group :: "partitions_fun \<Rightarrow> int \<Rightarrow> int \<Rightarrow> int \<Rightarrow> Group \<Rightarrow> Group" where
  "expire_group pf now session wait g =
     (let changed = list_ex (\<lambda>(i, m). now - LastHeartbeat m > session) (Members g);
          g0 = g\<lparr>Members := filter (\<lambda>(i, m). \<not> now - LastHeartbeat m > session) (Members g)\<rparr>;
          g1 = (if changed then beginRebalanceLocked g0 else g0)
      in if changed \<and> Members g1 = [] then g1\<lparr>gState := Empty\<rparr>
         else if gState g1 = PreparingRebalance then
           (let allJoined = list_all (\<lambda>(i, m). Joined m) (Members g1);
                oldestHB = foldl (\<lambda>t (i, m). if LastHeartbeat m < t then LastHeartbeat m else t) now (Members g1)
            in if allJoined \<or> now - oldestHB > wait
               then finishAssignmentLocked pf
                      (g1\<lparr>Members := filter (\<lambda>(i, m). \<not> (\<not> Joined m \<and> now - LastHeartbeat m > wait)) (Members g1)\<rparr>)
               else g1)
         else g1)"

definition Expire :: "partitions_fun \<Rightarrow> int \<Rightarrow> Coordinator \<Rightarrow> Coordinator" where
  "Expire pf now c =
     c\<lparr>groups := mvals (expire_group pf now (sessionTimeout c) (rebalanceWait c)) (groups c)\<rparr>"

section \<open>Offsets\<close>

definition commit_entry :: "string \<Rightarrow> Coordinator \<Rightarrow> OffsetEntry \<Rightarrow> Coordinator" where
  "commit_entry groupID c e =
     (let c1 = c\<lparr>offsets := mput (offsetKey groupID (oTopic e) (oPartition e)) (oOffset e) (offsets c)\<rparr>
      in if hookSet c1
         then c1\<lparr>hookCalls := hookCalls c1 @ [(groupID, oTopic e, oPartition e, oOffset e)]\<rparr>
         else c1)"

definition Commit ::
    "bool \<Rightarrow> Coordinator \<Rightarrow> string \<Rightarrow> OffsetEntry list \<Rightarrow> group_error option \<times> Coordinator" where
  "Commit writable c groupID es = persistOffsetsLocked writable (foldl (commit_entry groupID) c es)"

text \<open>The index of the last \<open>'/'\<close>, \<open>-1\<close> if there is none; the loop counts down from the end.\<close>

fun lastSlash_loop :: "string \<Rightarrow> nat \<Rightarrow> int" where
  "lastSlash_loop s 0 = -1"
| "lastSlash_loop s (Suc i) = (if s ! i = CHR ''/'' then int i else lastSlash_loop s i)"

definition lastSlash :: "string \<Rightarrow> int" where
  "lastSlash s = lastSlash_loop s (length s)"

definition fetch_entry :: "string \<Rightarrow> string \<Rightarrow> string \<times> int \<Rightarrow> OffsetEntry option" where
  "fetch_entry groupID topic kv =
     (let (k, v) = kv; pre = groupID @ ''/'' in
      if length k < length pre \<or> take (length pre) k \<noteq> pre then None
      else
        (let rest = drop (length pre) k; i = lastSlash rest in
         if i < 0 then None
         else
           (let t = take (nat i) rest in
            case ParseInt (drop (nat i + 1) rest) of
              None \<Rightarrow> None
            | Some p \<Rightarrow>
                if topic \<noteq> '''' \<and> t \<noteq> topic then None
                else Some \<lparr>oTopic = t, oPartition = p, oOffset = v\<rparr>)))"

definition FetchOffsets :: "Coordinator \<Rightarrow> string \<Rightarrow> string \<Rightarrow> OffsetEntry list" where
  "FetchOffsets c groupID topic =
     sort_key (\<lambda>e. (oTopic e, oPartition e)) (List.map_filter (fetch_entry groupID topic) (offsets c))"

definition ApplyOffset :: "bool \<Rightarrow> Coordinator \<Rightarrow> string \<Rightarrow> string \<Rightarrow> int \<Rightarrow> int \<Rightarrow> Coordinator" where
  "ApplyOffset writable c grp topic part off =
     snd (persistOffsetsLocked writable
            (c\<lparr>offsets := mput (offsetKey grp topic part) off (offsets c)\<rparr>))"

definition SnapshotOffsets :: "Coordinator \<Rightarrow> (string \<times> int) list" where
  "SnapshotOffsets c = foldl (\<lambda>cp (k, v). mput k v cp) [] (offsets c)"

definition DebugGroup :: "Coordinator \<Rightarrow> string \<Rightarrow> State \<times> int \<times> string list" where
  "DebugGroup c i =
     (case map_of (groups c) i of
        None \<Rightarrow> (Empty, 0, [])
      | Some g \<Rightarrow> (gState g, Generation g, sort (mkeys (Members g))))"

definition Coordinator_String :: "Coordinator \<Rightarrow> string" where
  "Coordinator_String c =
     ''groups='' @ Itoa (int (length (groups c))) @ '' offsets='' @ Itoa (int (length (offsets c)))"

end
