(* ===== verification/LS_GroupInv.thy ===== *)
theory LS_GroupInv
  imports LS_Group
begin

text \<open>
  The invariant of a consumer group, that every operation of the coordinator keeps it, and
  what follows for every reachable coordinator: who the leader is, that no partition has
  two owners, and that a generation fences an assignment.
\<close>

section \<open>Invariant\<close>

definition pf_ok :: "partitions_fun \<Rightarrow> bool" where
  "pf_ok pf \<longleftrightarrow> (\<forall>f t. pf = Some f \<longrightarrow> distinct (f t))"

definition tp_ok :: "topic_map \<Rightarrow> bool" where
  "tp_ok tp \<longleftrightarrow> go_map tp \<and> (\<forall>ps\<in>snd ` set tp. distinct ps)"

definition members_ok :: "(string \<times> Member) list \<Rightarrow> bool" where
  "members_ok ms \<longleftrightarrow> go_map ms \<and> (\<forall>i m. map_of ms i = Some m \<longrightarrow> mID m = i \<and> i \<noteq> '''')"

definition reset :: "(string \<times> Member) list \<Rightarrow> bool" where
  "reset ms \<longleftrightarrow> (\<forall>i m. map_of ms i = Some m \<longrightarrow> \<not> Synced m \<and> Assignment m = None)"

definition assigned_by :: "topic_map \<Rightarrow> (string \<times> Member) list \<Rightarrow> bool" where
  "assigned_by tp ms \<longleftrightarrow>
     (\<forall>i m. map_of ms i = Some m \<longrightarrow> Assignment m = map_of (RangeAssign (sort (mkeys ms)) tp) i)"

definition group_ok :: "Group \<Rightarrow> bool" where
  "group_ok g \<longleftrightarrow> members_ok (Members g) \<and>
     (case gState g of
        Empty \<Rightarrow> Members g = [] \<and> Leader g = ''''
      | PreparingRebalance \<Rightarrow> Members g \<noteq> [] \<and> Leader g = '''' \<and> reset (Members g)
      | CompletingRebalance \<Rightarrow> Members g \<noteq> [] \<and> Leader g = hd (sort (mkeys (Members g))) \<and>
          (\<exists>tp. tp_ok tp \<and> assigned_by tp (Members g)) \<and>
          (\<exists>i m. map_of (Members g) i = Some m \<and> \<not> Synced m)
      | Stable \<Rightarrow> Members g \<noteq> [] \<and> Leader g = hd (sort (mkeys (Members g))) \<and>
          (\<exists>tp. tp_ok tp \<and> assigned_by tp (Members g)) \<and>
          (\<forall>i m. map_of (Members g) i = Some m \<longrightarrow> Synced m))"

definition coord_ok :: "Coordinator \<Rightarrow> bool" where
  "coord_ok c \<longleftrightarrow> go_map (groups c) \<and> (\<forall>i g. map_of (groups c) i = Some g \<longrightarrow> group_ok g)"

section \<open>The rebalance helpers\<close>

lemma members_ok_mvals:
  "members_ok ms \<Longrightarrow> (\<And>m. mID (f m) = mID m) \<Longrightarrow> members_ok (mvals f ms)"
  by (auto simp: members_ok_def)

lemma members_ok_entries:
  "members_ok ms \<Longrightarrow> (\<And>i m. mID (f i m) = mID m) \<Longrightarrow> members_ok (map (\<lambda>(i, m). (i, f i m)) ms)"
  by (auto simp: members_ok_def)

lemma members_ok_filter: "members_ok ms \<Longrightarrow> members_ok (filter (\<lambda>(i, m). P i m) ms)"
  by (auto simp: members_ok_def map_of_filter split: option.splits if_splits)

lemma reset_filter: "members_ok ms \<Longrightarrow> reset ms \<Longrightarrow> reset (filter (\<lambda>(i, m). P i m) ms)"
  by (auto simp: members_ok_def reset_def map_of_filter split: option.splits if_splits)

lemma members_ok_mput: "members_ok ms \<Longrightarrow> mID m = i \<Longrightarrow> i \<noteq> '''' \<Longrightarrow> members_ok (mput i m ms)"
  by (auto simp: members_ok_def)

lemma members_ok_mdel: "members_ok ms \<Longrightarrow> members_ok (mdel i ms)"
  by (auto simp: members_ok_def)

lemma begin_facts [simp]:
  "gState (beginRebalanceLocked g) = PreparingRebalance" "Leader (beginRebalanceLocked g) = ''''"
  "Generation (beginRebalanceLocked g) = Generation g + 1"
  "Members (beginRebalanceLocked g) = [] \<longleftrightarrow> Members g = []"
  "mkeys (Members (beginRebalanceLocked g)) = mkeys (Members g)"
  by (simp_all add: beginRebalanceLocked_def) (simp add: mvals_def)

lemma begin_ok:
  "members_ok (Members g) \<Longrightarrow> members_ok (Members (beginRebalanceLocked g)) \<and> reset (Members (beginRebalanceLocked g))"
  by (auto simp: beginRebalanceLocked_def reset_def intro: members_ok_mvals)

lemma RangeAssign_has: "i \<in> set ms \<Longrightarrow> \<exists>ts. map_of (RangeAssign ms tp) i = Some ts"
  using RangeAssign_keys [of ms tp] by (auto simp: set_mkeys)

lemma finish_generation [simp]: "Generation (finishAssignmentLocked pf g) = Generation g"
  by (simp add: finishAssignmentLocked_def Let_def)

lemma finish_ok:
  assumes "members_ok (Members g)" "pf_ok pf"
  shows "group_ok (finishAssignmentLocked pf g)"
proof (cases "Members g = []")
  case True
  then show ?thesis using assms by (simp add: finishAssignmentLocked_def group_ok_def)
next
  case False
  define ids where "ids = sort (mkeys (Members g))"
  define tp where "tp = (case pf of None \<Rightarrow> [] | Some f \<Rightarrow>
    map (\<lambda>t. (t, f t)) (remdups (concat (map (\<lambda>(i, m). Topics m) (Members g)))))"
  define upd :: "string \<Rightarrow> Member \<Rightarrow> Member" where "upd = (\<lambda>i m. case map_of (RangeAssign ids tp) i of None \<Rightarrow> m
    | Some ts \<Rightarrow> m\<lparr>Assignment := Some ts, Synced := False\<rparr>)"
  have fin: "finishAssignmentLocked pf g = g\<lparr>Leader := hd ids, Members := map (\<lambda>(i, m). (i, upd i m)) (Members g),
      gState := CompletingRebalance\<rparr>"
    using False by (simp add: finishAssignmentLocked_def ids_def tp_def upd_def Let_def)
  have upd: "Assignment (upd i m) = map_of (RangeAssign ids tp) i \<and> \<not> Synced (upd i m)"
    if "map_of (Members g) i = Some m" for i m
  proof -
    have "i \<in> set ids" using that by (auto simp: ids_def set_mkeys)
    then show ?thesis using RangeAssign_has [of i ids tp] by (auto simp: upd_def)
  qed
  have "tp_ok tp"
    using assms(2) by (auto simp: tp_ok_def tp_def pf_ok_def go_map_def mkeys_def comp_def split: option.splits)
  moreover have "assigned_by tp (map (\<lambda>(i, m). (i, upd i m)) (Members g))"
    using upd by (auto simp: assigned_by_def ids_def)
  moreover have "members_ok (map (\<lambda>(i, m). (i, upd i m)) (Members g))"
    using assms(1) by (intro members_ok_entries) (auto simp: upd_def split: option.splits)
  moreover have "\<exists>i m. map_of (map (\<lambda>(i, m). (i, upd i m)) (Members g)) i = Some m \<and> \<not> Synced m"
    using map_of_nonempty [OF False] upd by (metis map_of_map_entries option.simps(9))
  ultimately show ?thesis unfolding fin group_ok_def using False by (auto simp: ids_def)
qed

definition pre_ok :: "Group \<Rightarrow> bool" where
  "pre_ok g \<longleftrightarrow> members_ok (Members g) \<and> reset (Members g) \<and> gState g = PreparingRebalance \<and> Leader g = ''''"

lemma pre_ok_begin: "members_ok (Members g) \<Longrightarrow> pre_ok (beginRebalanceLocked g)"
  by (simp add: pre_ok_def begin_ok)

lemma pre_ok_group: "pre_ok g \<Longrightarrow> Members g \<noteq> [] \<Longrightarrow> group_ok g"
  by (simp add: pre_ok_def group_ok_def)

lemma pre_ok_filter: "pre_ok g \<Longrightarrow> pre_ok (g\<lparr>Members := filter (\<lambda>(i, m). P i m) (Members g)\<rparr>)"
  by (simp add: pre_ok_def members_ok_filter reset_filter)

lemma maybe_generation [simp]: "Generation (maybeCompleteJoinLocked pf now s g) = Generation g"
  by (simp add: maybeCompleteJoinLocked_def Let_def)

lemma maybe_ok:
  assumes "pre_ok g" "pf_ok pf"
  shows "group_ok (maybeCompleteJoinLocked pf now s g)"
proof -
  let ?g = "g\<lparr>Members := filter (\<lambda>(i, m). \<not> now - LastHeartbeat m > s) (Members g)\<rparr>"
  have "pre_ok ?g" using pre_ok_filter [OF assms(1), of "\<lambda>i m. \<not> now - LastHeartbeat m > s"] by simp
  then show ?thesis
    using pre_ok_group [of ?g] finish_ok [of ?g pf] assms(2)
    by (auto simp: maybeCompleteJoinLocked_def Let_def pre_ok_def)
qed

lemma expire_ok:
  assumes "group_ok g" "pf_ok pf"
  shows "group_ok (expire_group pf now s w g)"
proof -
  let ?dead = "\<lambda>m. now - LastHeartbeat m > s"
  have m: "members_ok (Members g)" using assms(1) by (simp add: group_ok_def)
  define g0 where "g0 = g\<lparr>Members := filter (\<lambda>(i, m). \<not> ?dead m) (Members g)\<rparr>"
  define changed where "changed = list_ex (\<lambda>(i, m). ?dead m) (Members g)"
  define g1 where "g1 = (if changed then beginRebalanceLocked g0 else g0)"
  have m0: "members_ok (Members g0)" using members_ok_filter [OF m] by (simp add: g0_def)
  have same: "g0 = g" if "\<not> changed"
  proof -
    have "filter (\<lambda>(i, m). \<not> ?dead m) (Members g) = Members g"
      using that by (auto simp: changed_def list_ex_iff intro!: filter_True)
    then show ?thesis by (simp add: g0_def)
  qed
  have g1: "group_ok g1" if "\<not> (changed \<and> Members g1 = [])"
    using that same assms(1) pre_ok_group [OF pre_ok_begin [OF m0]] by (auto simp: g1_def)
  have m1: "members_ok (Members g1)" using m0 begin_ok by (simp add: g1_def)
  have fin: "group_ok (finishAssignmentLocked pf (g1\<lparr>Members := filter (\<lambda>(i, m). P i m) (Members g1)\<rparr>))" for P
    using members_ok_filter [OF m1] assms(2) by (intro finish_ok) auto
  have emp: "group_ok (g1\<lparr>gState := Empty\<rparr>)" if "changed" "Members g1 = []"
    using that by (simp add: group_ok_def g1_def) (simp add: members_ok_def beginRebalanceLocked_def)
  show ?thesis
    unfolding expire_group_def Let_def changed_def [symmetric] g0_def [symmetric] g1_def [symmetric]
    using g1 fin emp by auto
qed

section \<open>The operations keep the invariant\<close>

lemma coord_ok_put: "coord_ok c \<Longrightarrow> group_ok g \<Longrightarrow> coord_ok (put_group c i g)"
  by (auto simp: coord_ok_def put_group_def)

lemma new_group_ok: "group_ok (new_group i)"
  by (simp add: group_ok_def new_group_def members_ok_def)

lemma group_fetch:
  "coord_ok c \<Longrightarrow> group c i = (g, c0) \<Longrightarrow> coord_ok c0 \<and> group_ok g \<and> sessionTimeout c0 = sessionTimeout c"
  using new_group_ok by (auto simp: group_def coord_ok_def split: option.splits if_splits)

text \<open>The effect of \<open>Join\<close> on the group.\<close>

definition join_group ::
    "partitions_fun \<Rightarrow> int \<Rightarrow> int \<Rightarrow> int \<Rightarrow> string \<Rightarrow> string list \<Rightarrow> Group \<Rightarrow> Group" where
  "join_group pf now1 now2 session mid topics g0 =
     (let m0 = (case map_of (Members g0) mid of Some m \<Rightarrow> m
                | None \<Rightarrow> \<lparr>mID = mid, Topics = [], LastHeartbeat = 0, Joined = False,
                           Synced = False, Assignment = None\<rparr>);
          g1 = g0\<lparr>Members := mput mid (m0\<lparr>Topics := topics, LastHeartbeat := now1, Synced := False\<rparr>) (Members g0)\<rparr>;
          g2 = (if gState g0 \<noteq> PreparingRebalance then beginRebalanceLocked g1 else g1)
      in maybeCompleteJoinLocked pf now2 session
           (g2\<lparr>Members := map (\<lambda>(i, m). (i, if i = mid then m\<lparr>Joined := True\<rparr> else m)) (Members g2)\<rparr>))"

lemma Join_group:
  assumes "group c gid = (g0, c0)"
  shows "snd (Join pf now1 now2 newID c gid mid topics) =
    put_group c0 gid (join_group pf now1 now2 (sessionTimeout c0) (if mid = '''' then newID else mid) topics g0)"
  unfolding Join_def join_group_def Let_def assms by simp

lemma pre_ok_joined:
  "pre_ok g \<Longrightarrow> pre_ok (g\<lparr>Members := map (\<lambda>(i, m). (i, if i = mid then m\<lparr>Joined := True\<rparr> else m)) (Members g)\<rparr>)"
  using members_ok_entries [of "Members g" "\<lambda>i m. if i = mid then m\<lparr>Joined := True\<rparr> else m"]
  by (auto simp: pre_ok_def reset_def)

lemma join_group_ok:
  assumes "group_ok g0" "pf_ok pf" "mid \<noteq> ''''"
  shows "group_ok (join_group pf now1 now2 session mid topics g0)"
proof -
  define m0 where "m0 = (case map_of (Members g0) mid of Some m \<Rightarrow> m
     | None \<Rightarrow> \<lparr>mID = mid, Topics = [], LastHeartbeat = 0, Joined = False, Synced = False, Assignment = None\<rparr>)"
  define g1 where "g1 = g0\<lparr>Members := mput mid (m0\<lparr>Topics := topics, LastHeartbeat := now1, Synced := False\<rparr>) (Members g0)\<rparr>"
  have mem: "members_ok (Members g0)" using assms(1) by (simp add: group_ok_def)
  then have "mID m0 = mid" by (auto simp: m0_def members_ok_def split: option.splits)
  then have m1: "members_ok (Members g1)" using mem assms(3) by (simp add: g1_def members_ok_mput)
  have "pre_ok g1" if "gState g0 = PreparingRebalance"
  proof -
    have "reset (Members g0)" "Leader g0 = ''''" using assms(1) that by (auto simp: group_ok_def)
    then have "Assignment m0 = None" by (auto simp: m0_def reset_def split: option.splits)
    with \<open>reset (Members g0)\<close> have "reset (Members g1)" by (simp add: g1_def reset_def)
    then show ?thesis using that m1 \<open>Leader g0 = ''''\<close> by (simp add: pre_ok_def g1_def)
  qed
  then have "pre_ok (if gState g0 \<noteq> PreparingRebalance then beginRebalanceLocked g1 else g1)"
    using pre_ok_begin [OF m1] by simp
  from maybe_ok [OF pre_ok_joined [OF this] assms(2)] show ?thesis
    unfolding join_group_def Let_def m0_def [symmetric] g1_def [symmetric] .
qed

lemma join_group_generation:
  "Generation (join_group pf now1 now2 session mid topics g0) =
     (if gState g0 = PreparingRebalance then Generation g0 else Generation g0 + 1)"
  by (simp add: join_group_def Let_def)

lemma Join_ok:
  assumes "coord_ok c" "pf_ok pf" "newID \<noteq> ''''"
  shows "coord_ok (snd (Join pf now1 now2 newID c gid mid topics))"
proof -
  obtain g0 c0 where g: "group c gid = (g0, c0)" by (cases "group c gid")
  then show ?thesis
    using group_fetch [OF assms(1) g] assms(2,3) unfolding Join_group [OF g]
    by (intro coord_ok_put join_group_ok) auto
qed

text \<open>A member that synchronises.\<close>

lemma assigned_by_same:
  assumes "assigned_by tp ms" "map_of ms i = Some m" "Assignment m' = Assignment m"
  shows "assigned_by tp (mput i m' ms)"
proof -
  have "i \<in> set (mkeys ms)" using assms(2) by (auto simp: set_mkeys)
  then show ?thesis using assms by (auto simp: assigned_by_def mkeys_mput)
qed

lemma mkeys_mput_same: "map_of ms i = Some m \<Longrightarrow> mkeys (mput i m' ms) = mkeys ms"
  by (auto simp: mkeys_mput set_mkeys)

definition sync_group :: "int \<Rightarrow> string \<Rightarrow> Member \<Rightarrow> Group \<Rightarrow> Group" where
  "sync_group now mid m0 g =
     (let g1 = g\<lparr>Members := mput mid (m0\<lparr>LastHeartbeat := now, Synced := True\<rparr>) (Members g)\<rparr>
      in if gState g1 = CompletingRebalance \<and> list_all (\<lambda>(i, m). Synced m) (Members g1)
         then g1\<lparr>gState := Stable\<rparr> else g1)"

lemma sync_group_ok:
  assumes "group_ok g" "map_of (Members g) mid = Some m0" "gState g \<noteq> PreparingRebalance"
  shows "group_ok (sync_group now mid m0 g)"
proof -
  let ?m = "m0\<lparr>LastHeartbeat := now, Synced := True\<rparr>" and ?ms = "Members g"
  have mem: "members_ok ?ms" using assms(1) by (simp add: group_ok_def)
  have id: "mID m0 = mid" "mid \<noteq> ''''" using mem assms(2) by (auto simp: members_ok_def)
  have st: "gState g = CompletingRebalance \<or> gState g = Stable"
    using assms by (cases "gState g") (auto simp: group_ok_def)
  then obtain tp where tp: "tp_ok tp" "assigned_by tp ?ms" and l: "Leader g = hd (sort (mkeys ?ms))"
    using assms(1) by (auto simp: group_ok_def)
  have m': "members_ok (mput mid ?m ?ms)" using id by (intro members_ok_mput [OF mem]) auto
  have a': "assigned_by tp (mput mid ?m ?ms)" using assigned_by_same [OF tp(2) assms(2)] by simp
  have gm: "go_map (mput mid ?m ?ms)" using m' by (simp add: members_ok_def)
  note la = list_all_values [OF gm, of "\<lambda>i m. Synced m"]
  show ?thesis
    using st
  proof
    assume c: "gState g = CompletingRebalance"
    then show ?thesis
      using m' a' tp(1) l la mkeys_mput_same [OF assms(2)]
      by (auto simp: sync_group_def Let_def group_ok_def)
  next
    assume "gState g = Stable"
    moreover from this have "\<forall>i m. map_of ?ms i = Some m \<longrightarrow> Synced m" using assms(1) by (simp add: group_ok_def)
    ultimately show ?thesis
      using m' a' tp(1) l mkeys_mput_same [OF assms(2)]
      by (auto simp: sync_group_def Let_def group_ok_def)
  qed
qed

lemma coord_group: "coord_ok c \<Longrightarrow> map_of (groups c) i = Some g \<Longrightarrow> group_ok g"
  by (simp add: coord_ok_def)

lemma Sync_cases:
  "snd (Sync now c gid mid gen) = c \<or>
   (\<exists>g m. map_of (groups c) gid = Some g \<and> map_of (Members g) mid = Some m \<and> gState g \<noteq> PreparingRebalance
      \<and> snd (Sync now c gid mid gen) = put_group c gid (sync_group now mid m g))"
  by (auto simp: Sync_def sync_group_def Let_def split: option.splits)

lemma Sync_ok: "coord_ok c \<Longrightarrow> coord_ok (snd (Sync now c gid mid gen))"
  using Sync_cases [of now c gid mid gen] by (auto intro!: coord_ok_put sync_group_ok dest: coord_group)

definition beat_group :: "int \<Rightarrow> string \<Rightarrow> Member \<Rightarrow> Group \<Rightarrow> Group" where
  "beat_group now mid m g = g\<lparr>Members := mput mid (m\<lparr>LastHeartbeat := now\<rparr>) (Members g)\<rparr>"

lemma Heartbeat_cases:
  "snd (Heartbeat now c gid mid gen) = c \<or>
   (\<exists>g m. map_of (groups c) gid = Some g \<and> map_of (Members g) mid = Some m \<and> gState g = Stable
      \<and> snd (Heartbeat now c gid mid gen) = put_group c gid (beat_group now mid m g))"
  by (auto simp: Heartbeat_def beat_group_def split: option.splits)

lemma beat_group_ok:
  assumes "group_ok g" "map_of (Members g) mid = Some m" "gState g = Stable"
  shows "group_ok (beat_group now mid m g)"
proof -
  have "members_ok (Members g)" using assms(1) by (simp add: group_ok_def)
  then have "members_ok (mput mid (m\<lparr>LastHeartbeat := now\<rparr>) (Members g))"
    using assms(2) by (intro members_ok_mput) (auto simp: members_ok_def)
  moreover obtain tp where "tp_ok tp" "assigned_by tp (Members g)" using assms by (auto simp: group_ok_def)
  ultimately show ?thesis
    using assms assigned_by_same [of tp "Members g" mid m "m\<lparr>LastHeartbeat := now\<rparr>"] mkeys_mput_same [OF assms(2)]
    by (auto simp: group_ok_def beat_group_def)
qed

lemma Heartbeat_ok: "coord_ok c \<Longrightarrow> coord_ok (snd (Heartbeat now c gid mid gen))"
  using Heartbeat_cases [of now c gid mid gen] by (auto intro!: coord_ok_put beat_group_ok dest: coord_group)

lemma Leave_ok: "coord_ok c \<Longrightarrow> pf_ok pf \<Longrightarrow> coord_ok (Leave pf now c gid mid)"
  by (auto simp: Leave_def group_ok_def split: option.splits
      intro!: coord_ok_put maybe_ok pre_ok_begin members_ok_mdel dest: coord_group)

lemma Expire_ok: "coord_ok c \<Longrightarrow> pf_ok pf \<Longrightarrow> coord_ok (Expire pf now c)"
  by (auto simp: Expire_def coord_ok_def expire_ok)

lemma Commit_groups: "groups (snd (Commit w c gid es)) = groups c"
proof -
  have "groups (foldl (commit_entry gid) c es) = groups c" for c
    by (induction es arbitrary: c) (auto simp: commit_entry_def Let_def)
  then show ?thesis by (simp add: Commit_def persistOffsetsLocked_def)
qed

lemma ApplyOffset_groups: "groups (ApplyOffset w c grp t p off) = groups c"
  by (simp add: ApplyOffset_def persistOffsetsLocked_def)

section \<open>Reachable coordinators\<close>

text \<open>
  One call of a method, with any clock readings, arguments and partition lists; \<open>step_called\<close> is
  the broker executing the recorded calls of the hook.
\<close>

inductive coord_step :: "Coordinator \<Rightarrow> Coordinator \<Rightarrow> bool" where
  step_join: "pf_ok pf \<Longrightarrow> newID \<noteq> '''' \<Longrightarrow> coord_step c (snd (Join pf now1 now2 newID c gid mid topics))"
| step_sync: "coord_step c (snd (Sync now c gid mid gen))"
| step_heartbeat: "coord_step c (snd (Heartbeat now c gid mid gen))"
| step_leave: "pf_ok pf \<Longrightarrow> coord_step c (Leave pf now c gid mid)"
| step_expire: "pf_ok pf \<Longrightarrow> coord_step c (Expire pf now c)"
| step_commit: "coord_step c (snd (Commit w c gid es))"
| step_apply: "coord_step c (ApplyOffset w c grp t p off)"
| step_hook: "coord_step c (SetOffsetHook c isSet)"
| step_called: "coord_step c (c\<lparr>hookCalls := []\<rparr>)"

inductive reachable_coord :: "Coordinator \<Rightarrow> bool" where
  reach_new: "reachable_coord (Coordinator_New stored session rebalance)"
| reach_step: "reachable_coord c \<Longrightarrow> coord_step c c' \<Longrightarrow> reachable_coord c'"

inductive_cases coord_stepE: "coord_step c c'"

lemma coord_ok_groups: "coord_ok c \<Longrightarrow> groups c' = groups c \<Longrightarrow> coord_ok c'"
  by (simp add: coord_ok_def)

lemma coord_step_ok: "coord_step c c' \<Longrightarrow> coord_ok c \<Longrightarrow> coord_ok c'"
  by (induction rule: coord_step.induct)
     (auto simp: SetOffsetHook_def intro: Join_ok Sync_ok Heartbeat_ok Leave_ok Expire_ok
       coord_ok_groups [OF _ Commit_groups] coord_ok_groups [OF _ ApplyOffset_groups] coord_ok_groups)

lemma reachable_coord_ok: "reachable_coord c \<Longrightarrow> coord_ok c"
proof (induction rule: reachable_coord.induct)
  case (reach_new stored session rebalance)
  have "groups (Coordinator_New stored session rebalance) = []"
    by (simp add: Coordinator_New_def loadOffsets_def Let_def split: json_file.splits)
  then show ?case by (simp add: coord_ok_def)
qed (rule coord_step_ok)

section \<open>Fencing by generations\<close>

definition owns :: "Group \<Rightarrow> string \<Rightarrow> string \<Rightarrow> int \<Rightarrow> bool" where
  "owns g i t p \<longleftrightarrow> (\<exists>m tm ps. map_of (Members g) i = Some m \<and> Assignment m = Some tm
     \<and> map_of tm t = Some ps \<and> p \<in> set ps)"

definition fenced :: "Group \<Rightarrow> Group \<Rightarrow> bool" where
  "fenced g g' \<longleftrightarrow> Generation g < Generation g' \<or>
     (Generation g' = Generation g \<and> mkeys (Members g') = mkeys (Members g) \<and> Leader g' = Leader g
      \<and> gState g' \<in> {CompletingRebalance, Stable}
      \<and> (\<forall>i. map_option Assignment (map_of (Members g') i) = map_option Assignment (map_of (Members g) i)))"

lemma fenced_refl: "gState g \<in> {CompletingRebalance, Stable} \<Longrightarrow> fenced g g"
  by (simp add: fenced_def)

lemma fenced_sync:
  "map_of (Members g) mid = Some m \<Longrightarrow> gState g \<in> {CompletingRebalance, Stable} \<Longrightarrow> fenced g (sync_group now mid m g)"
  by (auto simp: fenced_def sync_group_def Let_def mkeys_mput_same)

lemma fenced_beat:
  "map_of (Members g) mid = Some m \<Longrightarrow> gState g \<in> {CompletingRebalance, Stable} \<Longrightarrow> fenced g (beat_group now mid m g)"
  by (auto simp: fenced_def beat_group_def mkeys_mput_same)

lemma fenced_expire:
  assumes "gState g \<in> {CompletingRebalance, Stable}"
  shows "fenced g (expire_group pf now s w g)"
proof (cases "list_ex (\<lambda>(i, m). now - LastHeartbeat m > s) (Members g)")
  case True
  then show ?thesis by (simp add: fenced_def expire_group_def Let_def)
next
  case False
  then have "filter (\<lambda>(i, m). \<not> now - LastHeartbeat m > s) (Members g) = Members g"
    by (auto simp: list_ex_iff intro!: filter_True)
  then show ?thesis using False assms fenced_refl [OF assms] by (auto simp: expire_group_def Let_def)
qed

lemma put_group_lookup: "map_of (groups (put_group c i g)) j = (if j = i then Some g else map_of (groups c) j)"
  by (simp add: put_group_def)

lemma coord_step_fenced:
  assumes "coord_step c c'" "map_of (groups c) i = Some g" "gState g \<in> {CompletingRebalance, Stable}"
  shows "\<exists>g'. map_of (groups c') i = Some g' \<and> fenced g g'"
  using assms(1)
proof (cases rule: coord_step.cases)
  case (step_join pf newID now1 now2 gid mid topics)
  obtain g0 c0 where g0: "group c gid = (g0, c0)" by (cases "group c gid")
  have "map_of (groups c0) i = Some g" "i = gid \<Longrightarrow> g0 = g"
    using g0 assms(2) by (auto simp: group_def split: option.splits)
  then show ?thesis
    using step_join assms(3) fenced_refl [OF assms(3)] Join_group [OF g0, of pf now1 now2 newID mid topics]
    by (auto simp: put_group_lookup fenced_def join_group_generation)
next
  case (step_sync now gid mid gen)
  with Sync_cases [of now c gid mid gen] assms(2,3) show ?thesis
    by (auto simp: put_group_lookup fenced_refl fenced_sync)
next
  case (step_heartbeat now gid mid gen)
  with Heartbeat_cases [of now c gid mid gen] assms(2,3) show ?thesis
    by (auto simp: put_group_lookup fenced_refl fenced_beat)
next
  case (step_leave pf now gid mid)
  then show ?thesis using assms(2,3) fenced_refl [OF assms(3)]
    by (auto simp: Leave_def put_group_lookup fenced_def split: option.splits)
next
  case (step_expire pf now)
  then show ?thesis using assms(2,3) by (simp add: Expire_def fenced_expire)
next
  case (step_commit w gid es)
  then show ?thesis using assms fenced_refl by (simp add: Commit_groups)
next
  case (step_apply w grp t p off)
  then show ?thesis using assms fenced_refl by (simp add: ApplyOffset_groups)
next
  case (step_hook isSet)
  then show ?thesis using assms fenced_refl by (simp add: SetOffsetHook_def)
next
  case step_called
  then show ?thesis using assms fenced_refl by simp
qed

lemma group_ok_owns_unique:
  assumes "group_ok g" "owns g i t p" "owns g j t p"
  shows "i = j"
proof (rule ccontr)
  assume ne: "i \<noteq> j"
  from assms(2) have "gState g \<in> {CompletingRebalance, Stable}"
    using assms(1) by (cases "gState g") (auto simp: group_ok_def owns_def reset_def)
  then obtain tp where tp: "tp_ok tp" "assigned_by tp (Members g)" using assms(1) by (auto simp: group_ok_def)
  let ?ids = "sort (mkeys (Members g))"
  have own: "p \<in> set (owned (RangeAssign ?ids tp) k t)" if "owns g k t p" for k
    using that tp(2) by (force simp: owns_def assigned_by_def owned_def)
  have "distinct ?ids" using assms(1) by (simp add: group_ok_def members_ok_def go_map_def)
  then have "set (owned (RangeAssign ?ids tp) i t) \<inter> set (owned (RangeAssign ?ids tp) j t) = {}"
    using ra.owner_unique ne tp(1) by (simp add: tp_ok_def)
  with own assms(2,3) show False by blast
qed

text \<open>In every state the generation only grows, and a group never disappears.\<close>

lemma expire_mono: "Generation g \<le> Generation (expire_group pf now s w g)"
  by (simp add: expire_group_def Let_def)

lemma coord_step_mono:
  assumes "coord_step c c'" "map_of (groups c) i = Some g"
  shows "\<exists>g'. map_of (groups c') i = Some g' \<and> Generation g \<le> Generation g'"
  using assms(1)
proof (cases rule: coord_step.cases)
  case (step_join pf newID now1 now2 gid mid topics)
  obtain g0 c0 where g0: "group c gid = (g0, c0)" by (cases "group c gid")
  have "map_of (groups c0) i = Some g" "i = gid \<Longrightarrow> g0 = g"
    using g0 assms(2) by (auto simp: group_def split: option.splits)
  then show ?thesis
    using step_join Join_group [OF g0, of pf now1 now2 newID mid topics]
    by (auto simp: put_group_lookup join_group_generation)
next
  case (step_sync now gid mid gen)
  with Sync_cases [of now c gid mid gen] assms(2) show ?thesis
    by (auto simp: put_group_lookup sync_group_def Let_def)
next
  case (step_heartbeat now gid mid gen)
  with Heartbeat_cases [of now c gid mid gen] assms(2) show ?thesis
    by (auto simp: put_group_lookup beat_group_def)
next
  case (step_leave pf now gid mid)
  then show ?thesis using assms(2) by (auto simp: Leave_def put_group_lookup split: option.splits)
next
  case (step_expire pf now)
  then show ?thesis using assms(2) by (simp add: Expire_def expire_mono)
qed (auto simp: assms(2) Commit_groups ApplyOffset_groups SetOffsetHook_def)

lemma fenced_trans:
  "fenced g g' \<Longrightarrow> gState g' \<in> {CompletingRebalance, Stable} \<Longrightarrow> fenced g' g'' \<Longrightarrow> fenced g g''"
  by (auto simp: fenced_def)

lemma coord_steps_fenced:
  assumes "coord_step\<^sup>*\<^sup>* c c'" "map_of (groups c) i = Some g" "gState g \<in> {CompletingRebalance, Stable}"
  shows "\<exists>g'. map_of (groups c') i = Some g' \<and> fenced g g'"
  using assms(1)
proof (induction rule: rtranclp_induct)
  case base
  then show ?case using assms(2,3) fenced_refl by simp
next
  case (step c1 c2)
  then obtain g1 where g1: "map_of (groups c1) i = Some g1" "fenced g g1" by blast
  obtain g2 where g2: "map_of (groups c2) i = Some g2" "Generation g1 \<le> Generation g2"
    using coord_step_mono [OF step.hyps(2) g1(1)] by blast
  show ?case
  proof (cases "Generation g < Generation g1")
    case True
    then show ?thesis using g2 by (auto simp: fenced_def)
  next
    case False
    then have st: "gState g1 \<in> {CompletingRebalance, Stable}" using g1(2) by (simp add: fenced_def)
    then show ?thesis using coord_step_fenced [OF step.hyps(2) g1(1) st] fenced_trans [OF g1(2) st] by blast
  qed
qed

section \<open>Properties\<close>

text \<open>A group with one member that has joined, for the examples.\<close>

abbreviation two_parts :: partitions_fun where
  "two_parts \<equiv> Some (\<lambda>t. [0, 1])"

definition solo :: Coordinator where
  "solo = snd (Join two_parts 5 6 ''x'' (Coordinator_New NoFile 0 0) ''g'' ''m'' [''t''])"

definition solo_member :: Member where
  "solo_member = \<lparr>mID = ''m'', Topics = [''t''], LastHeartbeat = 5, Joined = True, Synced = False,
     Assignment = Some [(''t'', [0, 1])]\<rparr>"

definition solo_group :: Group where
  "solo_group = \<lparr>gID = ''g'', gState = CompletingRebalance, Generation = 1, Members = [(''m'', solo_member)], Leader = ''m''\<rparr>"

lemma solo_lookup: "map_of (groups solo) ''g'' = Some solo_group"
  by code_simp

lemma solo_reachable: "reachable_coord solo"
  unfolding solo_def by (rule reach_step [OF reach_new step_join]) (auto simp: pf_ok_def)

text \<open>
  In every reachable coordinator, two members of a group never own the same partition of
  a topic (the broker gives the partition numbers of a topic without repetition).
\<close>

theorem no_double_ownership:
  assumes "reachable_coord c" "map_of (groups c) gid = Some g" "owns g i t p" "owns g j t p"
  shows "i = j"
  using group_ok_owns_unique [OF coord_group [OF reachable_coord_ok [OF assms(1)] assms(2)] assms(3,4)] .

theorem no_double_ownership_witness:
  "{j. owns solo_group j ''t'' 1} = {''m''}"
proof -
  have o: "owns solo_group ''m'' ''t'' 1" by (simp add: owns_def solo_group_def solo_member_def)
  then show ?thesis using no_double_ownership [OF solo_reachable solo_lookup] by blast
qed

text \<open>
  C19.  The states of a group in every reachable coordinator.  A group is \<open>Empty\<close> exactly when it
  has no members; it has a leader, the least member id, exactly while an assignment exists
  (\<open>CompletingRebalance\<close> and \<open>Stable\<close>), and then every member has one; it is \<open>Stable\<close> exactly
  when every member has synchronised.
\<close>

theorem group_state_invariant:
  assumes "reachable_coord c" "map_of (groups c) gid = Some g"
  shows "(gState g = Empty \<longleftrightarrow> Members g = [])
    \<and> (gState g \<in> {CompletingRebalance, Stable} \<longleftrightarrow> Leader g \<noteq> '''')
    \<and> (Leader g \<noteq> '''' \<longrightarrow> Leader g = Min (set (mkeys (Members g))))
    \<and> (\<forall>i m. map_of (Members g) i = Some m \<longrightarrow> (Assignment m \<noteq> None \<longleftrightarrow> Leader g \<noteq> ''''))
    \<and> (gState g = Stable \<longleftrightarrow> Members g \<noteq> [] \<and> (\<forall>i m. map_of (Members g) i = Some m \<longrightarrow> Synced m))"
proof -
  have ok: "group_ok g" using coord_group [OF reachable_coord_ok [OF assms(1)] assms(2)] .
  have keys: "Leader g \<in> set (mkeys (Members g)) \<and> Leader g = Min (set (mkeys (Members g)))"
    if "Members g \<noteq> []" "Leader g = hd (sort (mkeys (Members g)))"
  proof -
    have s: "sorted (sort (mkeys (Members g)))" "sort (mkeys (Members g)) \<noteq> []" using that(1) by simp_all
    then have "hd (sort (mkeys (Members g))) = Min (set (sort (mkeys (Members g))))"
      by (cases "sort (mkeys (Members g))") (auto intro!: Min_eqI [symmetric])
    then show ?thesis using that s(2) by (metis hd_in_set set_sort)
  qed
  have ne: "i \<noteq> ''''" if "i \<in> set (mkeys (Members g))" for i
    using that ok by (auto simp: group_ok_def members_ok_def set_mkeys)
  have asg: "Assignment m \<noteq> None" if "assigned_by tp (Members g)" "map_of (Members g) i = Some m" for tp i m
  proof -
    have "i \<in> set (sort (mkeys (Members g)))" using that(2) by (auto simp: set_mkeys)
    then show ?thesis using RangeAssign_has that by (fastforce simp: assigned_by_def)
  qed
  have ex: "\<exists>i m. map_of (Members g) i = Some m" if "Members g \<noteq> []" using map_of_nonempty [OF that] .
  show ?thesis
  proof (cases "gState g")
    case Empty
    then show ?thesis using ok by (simp add: group_ok_def)
  next
    case PreparingRebalance
    then show ?thesis using ok ex by (auto simp: group_ok_def reset_def)
  next
    case CompletingRebalance
    then show ?thesis using ok keys ne asg by (auto simp: group_ok_def)
  next
    case Stable
    then show ?thesis using ok keys ne asg by (auto simp: group_ok_def)
  qed
qed

theorem group_state_invariant_witness:
  "Leader solo_group = Min {''m''} \<and> gState solo_group = CompletingRebalance"
  using group_state_invariant [OF solo_reachable solo_lookup] by (simp add: solo_group_def mkeys_def)

text \<open>
  C15.  A generation fences an assignment: from a state in which the members of a group have been
  assigned their partitions (\<open>CompletingRebalance\<close> or \<open>Stable\<close>), whatever calls follow, either the
  generation has grown, or the members, the leader and every member's assignment are still the
  same.  Before that, in \<open>PreparingRebalance\<close>, members join within the generation, and the end of
  the rebalance gives it its leader and its assignments.
\<close>

theorem generation_fences_assignment:
  assumes "coord_step\<^sup>*\<^sup>* c c'" "map_of (groups c) gid = Some g" "gState g \<in> {CompletingRebalance, Stable}"
  shows "\<exists>g'. map_of (groups c') gid = Some g' \<and> Generation g \<le> Generation g'
    \<and> (Generation g' = Generation g \<longrightarrow> mkeys (Members g') = mkeys (Members g) \<and> Leader g' = Leader g
        \<and> (\<forall>i t p. owns g' i t p \<longleftrightarrow> owns g i t p))"
proof -
  obtain g' where g': "map_of (groups c') gid = Some g'" "fenced g g'"
    using coord_steps_fenced [OF assms] by blast
  have "owns g' i t p \<longleftrightarrow> owns g i t p" if "Generation g' = Generation g" for i t p
  proof -
    have "map_option Assignment (map_of (Members g') i) = map_option Assignment (map_of (Members g) i)"
      using g'(2) that by (simp add: fenced_def)
    then show ?thesis
      by (cases "map_of (Members g') i"; cases "map_of (Members g) i") (auto simp: owns_def)
  qed
  with g' show ?thesis by (auto simp: fenced_def)
qed

theorem generation_fences_assignment_witness:
  "\<exists>g'. map_of (groups (snd (Sync 7 solo ''g'' ''m'' 1))) ''g'' = Some g' \<and> Generation solo_group \<le> Generation g'"
proof -
  have "coord_step\<^sup>*\<^sup>* solo (snd (Sync 7 solo ''g'' ''m'' 1))" by (blast intro: step_sync)
  from generation_fences_assignment [OF this solo_lookup] show ?thesis by (auto simp: solo_group_def)
qed

text \<open>
  Calls with an old generation are refused and change nothing; a heartbeat is accepted
  exactly from a member of a \<open>Stable\<close> group that names the current generation.
\<close>

theorem stale_generation_refused:
  assumes "map_of (groups c) gid = Some g"
  shows "(gen \<noteq> Generation g \<longrightarrow> snd (Sync now c gid mid gen) = c \<and> snd (snd (snd (fst (Sync now c gid mid gen)))) = Some ErrGenerationMismatch
        \<and> snd (Heartbeat now c gid mid gen) = c \<and> snd (fst (Heartbeat now c gid mid gen)) \<noteq> None)
    \<and> (snd (fst (Heartbeat now c gid mid gen)) = None \<longleftrightarrow>
        mid \<in> set (mkeys (Members g)) \<and> gen = Generation g \<and> gState g = Stable)"
  using assms by (auto simp: Sync_def Heartbeat_def set_mkeys split: option.splits)

theorem stale_generation_refused_witness:
  "snd (Sync 7 solo ''g'' ''m'' 0) = solo \<and> snd (Heartbeat 7 solo ''g'' ''m'' 0) = solo
   \<and> snd (fst (Heartbeat 7 solo ''g'' ''m'' 1)) \<noteq> None"
  using stale_generation_refused [OF solo_lookup, of 0 7 "''m''"] stale_generation_refused [OF solo_lookup, of 1 7 "''m''"]
  by (simp add: solo_group_def)

lemma finish_owns:
  assumes "Members g \<noteq> []"
  shows "owns (finishAssignmentLocked (Some f) g) i t p \<longleftrightarrow>
    i \<in> set (mkeys (Members g)) \<and>
    p \<in> set (owned (RangeAssign (sort (mkeys (Members g)))
      (map (\<lambda>t. (t, f t)) (remdups (concat (map (\<lambda>(i, m). Topics m) (Members g)))))) i t)"
proof -
  let ?asg = "RangeAssign (sort (mkeys (Members g)))
      (map (\<lambda>t. (t, f t)) (remdups (concat (map (\<lambda>(i, m). Topics m) (Members g)))))"
  have "\<exists>ts. map_of ?asg i = Some ts" if "map_of (Members g) i = Some m" for m
    using that RangeAssign_has [of i "sort (mkeys (Members g))"] by (auto simp: set_mkeys)
  then show ?thesis
    using assms by (cases "map_of (Members g) i")
      (force simp: owns_def finishAssignmentLocked_def Let_def owned_def set_mkeys split: option.splits)+
qed

text \<open>
  C18.  When a rebalance completes, every partition of every topic that some member subscribes
  to is owned by exactly one member of the group.
\<close>

theorem rebalance_covers_topics:
  assumes "go_map (Members g)" "map_of (Members g) k = Some m" "t \<in> set (Topics m)" "distinct (f t)" "p \<in> set (f t)"
  shows "\<exists>!i. owns (finishAssignmentLocked (Some f) g) i t p"
proof -
  let ?ids = "sort (mkeys (Members g))"
  let ?subs = "remdups (concat (map (\<lambda>(i, m). Topics m) (Members g)))"
  let ?tp = "map (\<lambda>t. (t, f t)) ?subs"
  have ne: "Members g \<noteq> []" using assms(2) by auto
  have t: "t \<in> set ?subs" using assms(2,3) map_of_SomeD [of "Members g" k m] by force
  have keys: "mkeys ?tp = ?subs" by (simp add: mkeys_def comp_def)
  have gm: "go_map ?tp" by (simp only: go_map_def keys distinct_remdups)
  have tp: "map_of ?tp t = Some (f t)" using go_map_map_of [OF gm, of t "f t"] t by force
  have d: "distinct ?ids" using assms(1) by (simp add: go_map_def)
  have i0: "?ids \<noteq> []" using ne by simp
  obtain i where i: "i \<in> set ?ids" "p \<in> set (owned (RangeAssign ?ids ?tp) i t)"
    using ra.owner_exists [OF i0 d gm tp assms(5)] by blast
  let ?f = "\<lambda>m. owned (RangeAssign ?ids ?tp) m t"
  have dc: "distinct (concat (map ?f ?ids))"
    using mset_eq_imp_distinct_iff [OF ra.cover [OF i0 d gm tp]] assms(4) by simp
  have "j = i" if j: "j \<in> set ?ids" "p \<in> set (?f j)" for j
  proof (rule ccontr)
    assume "j \<noteq> i"
    from ra.distinct_concat_disjoint [OF dc j(1) i(1) this] j(2) i(2) show False by blast
  qed
  moreover have "owns (finishAssignmentLocked (Some f) g) i t p"
    unfolding finish_owns [OF ne] using i by (simp only: set_sort)
  ultimately show ?thesis
    unfolding finish_owns [OF ne] by (intro ex1I [of _ i]) (simp_all only: set_sort)
qed

theorem rebalance_covers_topics_witness:
  "\<exists>!i. owns (finishAssignmentLocked (Some (\<lambda>t. [0, 1]))
      (solo_group\<lparr>Members := [(''m'', solo_member), (''k'', solo_member\<lparr>mID := ''k''\<rparr>)]\<rparr>)) i ''t'' 1"
  using rebalance_covers_topics [of "solo_group\<lparr>Members := [(''m'', solo_member), (''k'', solo_member\<lparr>mID := ''k''\<rparr>)]\<rparr>"
      "''m''" solo_member "''t''" "\<lambda>t. [0, 1]" 1]
  by (simp add: solo_member_def go_map_def mkeys_def)

definition mixed_group :: Group where
  "mixed_group = \<lparr>gID = ''g'', gState = PreparingRebalance, Generation = 1,
     Members = [(''a'', solo_member\<lparr>mID := ''a'', Topics := [''t''], Assignment := None\<rparr>),
                (''b'', solo_member\<lparr>mID := ''b'', Topics := [''u''], Assignment := None\<rparr>)], Leader = ''''\<rparr>"

text \<open>
  Subscriptions of the individual members are not respected: the coordinator hands the
  partitions of all topics of the group to all members.  Here member \<open>a\<close> subscribes to topic
  \<open>t\<close> and member \<open>b\<close> to topic \<open>u\<close>, both with one partition; the partitions of both topics are
  given to \<open>a\<close>, and \<open>b\<close> receives nothing.
\<close>

theorem subscriptions_ignored:
  "map (\<lambda>(i, m). (i, Topics m, Assignment m)) (Members (finishAssignmentLocked (Some (\<lambda>t. [0])) mixed_group)) =
     [(''a'', [''t''], Some [(''t'', [0]), (''u'', [0])]), (''b'', [''u''], Some [])]"
  by code_simp

end
