(* ===== verification/LS_GroupLive.thy ===== *)
theory LS_GroupLive
  imports LS_GroupInv
begin

text \<open>
  When a group becomes stable (\<^verbatim>\<open>src/internal/group/coordinator.go\<close>): it does once every member has
  synchronised in the same generation; it does not as long as members join and
  synchronise in one go, the order of calls that \<open>consumeCmd\<close> of
  \<^verbatim>\<open>src/cmd/logship-cli/main.go\<close> makes.
\<close>

section \<open>A round of synchronisation\<close>

text \<open>The synchronisation calls of one generation: the times and the members, in any order.\<close>

definition sync_all :: "string \<Rightarrow> int \<Rightarrow> Coordinator \<Rightarrow> (int \<times> string) list \<Rightarrow> Coordinator" where
  "sync_all gid gen c xs = foldl (\<lambda>c (now, mid). snd (Sync now c gid mid gen)) c xs"

lemma Sync_member:
  assumes "map_of (groups c) gid = Some g" "map_of (Members g) mid = Some m" "gState g \<noteq> PreparingRebalance"
  shows "Sync now c gid mid (Generation g) =
    ((case Assignment m of None \<Rightarrow> [] | Some ts \<Rightarrow> ts, Generation g, State_String (gState (sync_group now mid m g)), None),
     put_group c gid (sync_group now mid m g))"
  using assms by (simp add: Sync_def sync_group_def Let_def)

definition others_synced :: "string \<Rightarrow> Group \<Rightarrow> bool" where
  "others_synced mid g \<longleftrightarrow> (\<forall>i x. i \<noteq> mid \<longrightarrow> map_of (Members g) i = Some x \<longrightarrow> Synced x)"

lemma sync_group_facts:
  assumes "map_of (Members g) mid = Some m" "go_map (Members g)"
  shows "Generation (sync_group now mid m g) = Generation g" "mkeys (Members (sync_group now mid m g)) = mkeys (Members g)"
    "go_map (Members (sync_group now mid m g))"
    "map_of (Members (sync_group now mid m g)) = (map_of (Members g))(mid \<mapsto> m\<lparr>LastHeartbeat := now, Synced := True\<rparr>)"
    "gState g = CompletingRebalance \<Longrightarrow> gState (sync_group now mid m g) =
       (if others_synced mid g then Stable else CompletingRebalance)"
    "gState g = Stable \<Longrightarrow> gState (sync_group now mid m g) = Stable"
proof -
  let ?ms = "mput mid (m\<lparr>LastHeartbeat := now, Synced := True\<rparr>) (Members g)"
  have gm: "go_map ?ms" using assms(2) by simp
  have la: "list_all (\<lambda>(i, x). Synced x) ?ms \<longleftrightarrow> others_synced mid g"
    by (auto simp: list_all_values [OF gm] others_synced_def)
  show "Generation (sync_group now mid m g) = Generation g" "mkeys (Members (sync_group now mid m g)) = mkeys (Members g)"
    "go_map (Members (sync_group now mid m g))"
    "map_of (Members (sync_group now mid m g)) = (map_of (Members g))(mid \<mapsto> m\<lparr>LastHeartbeat := now, Synced := True\<rparr>)"
    using gm mkeys_mput_same [OF assms(1)] by (simp_all add: sync_group_def Let_def)
  show "gState g = CompletingRebalance \<Longrightarrow> gState (sync_group now mid m g) =
       (if others_synced mid g then Stable else CompletingRebalance)"
    using la by (simp add: sync_group_def Let_def)
  show "gState g = Stable \<Longrightarrow> gState (sync_group now mid m g) = Stable" by (simp add: sync_group_def Let_def)
qed

text \<open>
  \<open>syncing g done\<close>: a group in or after its assignment whose members \<open>done\<close> have synchronised;
  it is stable as soon as these are all members.
\<close>

definition syncing :: "Group \<Rightarrow> string set \<Rightarrow> bool" where
  "syncing g ids \<longleftrightarrow> go_map (Members g) \<and> gState g \<in> {CompletingRebalance, Stable}
     \<and> (\<forall>i\<in>ids. \<exists>m. map_of (Members g) i = Some m \<and> Synced m)
     \<and> (ids \<noteq> {} \<and> set (mkeys (Members g)) \<subseteq> ids \<longrightarrow> gState g = Stable)"

lemma syncing_step:
  assumes "syncing g ids" "map_of (Members g) mid = Some m"
  shows "syncing (sync_group now mid m g) (insert mid ids)"
proof -
  have gm: "go_map (Members g)" using assms(1) by (simp add: syncing_def)
  note f = sync_group_facts [OF assms(2) gm, of now]
  have all: "others_synced mid g"
    if "set (mkeys (Members g)) \<subseteq> insert mid ids"
    unfolding others_synced_def
  proof (intro allI impI)
    fix i x assume i: "i \<noteq> mid" "map_of (Members g) i = Some x"
    then have "i \<in> ids" using that by (auto simp: set_mkeys)
    then show "Synced x" using assms(1) i(2) by (auto simp: syncing_def)
  qed
  have st: "gState g = CompletingRebalance \<or> gState g = Stable" using assms(1) by (simp add: syncing_def)
  show ?thesis using assms(1) f all st by (auto simp: syncing_def split: if_splits)
qed

lemma sync_all_syncing:
  assumes "map_of (groups c) gid = Some g" "syncing g ids" "snd ` set xs \<subseteq> set (mkeys (Members g))"
  shows "\<exists>g'. map_of (groups (sync_all gid (Generation g) c xs)) gid = Some g' \<and> syncing g' (ids \<union> snd ` set xs)
    \<and> mkeys (Members g') = mkeys (Members g) \<and> Generation g' = Generation g"
  using assms
proof (induction xs arbitrary: c g ids)
  case Nil
  then show ?case by (simp add: sync_all_def)
next
  case (Cons x xs)
  obtain now mid where x: "x = (now, mid)" by (cases x)
  then have "mid \<in> set (mkeys (Members g))" using Cons.prems(3) by simp
  then obtain m where m: "map_of (Members g) mid = Some m" by (auto simp: set_mkeys)
  let ?g = "sync_group now mid m g"
  have "gState g \<noteq> PreparingRebalance" "go_map (Members g)" using Cons.prems(2) by (auto simp: syncing_def)
  note f = sync_group_facts [OF m this(2), of now] and s = Sync_member [OF Cons.prems(1) m this(1), of now]
  have "sync_all gid (Generation g) c (x # xs) = sync_all gid (Generation ?g) (put_group c gid ?g) xs"
    using s f(1) by (simp add: sync_all_def x)
  moreover have "map_of (groups (put_group c gid ?g)) gid = Some ?g" by (simp add: put_group_def)
  moreover have "snd ` set xs \<subseteq> set (mkeys (Members ?g))" using Cons.prems(3) f(2) by auto
  ultimately show ?case
    using Cons.IH [OF _ syncing_step [OF Cons.prems(2) m, of now]] f(1,2) by (simp add: x Un_commute insert_commute)
qed

text \<open>
  C21.  A group becomes stable: when the partitions have been assigned and every member then
  synchronises with the current generation, in whatever order and however often, the group is
  stable in that generation, and each member was given its assignment.
\<close>

theorem group_stabilises:
  assumes "reachable_coord c" "map_of (groups c) gid = Some g" "gState g = CompletingRebalance"
    "snd ` set xs = set (mkeys (Members g))"
  shows "(\<exists>g'. map_of (groups (sync_all gid (Generation g) c xs)) gid = Some g' \<and> gState g' = Stable
      \<and> Generation g' = Generation g \<and> mkeys (Members g') = mkeys (Members g))
    \<and> (\<forall>now mid m. map_of (Members g) mid = Some m \<longrightarrow>
        (\<exists>ts gen st. fst (Sync now c gid mid (Generation g)) = (ts, gen, st, None) \<and> Assignment m = Some ts))"
proof -
  have ok: "group_ok g" using coord_group [OF reachable_coord_ok [OF assms(1)] assms(2)] .
  then have ne: "Members g \<noteq> []" "go_map (Members g)" and as: "\<exists>tp. assigned_by tp (Members g)"
    using assms(3) by (auto simp: group_ok_def members_ok_def)
  have "syncing g {}" using ne(2) assms(3) by (simp add: syncing_def)
  then obtain g' where g': "map_of (groups (sync_all gid (Generation g) c xs)) gid = Some g'" "syncing g' (snd ` set xs)"
      "mkeys (Members g') = mkeys (Members g)" "Generation g' = Generation g"
    using sync_all_syncing [OF assms(2), of "{}" xs] assms(4) by auto
  have "snd ` set xs \<noteq> {}" using assms(4) ne(1) by simp
  then have "gState g' = Stable" using g'(2,3) assms(4) by (simp add: syncing_def)
  moreover have "\<exists>ts gen st. fst (Sync now c gid mid (Generation g)) = (ts, gen, st, None) \<and> Assignment m = Some ts"
    if m: "map_of (Members g) mid = Some m" for now mid m
  proof -
    obtain tp where "assigned_by tp (Members g)" using as by blast
    then obtain ts where "Assignment m = Some ts"
      using m RangeAssign_has [of mid "sort (mkeys (Members g))" tp] by (force simp: assigned_by_def set_mkeys)
    then show ?thesis using Sync_member [OF assms(2) m, of now] assms(3) by simp
  qed
  ultimately show ?thesis using g' by blast
qed

theorem group_stabilises_witness:
  "\<exists>g'. map_of (groups (sync_all ''g'' 1 solo [(7, ''m'')])) ''g'' = Some g' \<and> gState g' = Stable \<and> Generation g' = 1"
  using group_stabilises [OF solo_reachable solo_lookup, of "[(7, ''m'')]"] by (auto simp: solo_group_def mkeys_def)

section \<open>Joining and synchronising in one go\<close>

definition rejoin ::
    "partitions_fun \<Rightarrow> int \<Rightarrow> int \<Rightarrow> int \<Rightarrow> string \<Rightarrow> Coordinator \<Rightarrow> string \<Rightarrow> string \<Rightarrow> string list \<Rightarrow> Coordinator" where
  "rejoin pf now1 now2 now3 newID c gid mid topics =
     (let (jr, c1) = Join pf now1 now2 newID c gid mid topics
      in snd (Sync now3 c1 gid (jMemberID jr) (jGeneration jr)))"

text \<open>What consumers of the command line tool and the broker do to a group, one call after the other.\<close>

inductive consumer_step :: "Coordinator \<Rightarrow> Coordinator \<Rightarrow> bool" where
  cs_rejoin: "pf_ok pf \<Longrightarrow> newID \<noteq> '''' \<Longrightarrow> consumer_step c (rejoin pf now1 now2 now3 newID c gid mid topics)"
| cs_heartbeat: "consumer_step c (snd (Heartbeat now c gid mid gen))"
| cs_expire: "pf_ok pf \<Longrightarrow> consumer_step c (Expire pf now c)"
| cs_commit: "consumer_step c (snd (Commit w c gid es))"

text \<open>A stable group has at most one member.\<close>

definition lonely :: "Group \<Rightarrow> bool" where
  "lonely g \<longleftrightarrow> (gState g = Stable \<longrightarrow> length (Members g) \<le> 1)"

definition unsynced :: "Group \<Rightarrow> bool" where
  "unsynced g \<longleftrightarrow> gState g \<noteq> Stable \<and> (gState g = CompletingRebalance \<longrightarrow> (\<forall>i m. map_of (Members g) i = Some m \<longrightarrow> \<not> Synced m))"

lemma finish_unsynced: "unsynced (finishAssignmentLocked pf g)"
proof (cases "Members g = []")
  case False
  define asg where "asg = RangeAssign (sort (mkeys (Members g))) (case pf of None \<Rightarrow> [] | Some f \<Rightarrow>
    map (\<lambda>t. (t, f t)) (remdups (concat (map (\<lambda>(i, m). Topics m) (Members g)))))"
  have "\<not> Synced (case map_of asg i of None \<Rightarrow> m | Some ts \<Rightarrow> m\<lparr>Assignment := Some ts, Synced := False\<rparr>)"
    if "map_of (Members g) i = Some m" for i m
  proof -
    have "i \<in> set (sort (mkeys (Members g)))" using that by (auto simp: set_mkeys)
    then obtain ts where "map_of asg i = Some ts" unfolding asg_def using RangeAssign_has by blast
    then show ?thesis by simp
  qed
  then show ?thesis using False by (auto simp: unsynced_def finishAssignmentLocked_def asg_def [symmetric] Let_def)
qed (simp add: unsynced_def finishAssignmentLocked_def)

lemma join_group_unsynced: "unsynced (join_group pf now1 now2 session mid topics g0)"
proof -
  have "unsynced (maybeCompleteJoinLocked pf now s g)" if "gState g = PreparingRebalance" for now s and g :: Group
    using that finish_unsynced by (simp add: maybeCompleteJoinLocked_def unsynced_def Let_def)
  then show ?thesis by (simp add: join_group_def Let_def)
qed

lemma go_map_single: "go_map m \<Longrightarrow> set (mkeys m) \<subseteq> {k} \<Longrightarrow> length m \<le> 1"
  using card_mono [of "{k}" "set (mkeys m)"] distinct_card [of "mkeys m"] by (simp add: go_map_def mkeys_def)

lemma sync_unsynced_lonely:
  assumes "unsynced g" "map_of (Members g) mid = Some m" "go_map (Members g)" "gState g \<noteq> PreparingRebalance" "gState g \<noteq> Empty"
  shows "lonely (sync_group now mid m g)"
proof -
  note f = sync_group_facts [OF assms(2,3), of now]
  have c: "gState g = CompletingRebalance" using assms(1,4,5) by (cases "gState g") (auto simp: unsynced_def)
  have "set (mkeys (Members g)) \<subseteq> {mid}" if "others_synced mid g"
    using that assms(1) c by (auto simp: others_synced_def unsynced_def set_mkeys)
  then have "length (Members (sync_group now mid m g)) \<le> 1" if "others_synced mid g"
    using go_map_single [OF f(3), of mid] f(2) that by simp
  then show ?thesis using f(5) [OF c] by (auto simp: lonely_def)
qed

lemma expire_lonely: "lonely g \<Longrightarrow> lonely (expire_group pf now s w g)"
proof -
  assume l: "lonely g"
  have fin: "gState (finishAssignmentLocked pf h) \<noteq> Stable" for h using finish_unsynced [of pf h] by (simp add: unsynced_def)
  show ?thesis using l fin by (auto simp: lonely_def expire_group_def Let_def intro: le_trans [OF length_filter_le])
qed

lemma beat_lonely: "lonely g \<Longrightarrow> map_of (Members g) mid = Some m \<Longrightarrow> lonely (beat_group now mid m g)"
  using mkeys_mput_same [of "Members g" mid m "m\<lparr>LastHeartbeat := now\<rparr>"]
  by (simp add: lonely_def beat_group_def mkeys_def) (metis length_map)

definition all_lonely :: "Coordinator \<Rightarrow> bool" where
  "all_lonely c \<longleftrightarrow> coord_ok c \<and> (\<forall>i g. map_of (groups c) i = Some g \<longrightarrow> lonely g)"

lemma rejoin_lonely:
  assumes "all_lonely c" "pf_ok pf" "newID \<noteq> ''''"
  shows "all_lonely (rejoin pf now1 now2 now3 newID c gid mid topics)"
proof -
  obtain g0 c0 where g: "group c gid = (g0, c0)" by (cases "group c gid")
  obtain jr c1 where j: "Join pf now1 now2 newID c gid mid topics = (jr, c1)" by fastforce
  define g1 where "g1 = join_group pf now1 now2 (sessionTimeout c0) (if mid = '''' then newID else mid) topics g0"
  have c1: "c1 = put_group c0 gid g1" using Join_group [OF g, of pf now1 now2 newID mid topics] j by (simp add: g1_def)
  have ok1: "coord_ok c1" using Join_ok [of c pf newID now1 now2 gid mid topics] assms j by (simp add: all_lonely_def)
  have u: "unsynced g1" unfolding g1_def by (rule join_group_unsynced)
  have c0: "map_of (groups c0) i = (if i = gid then Some g0 else map_of (groups c) i)" for i
    using g by (auto simp: group_def split: option.splits)
  have lone: "lonely x" if "map_of (groups c1) i = Some x" for i x
    using that c1 c0 u assms(1) by (auto simp: put_group_lookup all_lonely_def lonely_def unsynced_def split: if_splits)
  have gk: "group_ok g1" using coord_group [OF ok1, of gid g1] c1 by (simp add: put_group_lookup)
  let ?s = "snd (Sync now3 c1 gid (jMemberID jr) (jGeneration jr))"
  have "lonely x" if x: "map_of (groups ?s) i = Some x" for i x
    using Sync_cases [of now3 c1 gid "jMemberID jr" "jGeneration jr"]
  proof (elim disjE exE conjE)
    assume "?s = c1"
    then show ?thesis using x lone by simp
  next
    fix g m assume s: "map_of (groups c1) gid = Some g" "map_of (Members g) (jMemberID jr) = Some m" "gState g \<noteq> PreparingRebalance"
      "?s = put_group c1 gid (sync_group now3 (jMemberID jr) m g)"
    have "g = g1" using s(1) c1 by (simp add: put_group_lookup)
    moreover have "gState g1 \<noteq> Empty" using gk s(2) \<open>g = g1\<close> by (auto simp: group_ok_def)
    moreover have "go_map (Members g1)" using gk by (simp add: group_ok_def members_ok_def)
    ultimately have "lonely (sync_group now3 (jMemberID jr) m g)" using sync_unsynced_lonely [OF _ s(2)] u s(3) by blast
    then show ?thesis using x s(4) lone by (auto simp: put_group_lookup split: if_splits)
  qed
  then show ?thesis using Sync_ok [OF ok1] by (simp add: all_lonely_def rejoin_def j)
qed

lemma consumer_step_lonely: "consumer_step c c' \<Longrightarrow> all_lonely c \<Longrightarrow> all_lonely c'"
proof (induction rule: consumer_step.induct)
  case (cs_rejoin pf newID c now1 now2 now3 gid mid topics)
  then show ?case using rejoin_lonely by blast
next
  case (cs_heartbeat c now gid mid gen)
  let ?c = "snd (Heartbeat now c gid mid gen)"
  have ok: "coord_ok ?c" using cs_heartbeat Heartbeat_ok by (simp add: all_lonely_def)
  have "lonely x" if x: "map_of (groups ?c) i = Some x" for i x
    using Heartbeat_cases [of now c gid mid gen]
  proof (elim disjE exE conjE)
    assume "?c = c"
    then show ?thesis using x cs_heartbeat by (simp add: all_lonely_def)
  next
    fix g m assume s: "map_of (groups c) gid = Some g" "map_of (Members g) mid = Some m" "?c = put_group c gid (beat_group now mid m g)"
    then have "lonely (beat_group now mid m g)" using cs_heartbeat beat_lonely by (simp add: all_lonely_def)
    then show ?thesis using x s(3) cs_heartbeat by (simp add: put_group_lookup all_lonely_def split: if_splits)
  qed
  then show ?case using ok by (simp add: all_lonely_def)
next
  case (cs_expire pf c now)
  then show ?case using Expire_ok expire_lonely by (auto simp: all_lonely_def Expire_def)
next
  case (cs_commit c w gid es)
  then show ?case using coord_ok_groups [OF _ Commit_groups] by (auto simp: all_lonely_def Commit_groups)
qed

text \<open>
  C38.  Consumers that join and synchronise in one go do not settle: as long as every member's
  join is followed by its own synchronisation before another member joins, and a new round
  starts with a join again, no group with two or more members is ever stable, so that every
  heartbeat of its members is refused.
\<close>

theorem rejoin_never_stable:
  assumes "consumer_step\<^sup>*\<^sup>* (Coordinator_New stored session rebalance) c" "map_of (groups c) gid = Some g"
    "2 \<le> length (Members g)"
  shows "gState g \<noteq> Stable \<and> snd (fst (Heartbeat now c gid mid gen)) \<noteq> None"
proof -
  have "all_lonely (Coordinator_New stored session rebalance)"
    using reachable_coord_ok [OF reach_new] by (simp add: all_lonely_def Coordinator_New_def loadOffsets_def Let_def split: json_file.splits)
  with assms(1) have "all_lonely c"
    by (induction rule: rtranclp_induct) (auto intro: consumer_step_lonely)
  then have "lonely g" using assms(2) by (simp add: all_lonely_def)
  then have "gState g \<noteq> Stable" using assms(3) by (auto simp: lonely_def)
  then show ?thesis using assms(2) by (simp add: Heartbeat_def split: option.splits)
qed

definition two_consumers :: Coordinator where
  "two_consumers = foldl (\<lambda>c (now, m). rejoin two_parts now now now ''x'' c ''g'' m [''t''])
     (Coordinator_New NoFile 0 0) [(1, ''m''), (2, ''n''), (3, ''m''), (4, ''n'')]"

theorem rejoin_never_stable_witness:
  "\<exists>g. map_of (groups two_consumers) ''g'' = Some g \<and> length (Members g) = 2 \<and> gState g \<noteq> Stable"
proof -
  let ?step = "\<lambda>c (now, m). rejoin two_parts now now now ''x'' c ''g'' m [''t'']"
  have st: "consumer_step\<^sup>*\<^sup>* c (foldl ?step c xs)" for c xs
  proof (induction xs arbitrary: c)
    case (Cons x xs)
    have "consumer_step c (?step c x)" by (cases x) (auto intro!: cs_rejoin simp: pf_ok_def)
    then show ?case using Cons [of "?step c x"] by simp
  qed simp
  have r: "consumer_step\<^sup>*\<^sup>* (Coordinator_New NoFile 0 0) two_consumers" unfolding two_consumers_def by (rule st)
  have "case map_of (groups two_consumers) ''g'' of None \<Rightarrow> False | Some g \<Rightarrow> length (Members g) = 2" by code_simp
  then have "\<exists>g. map_of (groups two_consumers) ''g'' = Some g \<and> length (Members g) = 2" by (simp split: option.splits)
  then show ?thesis using rejoin_never_stable [OF r, of "''g''"] by auto
qed

end
