(* ===== verification/LS_GroupOffsets.thy ===== *)
theory LS_GroupOffsets
  imports LS_Group
begin

text \<open>
  Committed offsets: what \<open>FetchOffsets\<close> returns after \<open>Commit\<close>, across a restart, and for other
  groups.  The store is one flat map with keys \<open>group/topic/partition\<close>.
\<close>

section \<open>Taking keys apart\<close>

lemma lastSlash_loop_spec:
  "n \<le> length s \<Longrightarrow>
     (lastSlash_loop s n = -1 \<and> CHR ''/'' \<notin> set (take n s)) \<or>
     (\<exists>i<n. lastSlash_loop s n = int i \<and> s ! i = CHR ''/'' \<and> CHR ''/'' \<notin> set (drop (Suc i) (take n s)))"
proof (induction n)
  case 0
  then show ?case by simp
next
  case (Suc n)
  then have IH: "(lastSlash_loop s n = -1 \<and> CHR ''/'' \<notin> set (take n s)) \<or>
     (\<exists>i<n. lastSlash_loop s n = int i \<and> s ! i = CHR ''/'' \<and> CHR ''/'' \<notin> set (drop (Suc i) (take n s)))"
    by simp
  have tk: "take (Suc n) s = take n s @ [s ! n]" using Suc.prems by (simp add: take_Suc_conv_app_nth)
  show ?case
  proof (cases "s ! n = CHR ''/''")
    case True
    then show ?thesis using Suc.prems by (intro disjI2 exI [of _ n]) (simp add: tk)
  next
    case False
    with IH Suc.prems show ?thesis by (auto simp: tk intro: less_SucI)
  qed
qed

lemma lastSlash_split:
  assumes "lastSlash s = i" "0 \<le> i"
  shows "s = take (nat i) s @ CHR ''/'' # drop (nat i + 1) s" "CHR ''/'' \<notin> set (drop (nat i + 1) s)"
proof -
  obtain k where k: "k < length s" "i = int k" "s ! k = CHR ''/''" "CHR ''/'' \<notin> set (drop (Suc k) s)"
    using lastSlash_loop_spec [of "length s" s] assms by (auto simp: lastSlash_def)
  then show "s = take (nat i) s @ CHR ''/'' # drop (nat i + 1) s" "CHR ''/'' \<notin> set (drop (nat i + 1) s)"
    using id_take_nth_drop [of k s] by auto
qed

lemma split_last_unique:
  assumes "a @ c # x = b @ c # y" "c \<notin> set x" "c \<notin> set y"
  shows "a = b \<and> x = y"
  using assms by (auto simp: append_eq_append_conv2 append_eq_Cons_conv Cons_eq_append_conv)

lemma lastSlash_append:
  assumes "CHR ''/'' \<notin> set x"
  shows "lastSlash (a @ CHR ''/'' # x) = int (length a)"
proof -
  let ?s = "a @ CHR ''/'' # x"
  have "0 \<le> lastSlash ?s"
    using lastSlash_loop_spec [of "length ?s" ?s] by (auto simp: lastSlash_def)
  then have "?s = take (nat (lastSlash ?s)) ?s @ CHR ''/'' # drop (nat (lastSlash ?s) + 1) ?s"
      "CHR ''/'' \<notin> set (drop (nat (lastSlash ?s) + 1) ?s)"
    using lastSlash_split [OF refl] by blast+
  then have "a = take (nat (lastSlash ?s)) ?s \<and> x = drop (nat (lastSlash ?s) + 1) ?s"
    using assms by (intro split_last_unique) auto
  then have "length x = length ?s - (nat (lastSlash ?s) + 1)" by (metis length_drop)
  moreover have "nat (lastSlash ?s) < length ?s"
    using lastSlash_loop_spec [of "length ?s" ?s] by (auto simp: lastSlash_def)
  ultimately show ?thesis using \<open>0 \<le> lastSlash ?s\<close> by simp
qed

lemma fetch_entry_key:
  assumes "in_i64 p"
  shows "fetch_entry g flt (offsetKey g t p, v) =
    (if flt \<noteq> '''' \<and> t \<noteq> flt then None else Some \<lparr>oTopic = t, oPartition = p, oOffset = v\<rparr>)"
proof -
  have "lastSlash (t @ CHR ''/'' # Itoa p) = int (length t)" by (rule lastSlash_append [OF Itoa_no_slash])
  then show ?thesis
    using ParseInt_Itoa [OF assms] by (simp add: fetch_entry_def offsetKey_def Let_def)
qed

definition offsets_ok :: "Coordinator \<Rightarrow> bool" where
  "offsets_ok c \<longleftrightarrow> go_map (offsets c) \<and>
     (\<forall>k\<in>set (mkeys (offsets c)). \<exists>g t p. in_i64 p \<and> k = offsetKey g t p)"

lemma fetch_entry_Some:
  assumes "fetch_entry g flt (k, v) = Some e" "k = offsetKey g' t' p'" "in_i64 p'"
  shows "k = offsetKey g (oTopic e) (oPartition e) \<and> oOffset e = v \<and> (flt = '''' \<or> flt = oTopic e)"
proof -
  define rest where "rest = drop (length g + 1) k"
  define i where "i = lastSlash rest"
  have pre: "take (length g + 1) k = g @ ''/''" and len: "length g + 1 \<le> length k" and i0: "0 \<le> i"
    and p: "ParseInt (drop (nat i + 1) rest) = Some (oPartition e)" and t: "oTopic e = take (nat i) rest"
    and v: "oOffset e = v" and f: "flt = '''' \<or> flt = oTopic e"
    using assms(1) by (auto simp: fetch_entry_def Let_def rest_def i_def split: if_splits option.splits)
  define s where "s = drop (nat i + 1) rest"
  note sp = lastSlash_split [OF i_def [symmetric] i0, folded s_def]
  have "k = g @ ''/'' @ rest" using pre by (metis append.assoc append_take_drop_id rest_def)
  then have k: "k = (g @ ''/'' @ oTopic e) @ CHR ''/'' # s" using sp(1) t by simp
  have "k = (g' @ ''/'' @ t') @ CHR ''/'' # Itoa p'" using assms(2) by (simp add: offsetKey_def)
  then have "s = Itoa p'" using split_last_unique [OF _ sp(2) Itoa_no_slash] k by metis
  then have "oPartition e = p'" using p ParseInt_Itoa [OF assms(3)] by (simp add: s_def)
  then show ?thesis using k \<open>s = Itoa p'\<close> v f by (simp add: offsetKey_def)
qed

lemma set_map_filter: "set (List.map_filter f xs) = {y. \<exists>x\<in>set xs. f x = Some y}"
  by (induction xs) (auto simp: map_filter_simps split: option.splits)

lemma FetchOffsets_iff:
  assumes "offsets_ok c" "in_i64 p"
  shows "\<lparr>oTopic = t, oPartition = p, oOffset = v\<rparr> \<in> set (FetchOffsets c g flt) \<longleftrightarrow>
    map_of (offsets c) (offsetKey g t p) = Some v \<and> (flt = '''' \<or> flt = t)"
    (is "?e \<in> _ \<longleftrightarrow> ?R")
proof
  assume "?e \<in> set (FetchOffsets c g flt)"
  then obtain k w where kw: "(k, w) \<in> set (offsets c)" "fetch_entry g flt (k, w) = Some ?e"
    by (auto simp: FetchOffsets_def set_map_filter)
  have "k \<in> set (mkeys (offsets c))" using kw(1) by (force simp: mkeys_def)
  then obtain g' t' p' where "k = offsetKey g' t' p'" "in_i64 p'" using assms(1) by (auto simp: offsets_ok_def)
  from fetch_entry_Some [OF kw(2) this] kw(1) assms(1) show ?R
    using go_map_map_of [of "offsets c"] by (auto simp: offsets_ok_def)
next
  assume R: ?R
  then have "(offsetKey g t p, v) \<in> set (offsets c)" by (auto dest: map_of_SomeD)
  moreover have "fetch_entry g flt (offsetKey g t p, v) = Some ?e"
    using R fetch_entry_key [OF assms(2), of g flt t v] by auto
  ultimately show "?e \<in> set (FetchOffsets c g flt)" by (force simp: FetchOffsets_def set_map_filter)
qed

section \<open>Committing\<close>

lemma commit_entry_offsets [simp]:
  "offsets (commit_entry g c e) = mput (offsetKey g (oTopic e) (oPartition e)) (oOffset e) (offsets c)"
  by (simp add: commit_entry_def Let_def)

lemma commit_entry_ok: "offsets_ok c \<Longrightarrow> in_i64 (oPartition e) \<Longrightarrow> offsets_ok (commit_entry g c e)"
  by (auto simp: offsets_ok_def)

lemma commit_entries_ok:
  "offsets_ok c \<Longrightarrow> \<forall>e\<in>set es. in_i64 (oPartition e) \<Longrightarrow> offsets_ok (foldl (commit_entry g) c es)"
  by (induction es arbitrary: c) (auto simp: commit_entry_ok)

lemma Commit_offsets: "offsets (snd (Commit w c g es)) = offsets (foldl (commit_entry g) c es)"
  by (simp add: Commit_def persistOffsetsLocked_def)

lemma Commit_ok:
  "offsets_ok c \<Longrightarrow> \<forall>e\<in>set es. in_i64 (oPartition e) \<Longrightarrow> offsets_ok (snd (Commit w c g es))"
  using commit_entries_ok by (simp add: offsets_ok_def Commit_offsets)

lemma offsetKey_inj_group: "offsetKey g t p = offsetKey g t' p' \<Longrightarrow> t = t' \<and> Itoa p = Itoa p'"
  using split_last_unique [of t "CHR ''/''" "Itoa p" t' "Itoa p'"] Itoa_no_slash by (simp add: offsetKey_def)

lemma commit_entries_other:
  "\<forall>e\<in>set es. offsetKey g (oTopic e) (oPartition e) \<noteq> k \<Longrightarrow>
     map_of (offsets (foldl (commit_entry g) c es)) k = map_of (offsets c) k"
  by (induction es arbitrary: c) auto

lemma commit_entries_last:
  assumes "\<forall>e'\<in>set ys. (oTopic e', oPartition e') \<noteq> (oTopic e, oPartition e)"
    "\<forall>e'\<in>set ys. in_i64 (oPartition e')" "in_i64 (oPartition e)"
  shows "map_of (offsets (foldl (commit_entry g) c (xs @ e # ys))) (offsetKey g (oTopic e) (oPartition e)) = Some (oOffset e)"
proof -
  have "\<forall>e'\<in>set ys. offsetKey g (oTopic e') (oPartition e') \<noteq> offsetKey g (oTopic e) (oPartition e)"
    using assms offsetKey_inj_group ParseInt_Itoa by (metis option.inject)
  then show ?thesis by (simp add: commit_entries_other)
qed

lemma New_offsets: "offsets (Coordinator_New (JSON m) s r) = m"
  by (simp add: Coordinator_New_def loadOffsets_def Let_def)

lemma FetchOffsets_cong: "offsets c = offsets c' \<Longrightarrow> FetchOffsets c g flt = FetchOffsets c' g flt"
  by (simp add: FetchOffsets_def)

text \<open>
  C22.  Commit and fetch: after a group commits a list of offsets, the last offset committed for
  a topic and partition is what the group fetches, with and without naming the topic; when
  the write succeeded, a coordinator that starts from the file returns the same.
\<close>

theorem commit_fetch_roundtrip:
  assumes "offsets_ok c" "\<forall>e'\<in>set (xs @ e # ys). in_i64 (oPartition e')"
    "\<forall>e'\<in>set ys. (oTopic e', oPartition e') \<noteq> (oTopic e, oPartition e)"
    "Commit True c g (xs @ e # ys) = (err, c')" "flt = '''' \<or> flt = oTopic e"
  shows "err = None \<and> e \<in> set (FetchOffsets c' g flt)
    \<and> FetchOffsets (Coordinator_New (offsetFile c') s r) g flt = FetchOffsets c' g flt"
proof -
  have c': "c' = snd (Commit True c g (xs @ e # ys))" and err: "err = fst (Commit True c g (xs @ e # ys))"
    using assms(4) by simp_all
  have "offsets_ok c'" unfolding c' using assms(1,2) by (rule Commit_ok)
  moreover have "map_of (offsets c') (offsetKey g (oTopic e) (oPartition e)) = Some (oOffset e)"
    unfolding c' Commit_offsets using assms(2,3) by (intro commit_entries_last) auto
  ultimately have "e \<in> set (FetchOffsets c' g flt)"
    using FetchOffsets_iff [of c' "oPartition e" "oTopic e" "oOffset e" g flt] assms(2,5)
    by (cases e) auto
  moreover have "offsetFile c' = JSON (offsets c')" "err = None"
    by (simp_all add: c' err Commit_def persistOffsetsLocked_def)
  ultimately show ?thesis
    using FetchOffsets_cong [of "Coordinator_New (offsetFile c') s r" c' g flt] by (simp add: New_offsets)
qed

theorem commit_fetch_roundtrip_witness:
  "let e = \<lparr>oTopic = ''t'', oPartition = 1, oOffset = 42\<rparr>;
       c' = snd (Commit True (Coordinator_New NoFile 0 0) ''g'' [e])
   in e \<in> set (FetchOffsets (Coordinator_New (offsetFile c') 0 0) ''g'' ''t'')"
proof -
  let ?e = "\<lparr>oTopic = ''t'', oPartition = 1, oOffset = 42\<rparr>"
  have "offsets_ok (Coordinator_New NoFile 0 0)"
    by (simp add: offsets_ok_def Coordinator_New_def loadOffsets_def Let_def mkeys_def)
  then show ?thesis
    using commit_fetch_roundtrip [of "Coordinator_New NoFile 0 0" "[]" ?e "[]" "''g''" _ _ "''t''" 0 0]
    by (simp add: in_i64_def Let_def prod_eq_iff)
qed

section \<open>Other groups\<close>

lemma map_filter_mput: "(\<And>w. f (k, w) = None) \<Longrightarrow> List.map_filter f (mput k v m) = List.map_filter f m"
  by (induction m) (auto simp: map_filter_simps split: option.splits)

lemma no_slash_prefix:
  assumes "CHR ''/'' \<notin> set g" "CHR ''/'' \<notin> set g'" "take (length g' + 1) (g @ CHR ''/'' # xs) = g' @ ''/''"
  shows "g = g'"
proof -
  have "g @ CHR ''/'' # xs = g' @ CHR ''/'' # drop (length g' + 1) (g @ CHR ''/'' # xs)"
    using assms(3) by (metis append.assoc append_Cons append_Nil append_take_drop_id)
  then have "takeWhile (\<lambda>x. x \<noteq> CHR ''/'') (g @ CHR ''/'' # xs) =
      takeWhile (\<lambda>x. x \<noteq> CHR ''/'') (g' @ CHR ''/'' # drop (length g' + 1) (g @ CHR ''/'' # xs))" by (rule arg_cong)
  moreover have "takeWhile (\<lambda>x. x \<noteq> CHR ''/'') (h @ CHR ''/'' # ys) = h" if "CHR ''/'' \<notin> set h" for h ys
    using that by (induction h) auto
  ultimately show ?thesis using assms(1,2) by simp
qed

lemma fetch_entry_other:
  assumes "CHR ''/'' \<notin> set g" "CHR ''/'' \<notin> set g'" "g \<noteq> g'"
  shows "fetch_entry g' flt (offsetKey g t p, v) = None"
  using no_slash_prefix [OF assms(1,2), of "t @ CHR ''/'' # Itoa p"] assms(3)
  by (auto simp: fetch_entry_def offsetKey_def Let_def)

text \<open>
  Groups whose names hold no slash do not see each other's offsets: a commit of one leaves
  what the other fetches unchanged.
\<close>

theorem commit_isolated:
  assumes "CHR ''/'' \<notin> set g" "CHR ''/'' \<notin> set g'" "g \<noteq> g'"
  shows "FetchOffsets (snd (Commit w c g es)) g' flt = FetchOffsets c g' flt"
proof -
  have "List.map_filter (fetch_entry g' flt) (offsets (foldl (commit_entry g) c es)) =
      List.map_filter (fetch_entry g' flt) (offsets c)"
    by (induction es arbitrary: c) (simp_all add: map_filter_mput fetch_entry_other [OF assms])
  then show ?thesis by (simp add: FetchOffsets_def Commit_offsets)
qed

theorem commit_isolated_witness:
  "FetchOffsets (snd (Commit True (Coordinator_New (JSON [(''h/t/0'', 5)]) 0 0) ''g''
      [\<lparr>oTopic = ''t'', oPartition = 0, oOffset = 9\<rparr>])) ''h'' '''' = [\<lparr>oTopic = ''t'', oPartition = 0, oOffset = 5\<rparr>]"
proof -
  have "FetchOffsets (Coordinator_New (JSON [(''h/t/0'', 5)]) 0 0) ''h'' '''' = [\<lparr>oTopic = ''t'', oPartition = 0, oOffset = 5\<rparr>]"
    by code_simp
  then show ?thesis using commit_isolated [of "''g''" "''h''"] by simp
qed

text \<open>
  C30.  With a slash in a group name the keys collide: a commit of group \<open>a/b\<close> for topic \<open>c\<close>
  overwrites the offset that group \<open>a\<close> committed for topic \<open>b/c\<close>.
\<close>

theorem offset_keys_collide:
  "let c1 = snd (Commit True (Coordinator_New NoFile 0 0) ''a'' [\<lparr>oTopic = ''b/c'', oPartition = 0, oOffset = 7\<rparr>]);
       c2 = snd (Commit True c1 ''a/b'' [\<lparr>oTopic = ''c'', oPartition = 0, oOffset = 1\<rparr>])
   in FetchOffsets c1 ''a'' ''b/c'' = [\<lparr>oTopic = ''b/c'', oPartition = 0, oOffset = 7\<rparr>]
      \<and> FetchOffsets c2 ''a'' ''b/c'' = [\<lparr>oTopic = ''b/c'', oPartition = 0, oOffset = 1\<rparr>]"
  by code_simp

end
