(* ===== verification/LS_Store.thy ===== *)
theory LS_Store
  imports LS_LogLife
begin

text \<open>
  The store of partition logs (\<^verbatim>\<open>src/internal/store/store.go\<close>).  Paths are lists of components;
  \<open>filepath.Join\<close> cleans the joined path.  \<open>sdisk\<close> holds, by path, the partition directories as
  the process found them; once a log is open its files are part of its own state.
\<close>

section \<open>Paths\<close>

text \<open>\<open>strings.Split(s, "/")\<close>.\<close>

fun split_on :: "char \<Rightarrow> string \<Rightarrow> string list" where
  "split_on c [] = [[]]"
| "split_on c (x # xs) =
     (if x = c then [] # split_on c xs
      else (case split_on c xs of [] \<Rightarrow> [[x]] | y # ys \<Rightarrow> (x # y) # ys))"

text \<open>\<open>filepath.Clean\<close> on the components of a relative path; \<open>acc\<close> is the result so far.\<close>

fun clean_loop :: "string list \<Rightarrow> string list \<Rightarrow> string list" where
  "clean_loop acc [] = acc"
| "clean_loop acc (x # xs) =
     (if x = '''' \<or> x = ''.'' then clean_loop acc xs
      else if x = ''..'' then
        (if acc \<noteq> [] \<and> last acc \<noteq> ''..'' then clean_loop (butlast acc) xs else clean_loop (acc @ [x]) xs)
      else clean_loop (acc @ [x]) xs)"

definition clean :: "string list \<Rightarrow> string list" where
  "clean xs = clean_loop [] xs"

section \<open>The store\<close>

type_synonym path = "string list"

record Store =
  sroot :: path
  logCfg :: LogConfig
  slogs :: "(string \<times> Log) list"
  sdisk :: "(path \<times> directory) list"

definition Store_New :: "path \<Rightarrow> int \<Rightarrow> int \<Rightarrow> int \<Rightarrow> (path \<times> directory) list \<Rightarrow> Store" where
  "Store_New root fsyncEvery maxSeg idxInt disk =
     \<lparr>sroot = root, logCfg = \<lparr>MaxSegmentBytes = maxSeg, IndexInterval = idxInt, FsyncEvery = fsyncEvery\<rparr>,
      slogs = [], sdisk = disk\<rparr>"

definition key :: "string \<Rightarrow> int \<Rightarrow> string" where
  "key topic part = topic @ ''/'' @ Itoa part"

definition log_dir :: "path \<Rightarrow> string \<Rightarrow> int \<Rightarrow> path" where
  "log_dir root topic part = clean (root @ [''topics''] @ split_on CHR ''/'' topic @ [Itoa part])"

definition Store_Open :: "iofault \<Rightarrow> Store \<Rightarrow> string \<Rightarrow> int \<Rightarrow> (log_error + Log) \<times> Store" where
  "Store_Open flt s topic part =
     (let k = key topic part in
      case map_of (slogs s) k of
        Some l \<Rightarrow> (Inr l, s)
      | None \<Rightarrow>
          (case Log_Open flt (logCfg s)
                  (case map_of (sdisk s) (log_dir (sroot s) topic part) of None \<Rightarrow> [] | Some d \<Rightarrow> d) of
             Inl e \<Rightarrow> (Inl e, s)
           | Inr l \<Rightarrow> (Inr l, s\<lparr>slogs := mput k l (slogs s)\<rparr>)))"

definition Store_Get :: "Store \<Rightarrow> string \<Rightarrow> int \<Rightarrow> Log option" where
  "Store_Get s topic part = map_of (slogs s) (key topic part)"

text \<open>Writing back the log that an operation on the pointer returned by \<open>Open\<close> has changed.\<close>

definition Store_put :: "Store \<Rightarrow> string \<Rightarrow> int \<Rightarrow> Log \<Rightarrow> Store" where
  "Store_put s topic part l = s\<lparr>slogs := mput (key topic part) l (slogs s)\<rparr>"

text \<open>\<open>os.ReadDir\<close>: the names of the directories below a path, sorted.\<close>

definition read_dir :: "(path \<times> directory) list \<Rightarrow> path \<Rightarrow> string list" where
  "read_dir disk p =
     sort (remdups (List.map_filter
       (\<lambda>(q, d). if length p < length q \<and> take (length p) q = p then Some (q ! length p) else None) disk))"

fun load_parts :: "iofault \<Rightarrow> Store \<Rightarrow> string \<Rightarrow> string list \<Rightarrow> log_error option \<times> Store" where
  "load_parts flt s topic [] = (None, s)"
| "load_parts flt s topic (p # ps) =
     (case ParseInt p of
        None \<Rightarrow> load_parts flt s topic ps
      | Some n \<Rightarrow>
          (case Store_Open flt s topic n of
             (Inl e, s') \<Rightarrow> (Some e, s')
           | (Inr l, s') \<Rightarrow> load_parts flt s' topic ps))"

fun load_topics :: "iofault \<Rightarrow> Store \<Rightarrow> string list \<Rightarrow> log_error option \<times> Store" where
  "load_topics flt s [] = (None, s)"
| "load_topics flt s (t # ts) =
     (case load_parts flt s t (read_dir (sdisk s) (clean (sroot s @ [''topics'', t]))) of
        (Some e, s') \<Rightarrow> (Some e, s')
      | (None, s') \<Rightarrow> load_topics flt s' ts)"

definition LoadExisting :: "iofault \<Rightarrow> Store \<Rightarrow> log_error option \<times> Store" where
  "LoadExisting flt s =
     (if f_open flt then (Some ErrOS, s)
      else load_topics flt s (read_dir (sdisk s) (clean (sroot s @ [''topics'']))))"

definition Store_Close :: "iofault \<Rightarrow> Store \<Rightarrow> log_error option" where
  "Store_Close flt s =
     foldl (\<lambda>err (k, l). case Log_Close flt l of Some e \<Rightarrow> (if err = None then Some e else err) | None \<Rightarrow> err)
       None (slogs s)"

text \<open>\<open>strings.LastIndex(k, "/")\<close>, then the number behind it.\<close>

definition ParseKey :: "string \<Rightarrow> string \<times> int \<times> bool" where
  "ParseKey k =
     (case find (\<lambda>i. k ! i = CHR ''/'') (rev [0..<length k]) of
        None \<Rightarrow> ('''', 0, False)
      | Some i \<Rightarrow>
          (case ParseInt (drop (i + 1) k) of
             None \<Rightarrow> ('''', 0, False)
           | Some n \<Rightarrow> (take i k, n, True)))"

section \<open>Properties\<close>

lemma find_last_slash:
  assumes "CHR ''/'' \<notin> set x"
  shows "find (\<lambda>i. (a @ CHR ''/'' # x) ! i = CHR ''/'') (rev [0..<length (a @ CHR ''/'' # x)]) = Some (length a)"
  using assms
proof (induction x rule: rev_induct)
  case Nil
  then show ?case by simp
next
  case (snoc c cs)
  define ys where "ys = a @ CHR ''/'' # cs"
  have eq: "a @ CHR ''/'' # cs @ [c] = ys @ [c]" by (simp add: ys_def)
  have "find (\<lambda>i. (ys @ [c]) ! i = CHR ''/'') (rev [0..<length ys]) =
      find (\<lambda>i. ys ! i = CHR ''/'') (rev [0..<length ys])"
    by (intro find_cong) (auto simp: nth_append)
  moreover have "find (\<lambda>i. ys ! i = CHR ''/'') (rev [0..<length ys]) = Some (length a)"
    using snoc by (simp add: ys_def)
  ultimately show ?case using snoc.prems unfolding eq by (auto simp: nth_append)
qed

lemma ParseKey_key: "in_i64 part \<Longrightarrow> ParseKey (key topic part) = (topic, part, True)"
  using find_last_slash [OF Itoa_no_slash, of topic part] ParseInt_Itoa
  by (simp add: ParseKey_def key_def)

lemma key_inj: "in_i64 p \<Longrightarrow> in_i64 q \<Longrightarrow> key t p = key u q \<Longrightarrow> t = u \<and> p = q"
  using ParseKey_key by (metis prod.inject)

text \<open>An operation on an open partition leaves the other partitions alone.\<close>

lemma Store_Get_put:
  "in_i64 p \<Longrightarrow> in_i64 q \<Longrightarrow>
     Store_Get (Store_put s t p l) u q = (if t = u \<and> p = q then Some l else Store_Get s u q)"
  using key_inj [of p q t u] by (auto simp: Store_Get_def Store_put_def)

section \<open>Topic names and directories\<close>

definition plain_topic :: "string \<Rightarrow> bool" where
  "plain_topic t \<longleftrightarrow> CHR ''/'' \<notin> set t \<and> t \<notin> {'''', ''.'', ''..''}"

lemma split_on_plain: "c \<notin> set t \<Longrightarrow> split_on c t = [t]"
  by (induction t) auto

lemma clean_loop_append: "clean_loop acc (xs @ ys) = clean_loop (clean_loop acc xs) ys"
  by (induction xs arbitrary: acc) auto

lemma plain_Itoa: "plain_topic (Itoa p)"
proof -
  have ne: "Itoa p \<noteq> ''''" "Itoa p \<noteq> ''.''" "Itoa p \<noteq> ''..''"
    using nat_digits_digits [of "nat p"] nat_digits_digits [of "nat (- p)"] nat_digits_nonempty
    by (auto simp: Itoa_def is_digit_def)
  then show ?thesis using Itoa_no_slash by (simp add: plain_topic_def)
qed

lemma log_dir_plain:
  assumes "plain_topic t"
  shows "log_dir root t p = clean (root @ [''topics'']) @ [t, Itoa p]"
  using assms plain_Itoa [of p] unfolding plain_topic_def
  by (simp add: log_dir_def clean_def clean_loop_append split_on_plain)

text \<open>
  Topics whose name is a plain path component have a directory of their own for every
  partition.  A topic name is not checked, though: the directory of partition 0 of the topic
  \<open>a/../b\<close> is that of topic \<open>b\<close>, under another key, so that two logs write the same files, and
  the topic \<open>../..\<close> lies outside the data directory.
\<close>

theorem topic_directories:
  "(plain_topic t \<and> plain_topic u \<and> in_i64 p \<and> in_i64 q \<longrightarrow>
      (log_dir root t p = log_dir root u q \<longleftrightarrow> t = u \<and> p = q))
   \<and> (log_dir [''data''] ''a/../b'' 0 = log_dir [''data''] ''b'' 0 \<and> key ''a/../b'' 0 \<noteq> key ''b'' 0)
   \<and> log_dir [''data''] ''../..'' 0 = [''0'']"
proof (intro conjI impI)
  assume a: "plain_topic t \<and> plain_topic u \<and> in_i64 p \<and> in_i64 q"
  then have "Itoa p = Itoa q \<longleftrightarrow> p = q" by (metis ParseInt_Itoa option.inject)
  then show "log_dir root t p = log_dir root u q \<longleftrightarrow> t = u \<and> p = q" using a by (simp add: log_dir_plain)
next
  show "log_dir [''data''] ''a/../b'' 0 = log_dir [''data''] ''b'' 0" by code_simp
  show "key ''a/../b'' 0 \<noteq> key ''b'' 0" by code_simp
  show "log_dir [''data''] ''../..'' 0 = [''0'']" by code_simp
qed

theorem topic_directories_witness:
  "log_dir [''data''] ''a'' 1 \<noteq> log_dir [''data''] ''b'' 1"
  using topic_directories [of "''a''" "''b''" 1 1 "[''data'']"] by (simp add: plain_topic_def in_i64_def)

end
