(* ===== verification/LS_Cluster.thy ===== *)
theory LS_Cluster
  imports LS_Prelude "HOL-Library.Multiset"
begin

text \<open>
  Static membership, liveness and the choice of the controller
  (\<^verbatim>\<open>src/internal/cluster/cluster.go\<close>).  Every reading of the clock is an argument \<open>now\<close>;
  times and durations are in nanoseconds.
\<close>

record Peer =
  peerID :: int
  peerAddr :: string

record Cluster =
  Self :: Peer
  Peers :: "(int \<times> Peer) list"
  lastSeen :: "(int \<times> int) list"
  SessionTimeout :: int

definition Cluster_New :: "int \<Rightarrow> Peer \<Rightarrow> Peer list \<Rightarrow> int \<Rightarrow> Cluster" where
  "Cluster_New now self peers session0 =
     (let session = (if session0 \<le> 0 then 3000000000 else session0);
          ps = foldl (\<lambda>m p. mput (peerID p) p m) [] peers
      in \<lparr>Self = self, Peers = mput (peerID self) self ps,
          lastSeen = mput (peerID self) now [], SessionTimeout = session\<rparr>)"

definition MarkSeen :: "int \<Rightarrow> Cluster \<Rightarrow> int \<Rightarrow> Cluster" where
  "MarkSeen now c i = c\<lparr>lastSeen := mput i now (lastSeen c)\<rparr>"

definition IsAlive :: "int \<Rightarrow> Cluster \<Rightarrow> int \<Rightarrow> bool" where
  "IsAlive now c i =
     (if i = peerID (Self c) then True
      else (case map_of (lastSeen c) i of None \<Rightarrow> False | Some t \<Rightarrow> now - t < SessionTimeout c))"

definition AliveIDs :: "int \<Rightarrow> Cluster \<Rightarrow> int list" where
  "AliveIDs now c =
     sort (filter (\<lambda>i. i = peerID (Self c) \<or>
             (case map_of (lastSeen c) i of None \<Rightarrow> False | Some t \<Rightarrow> now - t < SessionTimeout c))
           (mkeys (Peers c)))"

definition ControllerID :: "int \<Rightarrow> Cluster \<Rightarrow> int" where
  "ControllerID now c =
     (let ids = AliveIDs now c in if ids = [] then peerID (Self c) else hd ids)"

definition IsController :: "int \<Rightarrow> Cluster \<Rightarrow> bool" where
  "IsController now c \<longleftrightarrow> ControllerID now c = peerID (Self c)"

definition Addr :: "Cluster \<Rightarrow> int \<Rightarrow> string" where
  "Addr c i = (case map_of (Peers c) i of None \<Rightarrow> '''' | Some p \<Rightarrow> peerAddr p)"

definition All :: "Cluster \<Rightarrow> Peer list" where
  "All c = sort_key peerID (map snd (Peers c))"

definition OtherPeers :: "Cluster \<Rightarrow> Peer list" where
  "OtherPeers c = filter (\<lambda>p. peerID p \<noteq> peerID (Self c)) (All c)"

section \<open>Invariant\<close>

definition cluster_ok :: "Cluster \<Rightarrow> bool" where
  "cluster_ok c \<longleftrightarrow> go_map (Peers c) \<and> (\<forall>(i, p)\<in>set (Peers c). peerID p = i)
     \<and> map_of (Peers c) (peerID (Self c)) = Some (Self c) \<and> 0 < SessionTimeout c"

text \<open>The brokers that take part in the choice of the controller.\<close>

definition live :: "int \<Rightarrow> Cluster \<Rightarrow> int set" where
  "live now c = {i \<in> set (mkeys (Peers c)). IsAlive now c i}"

lemma set_AliveIDs: "set (AliveIDs now c) = live now c"
  by (auto simp: AliveIDs_def live_def IsAlive_def split: option.splits)

lemma sorted_AliveIDs: "sorted (AliveIDs now c)"
  by (simp add: AliveIDs_def)

lemma ids_mput:
  assumes "\<forall>(i, p)\<in>set m. peerID p = i" "go_map m"
  shows "\<forall>(i, p)\<in>set (mput (peerID q) q m). peerID p = i"
proof (clarify)
  fix i p assume "(i, p) \<in> set (mput (peerID q) q m)"
  then have "map_of (mput (peerID q) q m) i = Some p" by (rule go_map_map_of [OF go_map_mput [OF assms(2)]])
  then show "peerID p = i" using assms by (auto split: if_splits dest: map_of_SomeD)
qed

lemma New_peers:
  "\<lbrakk>\<forall>(i, p)\<in>set m. peerID p = i; go_map m\<rbrakk> \<Longrightarrow>
     go_map (foldl (\<lambda>m p. mput (peerID p) p m) m ps) \<and>
     (\<forall>(i, p)\<in>set (foldl (\<lambda>m p. mput (peerID p) p m) m ps). peerID p = i)"
proof (induction ps arbitrary: m)
  case (Cons q ps)
  show ?case using Cons.IH [OF ids_mput [OF Cons.prems]] Cons.prems(2) by simp
qed simp

lemma cluster_ok_New: "cluster_ok (Cluster_New now self peers session)"
  using New_peers [of "[]" peers] ids_mput [of "foldl (\<lambda>m p. mput (peerID p) p m) [] peers" self]
  by (simp add: cluster_ok_def Cluster_New_def Let_def)

lemma cluster_ok_MarkSeen: "cluster_ok c \<Longrightarrow> cluster_ok (MarkSeen now c i)"
  by (simp add: cluster_ok_def MarkSeen_def)

lemma self_live: "cluster_ok c \<Longrightarrow> peerID (Self c) \<in> live now c"
  by (auto simp: live_def IsAlive_def cluster_ok_def set_mkeys)

lemma finite_live: "finite (live now c)"
  using set_AliveIDs [of now c] by (metis finite_set)

lemma ControllerID_Min: "cluster_ok c \<Longrightarrow> ControllerID now c = Min (live now c)"
proof -
  assume ok: "cluster_ok c"
  then have ne: "AliveIDs now c \<noteq> []" using self_live set_AliveIDs by (metis empty_iff list.set(1))
  then have "hd (AliveIDs now c) = Min (set (AliveIDs now c))"
    using sorted_AliveIDs [of now c] by (cases "AliveIDs now c") (auto intro!: Min_eqI [symmetric])
  then show ?thesis using ne by (simp add: ControllerID_def set_AliveIDs)
qed

text \<open>
  The controller a broker computes is the lowest id among the brokers that it takes to
  be alive; it exists, is one of the configured brokers, and is never above the broker's
  own id.  Two brokers that see the same set of live brokers agree on it, and then exactly
  one of them can take itself to be the controller.
\<close>

theorem controller_lowest_live:
  assumes "cluster_ok c" "cluster_ok d"
  shows "ControllerID now c \<in> live now c \<and> (\<forall>i\<in>live now c. ControllerID now c \<le> i)
    \<and> (IsController now c \<longleftrightarrow> (\<forall>i\<in>live now c. peerID (Self c) \<le> i))
    \<and> (live now c = live now' d \<longrightarrow> ControllerID now c = ControllerID now' d
        \<and> (IsController now c \<and> IsController now' d \<longrightarrow> peerID (Self c) = peerID (Self d)))"
proof -
  have ne: "live now c \<noteq> {}" using self_live [OF assms(1)] by blast
  have m: "ControllerID now c \<in> live now c" "\<forall>i\<in>live now c. ControllerID now c \<le> i"
    using ControllerID_Min [OF assms(1)] finite_live ne by auto
  moreover have "IsController now c \<longleftrightarrow> (\<forall>i\<in>live now c. peerID (Self c) \<le> i)"
    using m self_live [OF assms(1), of now] by (force simp: IsController_def)
  moreover have "live now c = live now' d \<longrightarrow> ControllerID now c = ControllerID now' d"
    using ControllerID_Min assms by simp
  ultimately show ?thesis by (auto simp: IsController_def)
qed

theorem controller_lowest_live_witness:
  "let p = (\<lambda>i. \<lparr>peerID = i, peerAddr = ''h''\<rparr>);
       c = MarkSeen 5 (Cluster_New 0 (p 3) [p 1, p 2, p 3] 10) 2
   in ControllerID 12 c = 2 \<and> ControllerID 20 c = 3 \<and> ControllerID 12 c \<in> live 12 c"
proof -
  let ?p = "\<lambda>i. \<lparr>peerID = i, peerAddr = ''h''\<rparr>"
  let ?c = "MarkSeen 5 (Cluster_New 0 (?p 3) [?p 1, ?p 2, ?p 3] 10) 2"
  have ok: "cluster_ok ?c" by (intro cluster_ok_MarkSeen cluster_ok_New)
  show ?thesis
    using controller_lowest_live [OF ok ok, of 12 12]
    by (simp add: Let_def ControllerID_def AliveIDs_def MarkSeen_def Cluster_New_def mkeys_def)
qed

text \<open>
  \<open>All\<close> lists every configured broker once, in increasing order of its id, and
  \<open>OtherPeers\<close> the same without the broker itself.
\<close>

lemma peers_listed:
  assumes "cluster_ok c"
  shows "sorted (map peerID (All c)) \<and> distinct (map peerID (All c))
    \<and> set (map peerID (All c)) = set (mkeys (Peers c))
    \<and> set (map peerID (OtherPeers c)) = set (mkeys (Peers c)) - {peerID (Self c)}
    \<and> (\<forall>p\<in>set (All c). Addr c (peerID p) = peerAddr p)"
proof -
  have "map peerID (map snd (Peers c)) = mkeys (Peers c)"
    using assms by (auto simp: cluster_ok_def mkeys_def)
  moreover have "mset (map peerID (All c)) = mset (map peerID (map snd (Peers c)))"
    by (simp only: All_def mset_map mset_sort)
  ultimately have m: "mset (map peerID (All c)) = mset (mkeys (Peers c))" by simp
  then have "distinct (map peerID (All c))"
    using assms by (metis cluster_ok_def go_map_def mset_eq_imp_distinct_iff)
  moreover have ids: "set (map peerID (All c)) = set (mkeys (Peers c))" using m by (metis set_mset_mset)
  moreover have "sorted (map peerID (All c))" by (simp add: All_def)
  moreover have "set (map peerID (OtherPeers c)) = set (mkeys (Peers c)) - {peerID (Self c)}"
    using ids by (auto simp: OtherPeers_def)
  moreover have "Addr c (peerID p) = peerAddr p" if "p \<in> set (All c)" for p
  proof -
    from that obtain i where "(i, p) \<in> set (Peers c)" by (auto simp: All_def)
    then have "map_of (Peers c) (peerID p) = Some p"
      using assms go_map_map_of by (fastforce simp: cluster_ok_def)
    then show ?thesis by (simp add: Addr_def)
  qed
  ultimately show ?thesis by blast
qed

end
