(* ===== verification/LS_Wire.thy ===== *)
theory LS_Wire
  imports LS_Group LS_Record
begin

text \<open>
  The messages of the HTTP interface (\<^verbatim>\<open>src/internal/protocol/types.go\<close>): one constructor of
  \<open>request\<close> for each route that \<open>Start\<close> of \<^verbatim>\<open>src/internal/broker/broker.go\<close> registers, one
  constructor of \<open>answer_body\<close> for each shape of answer.  Keys and values of records are byte
  strings and go through JSON strings, which hold UTF-8 only; names are taken to be UTF-8.
  A program that makes HTTP calls is a value of \<open>prog\<close>.
\<close>

section \<open>JSON strings\<close>

text \<open>
  \<open>encoding/json\<close> writes every byte that is not part of a valid UTF-8 sequence as U+FFFD.
  \<open>utf8_len\<close> is the length of the sequence at the front as \<open>utf8.DecodeRune\<close> finds it, or 0:
  overlong forms, surrogates and values above U+10FFFF are not valid.
\<close>

definition cont :: "byte \<Rightarrow> bool" where
  "cont x \<longleftrightarrow> 0x80 \<le> x \<and> x \<le> 0xBF"

fun utf8_len :: "byte list \<Rightarrow> nat" where
  "utf8_len [] = 0"
| "utf8_len (x # xs) =
     (if x < 0x80 then 1
      else (case xs of
          [] \<Rightarrow> 0
        | y # ys \<Rightarrow>
            if 0xC2 \<le> x \<and> x \<le> 0xDF then (if cont y then 2 else 0)
            else (case ys of
                [] \<Rightarrow> 0
              | z # zs \<Rightarrow>
                  if 0xE0 \<le> x \<and> x \<le> 0xEF then
                    (if cont y \<and> cont z \<and> (x = 0xE0 \<longrightarrow> 0xA0 \<le> y) \<and> (x = 0xED \<longrightarrow> y \<le> 0x9F) then 3 else 0)
                  else (case zs of
                      [] \<Rightarrow> 0
                    | v # vs \<Rightarrow>
                        if 0xF0 \<le> x \<and> x \<le> 0xF4 \<and> cont y \<and> cont z \<and> cont v
                          \<and> (x = 0xF0 \<longrightarrow> 0x90 \<le> y) \<and> (x = 0xF4 \<longrightarrow> y \<le> 0x8F) then 4 else 0))))"

lemma utf8_len_le: "utf8_len xs \<le> length xs"
  by (cases xs) (auto split: list.splits)

function json_string :: "byte list \<Rightarrow> byte list" where
  "json_string [] = []"
| "json_string (x # xs) =
     (let n = utf8_len (x # xs) in
      if n = 0 then [0xEF, 0xBF, 0xBD] @ json_string xs
      else take n (x # xs) @ json_string (drop n (x # xs)))"
  by pat_completeness auto
termination
  by (relation "measure length") (auto simp del: utf8_len.simps)

function valid_utf8 :: "byte list \<Rightarrow> bool" where
  "valid_utf8 [] \<longleftrightarrow> True"
| "valid_utf8 (x # xs) =
     (if utf8_len (x # xs) = 0 then False else valid_utf8 (drop (utf8_len (x # xs)) (x # xs)))"
  by pat_completeness auto
termination
  by (relation "measure length") (auto simp del: utf8_len.simps)

declare utf8_len.simps(2) [simp del]

lemma json_string_length: "length xs \<le> length (json_string xs)"
proof (induction xs rule: json_string.induct)
  case (2 x xs)
  let ?n = "utf8_len (x # xs)"
  show ?case
  proof (cases "?n = 0")
    case True
    then show ?thesis using 2(1) [OF refl True] by simp
  next
    case False
    then show ?thesis using 2(2) [OF refl False] utf8_len_le [of "x # xs"] by (simp add: Let_def)
  qed
qed simp

text \<open>Exactly the valid byte strings come through unchanged.\<close>

lemma json_string_id: "json_string xs = xs \<longleftrightarrow> valid_utf8 xs"
proof (induction xs rule: json_string.induct)
  case (2 x xs)
  let ?n = "utf8_len (x # xs)"
  show ?case
  proof (cases "?n = 0")
    case True
    then have "length (x # xs) < length (json_string (x # xs))"
      using json_string_length [of xs] by simp
    then have "json_string (x # xs) \<noteq> x # xs" by auto
    then show ?thesis using True by (simp del: json_string.simps)
  next
    case False
    have "json_string (x # xs) = take ?n (x # xs) @ json_string (drop ?n (x # xs))"
      using False by (simp add: Let_def)
    then have "json_string (x # xs) = x # xs \<longleftrightarrow> json_string (drop ?n (x # xs)) = drop ?n (x # xs)"
      using same_append_eq [of "take ?n (x # xs)" "json_string (drop ?n (x # xs))" "drop ?n (x # xs)"]
      unfolding append_take_drop_id by simp
    then show ?thesis unfolding 2(2) [OF refl False] using False by (simp del: json_string.simps)
  qed
qed simp

section \<open>Message types\<close>

record ErrorBody =
  eError :: string
  eLeader :: int
  eLeaderAddr :: string

record CreateTopicRequest =
  ctName :: string
  ctPartitions :: int
  ctReplicationFactor :: int

record BrokerInfo =
  biID :: int
  biAddr :: string
  biAlive :: bool

record PartitionInfo =
  iID :: int
  iLeader :: int
  iReplicas :: "int list"
  iISR :: "int list"
  iHW :: int
  iLEO :: int

record TopicInfo =
  iName :: string
  iPartitions :: "PartitionInfo list"

record Metadata =
  mdController :: int
  mdBrokers :: "BrokerInfo list"
  mdTopics :: "TopicInfo list"

record ProduceRecord =
  prKey :: "byte list"
  prValue :: "byte list"
  prPartition :: int

record ProduceRequest =
  rqTopic :: string
  rqPartition :: int
  rqKey :: "byte list"
  rqValue :: "byte list"
  rqAcks :: string
  rqRecords :: "ProduceRecord list"

record ProduceResult =
  resPartition :: int
  resOffset :: int

record ProduceResponse =
  rsTopic :: string
  rsResults :: "ProduceResult list"

record WireRecord =
  wOffset :: int
  wTimestamp :: int
  wKey :: "byte list"
  wValue :: "byte list"

record FetchResponse =
  fTopic :: string
  fPartition :: int
  fHighWatermark :: int
  fLogEndOffset :: int
  fRecords :: "WireRecord list"

record JoinRequest =
  jqMemberID :: string
  jqTopics :: "string list"

text \<open>\<open>JoinResponse\<close> has the fields of the coordinator's \<open>JoinResult\<close>, in the same order.\<close>

record JoinResponse =
  jrMemberID :: string
  jrGeneration :: int
  jrLeaderID :: string
  jrMembers :: "string list"
  jrState :: string

record SyncRequest =
  sqMemberID :: string
  sqGeneration :: int

record SyncResponse =
  srGeneration :: int
  srAssignment :: topic_map
  srState :: string

record HeartbeatRequest =
  hqMemberID :: string
  hqGeneration :: int

record HeartbeatResponse =
  hrError :: string
  hrState :: string

record LeaveRequest =
  lqMemberID :: string

record OffsetCommit =
  ocTopic :: string
  ocPartition :: int
  ocOffset :: int

record OffsetCommitRequest =
  oqMemberID :: string
  oqGeneration :: int
  oqOffsets :: "OffsetCommit list"

record ReplicaAckRequest =
  aBrokerID :: int
  aTopic :: string
  aPartition :: int
  aLEO :: int

record HeartbeatPeerRequest =
  pqBrokerID :: int

record MetadataPush =
  pushController :: int
  pushTopics :: "TopicInfo list"

text \<open>
  A request body as the handler decodes it: \<open>Bad v\<close> is a decoding error, \<open>v\<close> what the decoder
  has stored by then.  The query of a fetch is its raw strings.
\<close>

datatype 'a body = Good 'a | Bad 'a

primrec decoded :: "'a body \<Rightarrow> 'a" where
  "decoded (Good v) = v"
| "decoded (Bad v) = v"

record FetchQuery =
  fqTopic :: string
  fqPartition :: string
  fqOffset :: string
  fqMaxBytes :: string
  fqReplica :: string

record ProduceQuery =
  pqTopic :: string
  pqKey :: "byte list"
  pqValue :: "byte list"
  pqAcks :: string

datatype request =
    ReqHealth
  | ReqMetadata
  | ReqTopics "CreateTopicRequest body"
  | ReqProduce "ProduceRequest body" ProduceQuery
  | ReqFetch FetchQuery
  | ReqJoin string "JoinRequest body"
  | ReqSync string "SyncRequest body"
  | ReqHeartbeat string "HeartbeatRequest body"
  | ReqLeave string "LeaveRequest body"
  | ReqCommit string "OffsetCommitRequest body"
  | ReqOffsets string string
  | ReqPeer "HeartbeatPeerRequest body"
  | ReqPush "MetadataPush body"
  | ReqReplicaFetch FetchQuery
  | ReqAck "ReplicaAckRequest body"

datatype answer_body =
    BHealth int int
  | BMetadata Metadata
  | BError ErrorBody
  | BStatus string
  | BCreated string
  | BProduce ProduceResponse
  | BFetch FetchResponse
  | BJoin JoinResponse
  | BSync SyncResponse
  | BHeartbeat HeartbeatResponse
  | BOffsets "OffsetCommit list"
  | BPeer int int

text \<open>A status code and a body; \<open>None\<close> when there is no answer.\<close>

type_synonym answer = "(int \<times> answer_body) option"

section \<open>Programs that make calls\<close>

datatype 'r prog =
    Ret 'r
  | Call string request "answer \<Rightarrow> 'r prog"

primrec bind :: "'a prog \<Rightarrow> ('a \<Rightarrow> 'b prog) \<Rightarrow> 'b prog" where
  "bind (Ret x) f = f x"
| "bind (Call a q k) f = Call a q (\<lambda>ans. bind (k ans) f)"

text \<open>Running a program where \<open>net\<close> answers the calls and may change the state of the network.\<close>

primrec exec :: "('s \<Rightarrow> string \<Rightarrow> request \<Rightarrow> answer \<times> 's) \<Rightarrow> 'r prog \<Rightarrow> 's \<Rightarrow> 'r \<times> 's" where
  "exec net (Ret x) = (\<lambda>s. (x, s))"
| "exec net (Call a q k) = (\<lambda>s. case net s a q of (ans, s') \<Rightarrow> exec net (k ans) s')"

text \<open>The calls that such a run makes.\<close>

primrec calls :: "('s \<Rightarrow> string \<Rightarrow> request \<Rightarrow> answer \<times> 's) \<Rightarrow> 'r prog \<Rightarrow> 's \<Rightarrow> (string \<times> request) list" where
  "calls net (Ret x) = (\<lambda>s. [])"
| "calls net (Call a q k) = (\<lambda>s. case net s a q of (ans, s') \<Rightarrow> (a, q) # calls net (k ans) s')"

lemma exec_bind: "exec net (bind p f) s = (case exec net p s of (x, s') \<Rightarrow> exec net (f x) s')"
  by (induction p arbitrary: s) (auto split: prod.splits)

lemma bind_assoc: "bind (bind p f) g = bind p (\<lambda>x. bind (f x) g)"
  by (induction p) auto

lemma bind_Ret: "bind p Ret = p"
  by (induction p) auto

section \<open>Records in JSON\<close>

definition json_wire :: "WireRecord \<Rightarrow> WireRecord" where
  "json_wire r = r\<lparr>wKey := json_string (wKey r), wValue := json_string (wValue r)\<rparr>"

definition json_answer :: "answer_body \<Rightarrow> answer_body" where
  "json_answer b = (case b of BFetch f \<Rightarrow> BFetch (f\<lparr>fRecords := map json_wire (fRecords f)\<rparr>) | _ \<Rightarrow> b)"

definition json_produce :: "ProduceRequest \<Rightarrow> ProduceRequest" where
  "json_produce q = q\<lparr>rqKey := json_string (rqKey q), rqValue := json_string (rqValue q),
     rqRecords := map (\<lambda>r. r\<lparr>prKey := json_string (prKey r), prValue := json_string (prValue r)\<rparr>) (rqRecords q)\<rparr>"

text \<open>What a record is after it went through \<open>toWire\<close>, JSON and the follower's conversion.\<close>

definition toWireRecord :: "Record \<Rightarrow> WireRecord" where
  "toWireRecord r = \<lparr>wOffset = Offset r, wTimestamp = Timestamp r, wKey = Key r, wValue = Value r\<rparr>"

definition toWire :: "Record list \<Rightarrow> WireRecord list" where
  "toWire recs = map toWireRecord recs"

definition fromWire :: "WireRecord \<Rightarrow> Record" where
  "fromWire wr = \<lparr>Offset = wOffset wr, Timestamp = wTimestamp wr, Key = wKey wr, Value = wValue wr\<rparr>"

definition text_rec :: "Record \<Rightarrow> bool" where
  "text_rec r \<longleftrightarrow> valid_utf8 (Key r) \<and> valid_utf8 (Value r)"

lemma wire_text: "fromWire (json_wire (toWireRecord r)) = r \<longleftrightarrow> text_rec r"
  by (cases r) (auto simp: fromWire_def json_wire_def toWireRecord_def text_rec_def json_string_id)

text \<open>
  C32.  A record survives the wire exactly if its key and its value are valid UTF-8: a follower
  stores every other record with different bytes than its leader.
\<close>

theorem wire_roundtrip:
  "fromWire (json_wire (toWireRecord r)) = r \<longleftrightarrow> valid_utf8 (Key r) \<and> valid_utf8 (Value r)"
  using wire_text by (simp add: text_rec_def)

end
