(* ===== verification/LS_Broker.thy ===== *)
theory LS_Broker
  imports LS_Store LS_Group LS_Cluster LS_Routing LS_Wire
begin

text \<open>
  A broker: its configuration and state (\<^verbatim>\<open>src/internal/broker/config.go\<close>, \<^verbatim>\<open>broker.go\<close>), the topic
  metadata (\<^verbatim>\<open>metadata.go\<close>), the duties of the controller, and replication (\<^verbatim>\<open>replica.go\<close>).  The
  sections under one mutex are atomic functions on the broker.  The clock is an argument
  \<open>now\<close>, one reading for each call; \<open>w\<close> says whether a metadata file can be written; requests
  to other brokers are put into \<open>outbox\<close>, in order, and answers are arguments.  A broadcast
  that the source starts as a goroutine takes its snapshot at once.
\<close>

section \<open>Configuration\<close>

record BConfig =
  cID :: int
  cBind :: string
  cAdvertise :: string
  cDataDir :: path
  cPeers :: "Peer list"
  cSessionTimeout :: int
  cGroupSession :: int
  cRebalanceWait :: int
  cReplicaLagTime :: int
  cFsyncEvery :: int
  cMaxSegmentBytes :: int
  cIndexInterval :: int
  cMinISR :: int
  cProduceTimeout :: int

text \<open>\<open>strings.TrimSpace\<close> (ASCII white space) and \<open>strings.Cut\<close>.\<close>

definition is_space :: "char \<Rightarrow> bool" where
  "is_space c \<longleftrightarrow> c \<in> {CHR '' '', CHR 0x09, CHR 0x0A, CHR 0x0B, CHR 0x0C, CHR 0x0D}"

definition TrimSpace :: "string \<Rightarrow> string" where
  "TrimSpace s = rev (dropWhile is_space (rev (dropWhile is_space s)))"

definition Cut :: "char \<Rightarrow> string \<Rightarrow> (string \<times> string) option" where
  "Cut c s = (if c \<in> set s then Some (takeWhile (\<lambda>x. x \<noteq> c) s, tl (dropWhile (\<lambda>x. x \<noteq> c) s)) else None)"

fun parse_peer_list :: "string list \<Rightarrow> Peer list option" where
  "parse_peer_list [] = Some []"
| "parse_peer_list (x # xs) =
     (case Cut CHR ''='' (TrimSpace x) of
        None \<Rightarrow> None
      | Some (idStr, addr) \<Rightarrow>
          (case ParseInt idStr of
             None \<Rightarrow> None
           | Some i \<Rightarrow>
               (case parse_peer_list xs of
                  None \<Rightarrow> None
                | Some ps \<Rightarrow> Some (\<lparr>peerID = i, peerAddr = addr\<rparr> # ps))))"

definition ParsePeers :: "string \<Rightarrow> Peer list option" where
  "ParsePeers s0 =
     (let s = TrimSpace s0 in if s = '''' then Some [] else parse_peer_list (split_on CHR '','' s))"

section \<open>State\<close>

record partitionMeta =
  pID :: int
  pLeader :: int
  pReplicas :: "int list"
  pISR :: "int list"

record topicMeta =
  tName :: string
  tPartitions :: "partitionMeta list"

record replicaState =
  rleo :: int
  rlastSeen :: int

datatype msg =
    MsgHeartbeat string int
  | MsgPush string MetadataPush
  | MsgAck string ReplicaAckRequest

record Broker =
  bcfg :: BConfig
  bcluster :: Cluster
  bstore :: Store
  bgroups :: Coordinator
  bpartitioner :: Partitioner
  btopics :: "(string \<times> topicMeta) list"
  topicsFile :: "topicMeta list json_file"
  replicaLEO :: "(string \<times> (int \<times> replicaState) list) list"
  followCancel :: "(string \<times> int) list"
  outbox :: "msg list"

definition offsetsTopic :: string where
  "offsetsTopic = ''__consumer_offsets''"

definition replicaKey :: "string \<Rightarrow> int \<Rightarrow> string" where
  "replicaKey topic part = topic @ ''/'' @ Itoa part"

abbreviation self_id :: "Broker \<Rightarrow> int" where
  "self_id b \<equiv> cID (bcfg b)"

section \<open>Topic metadata\<close>

definition topic :: "Broker \<Rightarrow> string \<Rightarrow> topicMeta option" where
  "topic b name = map_of (btopics b) name"

definition partition_meta :: "Broker \<Rightarrow> string \<Rightarrow> int \<Rightarrow> partitionMeta option" where
  "partition_meta b name i =
     (case map_of (btopics b) name of
        None \<Rightarrow> None
      | Some t \<Rightarrow> find (\<lambda>p. pID p = i) (tPartitions t))"

definition topicPartitions :: "Broker \<Rightarrow> string \<Rightarrow> int list" where
  "topicPartitions b name =
     (case topic b name of None \<Rightarrow> [] | Some t \<Rightarrow> map pID (tPartitions t))"

text \<open>The sort of the source compares names; the names of a topic map are distinct.\<close>

definition snapshotTopics :: "Broker \<Rightarrow> topicMeta list" where
  "snapshotTopics b = sort_key tName (map snd (btopics b))"

definition persistTopicsLocked :: "bool \<Rightarrow> Broker \<Rightarrow> Broker" where
  "persistTopicsLocked w b =
     (if w then b\<lparr>topicsFile := JSON (sort_key tName (map snd (btopics b)))\<rparr> else b)"

definition loadTopics :: "Broker \<Rightarrow> Broker option" where
  "loadTopics b =
     (case topicsFile b of
        NoFile \<Rightarrow> Some b
      | BadFile \<Rightarrow> None
      | JSON ts \<Rightarrow> Some (b\<lparr>btopics := foldl (\<lambda>m t. mput (tName t) t m) (btopics b) ts\<rparr>))"

definition filterAlive :: "int list \<Rightarrow> (int \<Rightarrow> bool) \<Rightarrow> int list" where
  "filterAlive ids alive = filter alive ids"

text \<open>The metadata of one partition of a push, as \<open>applyTopics\<close> takes it over.\<close>

definition apply_partition ::
    "int \<Rightarrow> bool \<Rightarrow> (int \<Rightarrow> bool) \<Rightarrow> topicMeta option \<Rightarrow> partitionMeta \<Rightarrow> partitionMeta" where
  "apply_partition self isController alive prev inp =
     (let local = (case prev of None \<Rightarrow> None | Some t \<Rightarrow> find (\<lambda>p. pID p = pID inp) (tPartitions t)) in
      case local of
        Some lp \<Rightarrow>
          if pLeader lp = self \<and> pLeader inp = self then inp\<lparr>pISR := pISR lp\<rparr>
          else
            (let in1 = (if isController \<and> \<not> alive (pLeader inp) then inp\<lparr>pLeader := pLeader lp\<rparr> else inp);
                 isr = filterAlive (pISR in1) (\<lambda>i. i = self \<or> alive i)
             in in1\<lparr>pISR := (if isr = [] then [pLeader in1] else isr)\<rparr>)
      | None \<Rightarrow>
          (let isr = filterAlive (pISR inp) (\<lambda>i. i = self \<or> alive i)
           in inp\<lparr>pISR := (if isr = [] then [pLeader inp] else isr)\<rparr>))"

definition apply_topic :: "int \<Rightarrow> Broker \<Rightarrow> topicMeta \<Rightarrow> Broker" where
  "apply_topic now b t =
     (let prev = map_of (btopics b) (tName t);
          cp = t\<lparr>tPartitions := map (apply_partition (self_id b) (IsController now (bcluster b))
                   (IsAlive now (bcluster b)) prev) (tPartitions t)\<rparr>
      in b\<lparr>btopics := mput (tName t) cp (btopics b)\<rparr>)"

definition applyTopics :: "int \<Rightarrow> bool \<Rightarrow> Broker \<Rightarrow> topicMeta list \<Rightarrow> Broker" where
  "applyTopics now w b ts = persistTopicsLocked w (foldl (apply_topic now) b ts)"

text \<open>
  \<open>None\<close>: an index out of range, a division by zero (no brokers) or a negative length.
\<close>

definition assignReplicas :: "int \<Rightarrow> int \<Rightarrow> int \<Rightarrow> int list \<Rightarrow> partitionMeta list option" where
  "assignReplicas npart rf0 nbrokers ids =
     (let rf1 = (if rf0 < 1 then 1 else rf0);
          rf = (if rf1 > nbrokers then nbrokers else rf1);
          row = (\<lambda>i. map (\<lambda>r. ids ! nat ((i + r) mod nbrokers)) [0..rf - 1])
      in if npart < 0 \<or> npart > 0 \<and> (nbrokers \<le> 0 \<or> nbrokers > int (length ids)) then None
         else Some (map (\<lambda>i. \<lparr>pID = i, pLeader = hd (row i), pReplicas = row i, pISR = [hd (row i)]\<rparr>)
                      [0..npart - 1]))"

definition toPartitionInfo :: "partitionMeta \<Rightarrow> PartitionInfo" where
  "toPartitionInfo p =
     \<lparr>iID = pID p, iLeader = pLeader p, iReplicas = pReplicas p, iISR = pISR p, iHW = 0, iLEO = 0\<rparr>"

definition metadataPush :: "int \<Rightarrow> Broker \<Rightarrow> MetadataPush" where
  "metadataPush now b =
     \<lparr>pushController = ControllerID now (bcluster b),
      pushTopics = map (\<lambda>t. \<lparr>iName = tName t, iPartitions = map toPartitionInfo (tPartitions t)\<rparr>)
        (snapshotTopics b)\<rparr>"

definition firstAlive :: "int list \<Rightarrow> (int \<Rightarrow> bool) \<Rightarrow> int option" where
  "firstAlive replicas alive =
     (case find alive replicas of
        Some i \<Rightarrow> Some i
      | None \<Rightarrow> (case replicas of [] \<Rightarrow> None | r # rs \<Rightarrow> Some r))"

section \<open>Construction\<close>

definition default_cfg :: "BConfig \<Rightarrow> BConfig" where
  "default_cfg c = c\<lparr>
     cBind := (if cBind c = '''' then ''0.0.0.0:9092'' else cBind c),
     cDataDir := (if cDataDir c = [] then [''data''] else cDataDir c),
     cSessionTimeout := (if cSessionTimeout c = 0 then 3000000000 else cSessionTimeout c),
     cGroupSession := (if cGroupSession c = 0 then 10000000000 else cGroupSession c),
     cRebalanceWait := (if cRebalanceWait c = 0 then 2000000000 else cRebalanceWait c),
     cReplicaLagTime := (if cReplicaLagTime c = 0 then 5000000000 else cReplicaLagTime c),
     cMaxSegmentBytes := (if cMaxSegmentBytes c = 0 then 1048576 else cMaxSegmentBytes c),
     cIndexInterval := (if cIndexInterval c = 0 then 4096 else cIndexInterval c),
     cMinISR := (if cMinISR c \<le> 0 then 1 else cMinISR c),
     cProduceTimeout := (if cProduceTimeout c = 0 then 5000000000 else cProduceTimeout c)\<rparr>"

text \<open>The arguments are the clock and what the data directory holds; \<open>None\<close> is an error.\<close>

definition Broker_New ::
    "iofault \<Rightarrow> int \<Rightarrow> BConfig \<Rightarrow> (path \<times> directory) list \<Rightarrow> (string \<times> int) list json_file
     \<Rightarrow> topicMeta list json_file \<Rightarrow> Broker option" where
  "Broker_New flt now cfg0 disk offs tops =
     (let cfg = default_cfg cfg0;
          self = \<lparr>peerID = cID cfg, peerAddr = cAdvertise cfg\<rparr>;
          cl = Cluster_New now self (cPeers cfg) (cSessionTimeout cfg);
          (err, st) = LoadExisting flt (Store_New (cDataDir cfg) (cFsyncEvery cfg) (cMaxSegmentBytes cfg)
                        (cIndexInterval cfg) disk)
      in if err \<noteq> None then None
         else
           loadTopics \<lparr>bcfg = cfg, bcluster = cl, bstore = st,
             bgroups = SetOffsetHook (Coordinator_New offs (cGroupSession cfg) (cRebalanceWait cfg)) True,
             bpartitioner = \<lparr>rr = 0\<rparr>, btopics = [], topicsFile = tops, replicaLEO = [],
             followCancel = [], outbox = []\<rparr>)"

section \<open>The controller\<close>

definition broadcastMetadata :: "int \<Rightarrow> Broker \<Rightarrow> Broker" where
  "broadcastMetadata now b =
     (let push = metadataPush now b
      in b\<lparr>outbox := outbox b @ map (\<lambda>p. MsgPush (peerAddr p) push) (OtherPeers (bcluster b))\<rparr>)"

text \<open>One partition in \<open>controllerTick\<close>; \<open>None\<close> is the panic of \<open>firstAlive\<close> on no replicas.\<close>

definition tick_partition :: "(int \<Rightarrow> bool) \<Rightarrow> partitionMeta \<Rightarrow> (partitionMeta \<times> bool) option" where
  "tick_partition alive p =
     (let aliveISR = filter alive (pISR p);
          changed1 = (\<exists>i\<in>set (pISR p). \<not> alive i);
          p1 = p\<lparr>pISR := aliveISR\<rparr>;
          step2 = (if \<not> alive (pLeader p1) then
                     (case firstAlive (pReplicas p1) alive of
                        None \<Rightarrow> None
                      | Some l \<Rightarrow>
                          Some (p1\<lparr>pLeader := l, pISR := (if l \<notin> set (pISR p1) then l # pISR p1 else pISR p1)\<rparr>, True))
                   else Some (p1, changed1))
      in case step2 of
           None \<Rightarrow> None
         | Some (p2, changed2) \<Rightarrow>
             (let pref = hd (pReplicas p2);
                  (p3, changed3) =
                    (if pReplicas p2 \<noteq> [] \<and> pref \<noteq> pLeader p2 \<and> alive pref \<and> pref \<in> set (pISR p2)
                     then (p2\<lparr>pLeader := pref\<rparr>, True) else (p2, changed2))
              in Some (if pISR p3 = [] then (p3\<lparr>pISR := [pLeader p3]\<rparr>, True) else (p3, changed3))))"

fun tick_partitions :: "(int \<Rightarrow> bool) \<Rightarrow> partitionMeta list \<Rightarrow> (partitionMeta list \<times> bool) option" where
  "tick_partitions alive [] = Some ([], False)"
| "tick_partitions alive (p # ps) =
     (case tick_partition alive p of
        None \<Rightarrow> None
      | Some (p', c) \<Rightarrow>
          (case tick_partitions alive ps of
             None \<Rightarrow> None
           | Some (ps', c') \<Rightarrow> Some (p' # ps', c \<or> c')))"

fun tick_topics :: "(int \<Rightarrow> bool) \<Rightarrow> (string \<times> topicMeta) list \<Rightarrow> ((string \<times> topicMeta) list \<times> bool) option" where
  "tick_topics alive [] = Some ([], False)"
| "tick_topics alive ((k, t) # ts) =
     (case tick_partitions alive (tPartitions t) of
        None \<Rightarrow> None
      | Some (ps, c) \<Rightarrow>
          (case tick_topics alive ts of
             None \<Rightarrow> None
           | Some (ts', c') \<Rightarrow> Some ((k, t\<lparr>tPartitions := ps\<rparr>) # ts', c \<or> c')))"

definition controllerTick :: "int \<Rightarrow> bool \<Rightarrow> Broker \<Rightarrow> Broker option" where
  "controllerTick now w b =
     (case tick_topics (IsAlive now (bcluster b)) (btopics b) of
        None \<Rightarrow> None
      | Some (ts, changed) \<Rightarrow>
          (let b1 = b\<lparr>btopics := ts\<rparr>
           in Some (if changed then broadcastMetadata now (persistTopicsLocked w b1) else b1)))"

definition createTopicLocked :: "int \<Rightarrow> bool \<Rightarrow> Broker \<Rightarrow> string \<Rightarrow> int \<Rightarrow> int \<Rightarrow> Broker option" where
  "createTopicLocked now w b name npart0 rf =
     (if map_of (btopics b) name \<noteq> None then Some b
      else
        (let ids = map peerID (All (bcluster b));
             npart = (if npart0 \<le> 0 then 1 else npart0)
         in case assignReplicas npart rf (int (length ids)) ids of
              None \<Rightarrow> None
            | Some parts \<Rightarrow>
                Some (broadcastMetadata now (persistTopicsLocked w
                  (b\<lparr>btopics := mput name \<lparr>tName = name, tPartitions = parts\<rparr> (btopics b)\<rparr>)))))"

definition ensureOffsetsTopic :: "int \<Rightarrow> bool \<Rightarrow> Broker \<Rightarrow> Broker option" where
  "ensureOffsetsTopic now w b =
     (case topic b offsetsTopic of
        Some t \<Rightarrow> Some b
      | None \<Rightarrow> createTopicLocked now w b offsetsTopic 1 (min 3 (int (length (All (bcluster b))))))"

section \<open>Replication: the leader\<close>

definition noteReplica :: "int \<Rightarrow> Broker \<Rightarrow> string \<Rightarrow> int \<Rightarrow> int \<Rightarrow> int \<Rightarrow> Broker" where
  "noteReplica now b tn part brokerID leo =
     (let k = replicaKey tn part;
          m = (case map_of (replicaLEO b) k of None \<Rightarrow> [] | Some m \<Rightarrow> m)
      in b\<lparr>replicaLEO := mput k (mput brokerID \<lparr>rleo = leo, rlastSeen = now\<rparr> m) (replicaLEO b)\<rparr>)"

definition noteSelfLEO :: "int \<Rightarrow> Broker \<Rightarrow> string \<Rightarrow> int \<Rightarrow> int \<Rightarrow> Broker" where
  "noteSelfLEO now b tn part leo = noteReplica now b tn part (self_id b) leo"

definition sameInts :: "int list \<Rightarrow> int list \<Rightarrow> bool" where
  "sameInts xs ys \<longleftrightarrow> length xs = length ys \<and> (\<forall>y\<in>set ys. y \<in> set xs)"

definition states_of :: "Broker \<Rightarrow> string \<Rightarrow> int \<Rightarrow> (int \<times> replicaState) list" where
  "states_of b tn part = (case map_of (replicaLEO b) (replicaKey tn part) of None \<Rightarrow> [] | Some m \<Rightarrow> m)"

text \<open>The in-sync replicas and the high watermark that \<open>recomputeHW\<close> computes.\<close>

definition compute_isr :: "int \<Rightarrow> Broker \<Rightarrow> string \<Rightarrow> partitionMeta \<Rightarrow> int list" where
  "compute_isr now b tn pm =
     self_id b # filter (\<lambda>i. i \<noteq> self_id b \<and> IsAlive now (bcluster b) i \<and>
        (case map_of (states_of b tn (pID pm)) i of
           None \<Rightarrow> False | Some st \<Rightarrow> now - rlastSeen st \<le> cReplicaLagTime (bcfg b))) (pReplicas pm)"

definition compute_hw :: "Broker \<Rightarrow> string \<Rightarrow> int \<Rightarrow> int \<Rightarrow> int list \<Rightarrow> int" where
  "compute_hw b tn part leo isr =
     foldl (\<lambda>h i. if i = self_id b then h
              else (case map_of (states_of b tn part) i of
                      None \<Rightarrow> h | Some st \<Rightarrow> if rleo st < h then rleo st else h)) leo isr"

definition set_isr :: "Broker \<Rightarrow> string \<Rightarrow> int \<Rightarrow> int list \<Rightarrow> Broker" where
  "set_isr b tn part isr =
     b\<lparr>btopics := map (\<lambda>(k, t). (k, if k = tn
         then t\<lparr>tPartitions := map (\<lambda>p. if pID p = part then p\<lparr>pISR := isr\<rparr> else p) (tPartitions t)\<rparr>
         else t)) (btopics b)\<rparr>"

definition recomputeHW :: "iofault \<Rightarrow> int \<Rightarrow> bool \<Rightarrow> Broker \<Rightarrow> string \<Rightarrow> int \<Rightarrow> Broker" where
  "recomputeHW flt now w b tn part =
     (case partition_meta b tn part of
        None \<Rightarrow> b
      | Some pm \<Rightarrow>
          if pLeader pm \<noteq> self_id b then b
          else
            (case Store_Open flt (bstore b) tn part of
               (Inl e, st) \<Rightarrow> b\<lparr>bstore := st\<rparr>
             | (Inr lg, st) \<Rightarrow>
                 (let isr = compute_isr now b tn pm;
                      h = compute_hw b tn part (LEO lg) isr;
                      changed = (\<not> sameInts (pISR pm) isr);
                      b1 = b\<lparr>bstore := Store_put st tn part (SetHighWatermark lg h)\<rparr>
                  in if changed then broadcastMetadata now (persistTopicsLocked w (set_isr b1 tn part isr))
                     else b1)))"

definition recomputeAllHW :: "iofault \<Rightarrow> int \<Rightarrow> bool \<Rightarrow> Broker \<Rightarrow> Broker" where
  "recomputeAllHW flt now w b =
     foldl (\<lambda>b t. foldl (\<lambda>b p. if pLeader p = self_id b then recomputeHW flt now w b (tName t) (pID p) else b)
              b (tPartitions t)) b (snapshotTopics b)"

section \<open>Replication: the follower\<close>

definition splitReplicaKey :: "string \<Rightarrow> string \<times> int" where
  "splitReplicaKey k =
     (case find (\<lambda>i. k ! i = CHR ''/'') (rev [0..<length k]) of
        None \<Rightarrow> (k, 0)
      | Some i \<Rightarrow> (take i k, case ParseInt (drop (i + 1) k) of None \<Rightarrow> 0 | Some n \<Rightarrow> n))"

text \<open>
  \<open>followCancel\<close> holds the keys of the follower loops that were started and not cancelled,
  with the leader they started from.
\<close>

definition wanted_followers :: "Broker \<Rightarrow> (string \<times> int) list" where
  "wanted_followers b =
     foldl (\<lambda>m t. foldl (\<lambda>m p.
         if self_id b \<in> set (pReplicas p) \<and> pLeader p \<noteq> self_id b
         then mput (replicaKey (tName t) (pID p)) (pLeader p) m else m) m (tPartitions t))
       [] (snapshotTopics b)"

definition syncFollowers :: "Broker \<Rightarrow> Broker" where
  "syncFollowers b =
     (let wanted = wanted_followers b;
          kept = filter (\<lambda>(k, l). k \<in> set (mkeys wanted)) (followCancel b)
      in b\<lparr>followCancel := foldl (\<lambda>m (k, l). if k \<in> set (mkeys m) then m else mput k l m) kept wanted\<rparr>)"

text \<open>The records of one fetch, up to a gap or a failed append.\<close>

fun apply_records ::
    "('l \<Rightarrow> int) \<Rightarrow> ('l \<Rightarrow> Record \<Rightarrow> (log_error + int) \<times> 'l) \<Rightarrow> 'l \<Rightarrow> Record list \<Rightarrow> 'l" where
  "apply_records leo appendAt lg [] = lg"
| "apply_records leo appendAt lg (r # rs) =
     (if Offset r < leo lg then apply_records leo appendAt lg rs
      else if Offset r > leo lg then lg
      else
        (case appendAt lg r of
           (Inl e, lg') \<Rightarrow> lg'
         | (Inr off, lg') \<Rightarrow> apply_records leo appendAt lg' rs))"

datatype follow_result = FollowExit | FollowRetry | FollowDone

text \<open>
  One pass of \<open>followLoop\<close>; \<open>net\<close> answers \<open>ReplicaFetch\<close>, \<open>None\<close> for an error.
\<close>

definition follow_pass ::
    "iofault \<Rightarrow> int \<Rightarrow> (string \<Rightarrow> string \<Rightarrow> int \<Rightarrow> int \<Rightarrow> FetchResponse option) \<Rightarrow> Broker \<Rightarrow> string \<Rightarrow> int
     \<Rightarrow> follow_result \<times> Broker" where
  "follow_pass flt now net b tn part =
     (case Store_Open flt (bstore b) tn part of
        (Inl e, st) \<Rightarrow> (FollowExit, b\<lparr>bstore := st\<rparr>)
      | (Inr lg, st) \<Rightarrow>
          (let b0 = b\<lparr>bstore := st\<rparr> in
           case partition_meta b tn part of
             None \<Rightarrow> (FollowExit, b0)
           | Some pm \<Rightarrow>
               if pLeader pm = self_id b \<or> self_id b \<notin> set (pReplicas pm) then (FollowExit, b0)
               else
                 (let addr = Addr (bcluster b) (pLeader pm) in
                  if addr = '''' then (FollowRetry, b0)
                  else
                    (case net addr tn part (LEO lg) of
                       None \<Rightarrow> (FollowRetry, b0)
                     | Some fr \<Rightarrow>
                         (let lg1 = apply_records LEO (AppendAt flt now) lg (map fromWire (fRecords fr));
                              lg2 = SetHighWatermark lg1 (fHighWatermark fr)
                          in (FollowDone,
                              b0\<lparr>bstore := Store_put st tn part lg2,
                                 outbox := outbox b @ [MsgAck addr \<lparr>aBrokerID = self_id b, aTopic = tn,
                                   aPartition = part, aLEO = LEO lg2\<rparr>]\<rparr>))))))"

section \<open>The tick\<close>

definition tick :: "iofault \<Rightarrow> int \<Rightarrow> bool \<Rightarrow> Broker \<Rightarrow> Broker option" where
  "tick flt now w b0 =
     (let b1 = b0\<lparr>bcluster := MarkSeen now (bcluster b0) (self_id b0)\<rparr>;
          b2 = b1\<lparr>outbox := outbox b1 @ map (\<lambda>p. MsgHeartbeat (peerAddr p) (self_id b1)) (OtherPeers (bcluster b1))\<rparr>;
          b3 = b2\<lparr>bgroups := Expire (Some (topicPartitions b2)) now (bgroups b2)\<rparr>;
          b4 = (if IsController now (bcluster b3)
                then (case controllerTick now w b3 of None \<Rightarrow> None | Some b \<Rightarrow> ensureOffsetsTopic now w b)
                else Some b3)
      in case b4 of
           None \<Rightarrow> None
         | Some b \<Rightarrow> Some (syncFollowers (recomputeAllHW flt now w b)))"

end
