(* ===== verification/LS_Client.thy ===== *)
theory LS_Client
  imports LS_Wire
begin

text \<open>
  The HTTP client (\<^verbatim>\<open>src/internal/client/client.go\<close>) as programs that make calls.  A body of a
  shape that the server never sends as the answer to a request is a decoding error.  URL
  escaping and its inverse in the server cancel out.
\<close>

datatype client_error =
    CTransport
  | CHttp int string
  | CHttpRaw int answer_body
  | CMsg string
  | CRaw answer_body
  | CStatus int
  | CDecode
  | CNoBrokers
  | CRetries

record Client =
  Brokers :: "string list"

definition Client_New :: "string list \<Rightarrow> Client" where
  "Client_New brokers = \<lparr>Brokers = brokers\<rparr>"

definition pick :: "Client \<Rightarrow> string" where
  "pick c = (case Brokers c of [] \<Rightarrow> '''' | b # bs \<Rightarrow> b)"

text \<open>\<open>json.Unmarshal\<close> of a body into an \<open>ErrorBody\<close>: only two shapes have its fields.\<close>

definition error_of :: "answer_body \<Rightarrow> ErrorBody" where
  "error_of b =
     (case b of
        BError e \<Rightarrow> e
      | BHeartbeat h \<Rightarrow> \<lparr>eError = hrError h, eLeader = 0, eLeaderAddr = ''''\<rparr>
      | _ \<Rightarrow> \<lparr>eError = '''', eLeader = 0, eLeaderAddr = ''''\<rparr>)"

definition http_error :: "int \<Rightarrow> answer_body \<Rightarrow> client_error" where
  "http_error code b =
     (if eError (error_of b) = '''' then CHttpRaw code b else CHttp code (eError (error_of b)))"

section \<open>Calls to any broker\<close>

primrec any_loop ::
    "request \<Rightarrow> (answer_body \<Rightarrow> 'a option) \<Rightarrow> string list \<Rightarrow> client_error option \<Rightarrow> (client_error + 'a) prog" where
  "any_loop q dec [] lst = Ret (Inl (case lst of None \<Rightarrow> CNoBrokers | Some e \<Rightarrow> e))"
| "any_loop q dec (b # bs) lst =
     Call b q (\<lambda>ans.
       case ans of
         None \<Rightarrow> any_loop q dec bs (Some CTransport)
       | Some (code, body) \<Rightarrow>
           if code \<ge> 400 then any_loop q dec bs (Some (http_error code body))
           else (case dec body of None \<Rightarrow> Ret (Inl CDecode) | Some v \<Rightarrow> Ret (Inr v)))"

definition any :: "Client \<Rightarrow> request \<Rightarrow> (answer_body \<Rightarrow> 'a option) \<Rightarrow> (client_error + 'a) prog" where
  "any c q dec = any_loop q dec (Brokers c) None"

text \<open>Decoders for the answers; \<open>no_out\<close> is the \<open>nil\<close> target, which decodes nothing.\<close>

definition no_out :: "answer_body \<Rightarrow> unit option" where
  "no_out b = Some ()"

definition as_metadata :: "answer_body \<Rightarrow> Metadata option" where
  "as_metadata b = (case b of BMetadata m \<Rightarrow> Some m | _ \<Rightarrow> None)"

definition as_produce :: "answer_body \<Rightarrow> ProduceResponse option" where
  "as_produce b = (case b of BProduce r \<Rightarrow> Some r | _ \<Rightarrow> None)"

definition as_fetch :: "answer_body \<Rightarrow> FetchResponse option" where
  "as_fetch b = (case b of BFetch r \<Rightarrow> Some r | _ \<Rightarrow> None)"

definition as_join :: "answer_body \<Rightarrow> JoinResponse option" where
  "as_join b = (case b of BJoin r \<Rightarrow> Some r | _ \<Rightarrow> None)"

definition as_sync :: "answer_body \<Rightarrow> SyncResponse option" where
  "as_sync b = (case b of BSync r \<Rightarrow> Some r | _ \<Rightarrow> None)"

definition as_heartbeat :: "answer_body \<Rightarrow> HeartbeatResponse option" where
  "as_heartbeat b = (case b of BHeartbeat r \<Rightarrow> Some r | _ \<Rightarrow> None)"

definition as_offsets :: "answer_body \<Rightarrow> OffsetCommit list option" where
  "as_offsets b = (case b of BOffsets os \<Rightarrow> Some os | _ \<Rightarrow> None)"

definition Client_Health :: "string \<Rightarrow> (client_error + unit) prog" where
  "Client_Health addr = Call addr ReqHealth (\<lambda>ans. Ret (case ans of None \<Rightarrow> Inl CTransport | Some x \<Rightarrow> Inr ()))"

definition Client_Metadata :: "Client \<Rightarrow> (client_error + Metadata) prog" where
  "Client_Metadata c = any c ReqMetadata as_metadata"

definition CreateTopic :: "Client \<Rightarrow> string \<Rightarrow> int \<Rightarrow> int \<Rightarrow> (client_error + unit) prog" where
  "CreateTopic c name partitions rf =
     any c (ReqTopics (Good \<lparr>ctName = name, ctPartitions = partitions, ctReplicationFactor = rf\<rparr>)) no_out"

definition Client_Join :: "Client \<Rightarrow> string \<Rightarrow> JoinRequest \<Rightarrow> (client_error + JoinResponse) prog" where
  "Client_Join c grp req = any c (ReqJoin grp (Good req)) as_join"

definition Client_Sync :: "Client \<Rightarrow> string \<Rightarrow> SyncRequest \<Rightarrow> (client_error + SyncResponse) prog" where
  "Client_Sync c grp req = any c (ReqSync grp (Good req)) as_sync"

definition Client_Heartbeat :: "Client \<Rightarrow> string \<Rightarrow> HeartbeatRequest \<Rightarrow> (client_error + HeartbeatResponse) prog" where
  "Client_Heartbeat c grp req = any c (ReqHeartbeat grp (Good req)) as_heartbeat"

definition Client_Leave :: "Client \<Rightarrow> string \<Rightarrow> string \<Rightarrow> (client_error + unit) prog" where
  "Client_Leave c grp memberID = any c (ReqLeave grp (Good \<lparr>lqMemberID = memberID\<rparr>)) no_out"

definition CommitOffsets :: "Client \<Rightarrow> string \<Rightarrow> OffsetCommitRequest \<Rightarrow> (client_error + unit) prog" where
  "CommitOffsets c grp req = any c (ReqCommit grp (Good req)) no_out"

definition Client_FetchOffsets :: "Client \<Rightarrow> string \<Rightarrow> string \<Rightarrow> (client_error + OffsetCommit list) prog" where
  "Client_FetchOffsets c grp tn = any c (ReqOffsets grp tn) as_offsets"

section \<open>Produce and fetch\<close>

definition no_query :: ProduceQuery where
  "no_query = \<lparr>pqTopic = '''', pqKey = [], pqValue = [], pqAcks = ''''\<rparr>"

primrec produce_attempts :: "nat \<Rightarrow> string \<Rightarrow> ProduceRequest \<Rightarrow> (client_error + ProduceResponse) prog" where
  "produce_attempts 0 addr req = Ret (Inl CRetries)"
| "produce_attempts (Suc n) addr req =
     Call addr (ReqProduce (Good (json_produce req)) no_query) (\<lambda>ans.
       case ans of
         None \<Rightarrow> Ret (Inl CTransport)
       | Some (code, body) \<Rightarrow>
           if code = 409 then
             (let eb = error_of body in
              if eLeaderAddr eb \<noteq> '''' \<and> eLeaderAddr eb \<noteq> addr then produce_attempts n (eLeaderAddr eb) req
              else Ret (Inl (CMsg (eError eb))))
           else if code \<ge> 400 then
             Ret (Inl (if eError (error_of body) = '''' then CRaw body else CMsg (eError (error_of body))))
           else Ret (case as_produce body of None \<Rightarrow> Inl CDecode | Some r \<Rightarrow> Inr r))"

definition Client_Produce :: "Client \<Rightarrow> string \<Rightarrow> ProduceRequest \<Rightarrow> (client_error + ProduceResponse) prog" where
  "Client_Produce c addr req = produce_attempts 5 (if addr = '''' then pick c else addr) req"

definition Client_Fetch ::
    "Client \<Rightarrow> string \<Rightarrow> string \<Rightarrow> int \<Rightarrow> int \<Rightarrow> int \<Rightarrow> bool \<Rightarrow> (client_error + FetchResponse) prog" where
  "Client_Fetch c addr0 tn part off maxBytes replica =
     (let addr = (if addr0 = '''' then pick c else addr0);
          q = \<lparr>fqTopic = tn, fqPartition = Itoa part, fqOffset = Itoa off, fqMaxBytes = Itoa maxBytes,
               fqReplica = (if replica then ''1'' else '''')\<rparr>
      in Call addr (ReqFetch q) (\<lambda>ans. Ret (
           case ans of
             None \<Rightarrow> Inl CTransport
           | Some (code, body) \<Rightarrow>
               if code \<ge> 400 then Inl (CHttpRaw code body)
               else (case as_fetch body of None \<Rightarrow> Inl CDecode | Some r \<Rightarrow> Inr r))))"

definition ReplicaFetch :: "string \<Rightarrow> string \<Rightarrow> int \<Rightarrow> int \<Rightarrow> (client_error + FetchResponse) prog" where
  "ReplicaFetch addr tn part off = Client_Fetch \<lparr>Brokers = []\<rparr> addr tn part off 1048576 True"

section \<open>Calls between brokers\<close>

definition one_call :: "string \<Rightarrow> request \<Rightarrow> (int \<Rightarrow> answer_body \<Rightarrow> client_error) \<Rightarrow> (client_error + unit) prog" where
  "one_call addr q err =
     Call addr q (\<lambda>ans. Ret (case ans of None \<Rightarrow> Inl CTransport
       | Some (code, body) \<Rightarrow> if code \<ge> 400 then Inl (err code body) else Inr ()))"

definition PeerHeartbeat :: "string \<Rightarrow> int \<Rightarrow> (client_error + unit) prog" where
  "PeerHeartbeat addr i = one_call addr (ReqPeer (Good \<lparr>pqBrokerID = i\<rparr>)) (\<lambda>code body. CStatus code)"

definition PushMetadata :: "string \<Rightarrow> MetadataPush \<Rightarrow> (client_error + unit) prog" where
  "PushMetadata addr push = one_call addr (ReqPush (Good push)) CHttpRaw"

definition ReplicaAck :: "string \<Rightarrow> ReplicaAckRequest \<Rightarrow> (client_error + unit) prog" where
  "ReplicaAck addr req = one_call addr (ReqAck (Good req)) CHttpRaw"

section \<open>Properties\<close>

text \<open>
  What \<open>any\<close> computes when every broker has one answer to the request: the answer of the first
  broker, in the configured order, that is reachable and does not report an error.
\<close>

definition usable :: "answer \<Rightarrow> bool" where
  "usable ans \<longleftrightarrow> (case ans of None \<Rightarrow> False | Some (code, body) \<Rightarrow> code < 400)"

definition failure :: "answer \<Rightarrow> client_error" where
  "failure ans = (case ans of None \<Rightarrow> CTransport | Some (code, body) \<Rightarrow> http_error code body)"

definition first_usable :: "(string \<Rightarrow> answer) \<Rightarrow> (answer_body \<Rightarrow> 'a option) \<Rightarrow> string list \<Rightarrow> client_error + 'a" where
  "first_usable ans dec bs =
     (case find (\<lambda>b. usable (ans b)) bs of
        Some b \<Rightarrow> (case dec (snd (the (ans b))) of None \<Rightarrow> Inl CDecode | Some v \<Rightarrow> Inr v)
      | None \<Rightarrow> Inl (if bs = [] then CNoBrokers else failure (ans (last bs))))"

lemma any_loop_spec:
  "exec (\<lambda>s a q. (ans a q, s)) (any_loop q dec bs lst) s =
     (if bs = [] then Inl (case lst of None \<Rightarrow> CNoBrokers | Some e \<Rightarrow> e) else first_usable (\<lambda>a. ans a q) dec bs, s)"
proof (induction bs arbitrary: lst)
  case (Cons b bs)
  show ?case
  proof (cases "usable (ans b q)")
    case True
    then show ?thesis by (auto simp: first_usable_def usable_def split: option.splits)
  next
    case False
    then have "exec (\<lambda>s a q. (ans a q, s)) (any_loop q dec (b # bs) lst) s =
        exec (\<lambda>s a q. (ans a q, s)) (any_loop q dec bs (Some (failure (ans b q)))) s"
      by (auto simp: usable_def failure_def split: option.splits)
    then show ?thesis using False Cons.IH [of "Some (failure (ans b q))"]
      by (cases "bs = []") (simp_all add: first_usable_def cong: option.case_cong)
  qed
qed simp

text \<open>
  C29.  The loop over the brokers is a search: with one answer for each broker, \<open>any\<close> returns
  the decoded answer of the first broker that is reachable and reports no error, and the
  error of the last broker if there is none.
\<close>

theorem any_is_first_usable:
  "exec (\<lambda>s a q. (ans a q, s)) (any c q dec) s = (first_usable (\<lambda>a. ans a q) dec (Brokers c), s)"
  by (simp add: any_def any_loop_spec first_usable_def)

lemma produce_attempts_calls:
  "length (calls net (produce_attempts n addr req) s) \<le> n
   \<and> set (map snd (calls net (produce_attempts n addr req) s)) \<subseteq> {ReqProduce (Good (json_produce req)) no_query}"
proof (induction n arbitrary: addr s)
  case (Suc n)
  obtain ans s' where net: "net s addr (ReqProduce (Good (json_produce req)) no_query) = (ans, s')" by fastforce
  show ?case using Suc [of _ s'] by (auto simp: net Let_def split: option.splits)
qed simp

text \<open>
  C30.  Producing ends: whatever the brokers answer, the client sends the same request at most
  five times.  When the first broker names another leader and that one accepts, the result
  is the leader's.
\<close>

theorem produce_retries_bounded:
  "length (calls net (Client_Produce c addr req) s) \<le> 5
   \<and> set (map snd (calls net (Client_Produce c addr req) s)) \<subseteq> {ReqProduce (Good (json_produce req)) no_query}
   \<and> (addr \<noteq> '''' \<and> net s addr (ReqProduce (Good (json_produce req)) no_query) = (Some (409, BError e), s')
      \<and> eLeaderAddr e \<notin> {'''', addr} \<and> code < 400
      \<and> net s' (eLeaderAddr e) (ReqProduce (Good (json_produce req)) no_query) = (Some (code, BProduce r), s'')
      \<longrightarrow> exec net (Client_Produce c addr req) s = (Inr r, s''))"
proof -
  have "exec net (Client_Produce c addr req) s = (Inr r, s'')"
    if "addr \<noteq> ''''" "net s addr (ReqProduce (Good (json_produce req)) no_query) = (Some (409, BError e), s')"
      "eLeaderAddr e \<notin> {'''', addr}" "code < 400"
      "net s' (eLeaderAddr e) (ReqProduce (Good (json_produce req)) no_query) = (Some (code, BProduce r), s'')"
    using that by (simp add: Client_Produce_def numeral_eq_Suc error_of_def as_produce_def Let_def)
  moreover note produce_attempts_calls [of net 5 "if addr = [] then pick c else addr" req s, folded Client_Produce_def]
  ultimately show ?thesis by blast
qed

theorem produce_retries_bounded_witness:
  "let net = (\<lambda>s a q. (if a = ''b'' then Some (200, BProduce \<lparr>rsTopic = ''t'', rsResults = []\<rparr>)
        else Some (409, BError \<lparr>eError = ''not_leader'', eLeader = 2, eLeaderAddr = ''b''\<rparr>), s));
     req = \<lparr>rqTopic = ''t'', rqPartition = 0, rqKey = [], rqValue = [], rqAcks = '''', rqRecords = []\<rparr>
   in exec net (Client_Produce \<lparr>Brokers = []\<rparr> ''a'' req) () = (Inr \<lparr>rsTopic = ''t'', rsResults = []\<rparr>, ())"
  unfolding Let_def
  by (intro produce_retries_bounded [THEN conjunct2, THEN conjunct2, rule_format,
      where e = "\<lparr>eError = ''not_leader'', eLeader = 2, eLeaderAddr = ''b''\<rparr>" and s' = "()" and code = 200]) simp

end
