(* ===== verification/LS_Handlers.thy ===== *)
theory LS_Handlers
  imports LS_Broker LS_Client
begin

text \<open>
  The HTTP handlers of a broker (\<^verbatim>\<open>src/internal/broker/handlers.go\<close>) and the routes that \<open>Start\<close>
  registers (\<^verbatim>\<open>broker.go\<close>).  A handler changes the broker first and then may call another broker;
  what it answers is a program over these calls.  The environment of a request is a record:
  the faults of the file system, the clock, whether files can be written, the member id that
  would be generated, the texts of errors of the libraries, and for each record of a produce
  request the clock and what happens while the handler waits for the high watermark.
\<close>

datatype err_text = TJson | TLog log_error | TClient client_error | TPersist

text \<open>One wake-up: the clock before, the clock after, and what other calls did in between.\<close>

type_synonym passes = "(int \<times> int \<times> (Broker \<Rightarrow> Broker)) list"

record henv =
  eflt :: iofault
  enow :: int
  ewr :: bool
  enewID :: string
  etext :: "err_text \<Rightarrow> string"
  ewaits :: "nat \<Rightarrow> int \<times> passes"

type_synonym response = "int \<times> answer_body"

text \<open>A handler that panics or never returns sends no answer.\<close>

datatype hres = Done "response prog" | Blocked | Panicked

definition writeJSON :: "int \<Rightarrow> answer_body \<Rightarrow> response" where
  "writeJSON status v = (status, json_answer v)"

definition writeErr :: "int \<Rightarrow> string \<Rightarrow> response" where
  "writeErr status m = writeJSON status (BError \<lparr>eError = m, eLeader = 0, eLeaderAddr = ''''\<rparr>)"

text \<open>\<open>strconv.Atoi\<close> and \<open>strconv.ParseInt\<close> where the error is ignored.\<close>

definition parse_lenient :: "string \<Rightarrow> int" where
  "parse_lenient s =
     (let (neg, ds) = (case s of [] \<Rightarrow> (False, [])
        | c # cs \<Rightarrow> if c = CHR ''-'' then (True, cs) else if c = CHR ''+'' then (False, cs) else (False, s));
          v = (if neg then - int (digits_val ds) else int (digits_val ds))
      in if ds = [] \<or> \<not> list_all is_digit ds then 0
         else max (- 9223372036854775808) (min v max_i64))"

definition string_bytes :: "string \<Rightarrow> byte list" where
  "string_bytes s = map (\<lambda>c. word_of_nat (of_char c)) s"

section \<open>Metadata and topics\<close>

definition handleHealth :: "henv \<Rightarrow> Broker \<Rightarrow> hres \<times> Broker" where
  "handleHealth e b = (Done (Ret (writeJSON 200 (BHealth (self_id b) (ControllerID (enow e) (bcluster b))))), b)"

definition public_partition :: "Broker \<Rightarrow> string \<Rightarrow> partitionMeta \<Rightarrow> PartitionInfo" where
  "public_partition b tn p =
     (let (h, l) = (case Store_Get (bstore b) tn (pID p) of None \<Rightarrow> (0, 0) | Some lg \<Rightarrow> (HighWatermark lg, LEO lg))
      in \<lparr>iID = pID p, iLeader = pLeader p, iReplicas = pReplicas p, iISR = pISR p, iHW = h, iLEO = l\<rparr>)"

definition publicMetadata :: "int \<Rightarrow> Broker \<Rightarrow> Metadata" where
  "publicMetadata now b =
     \<lparr>mdController = ControllerID now (bcluster b),
      mdBrokers = map (\<lambda>p. \<lparr>biID = peerID p, biAddr = peerAddr p, biAlive = IsAlive now (bcluster b) (peerID p)\<rparr>) (All (bcluster b)),
      mdTopics = map (\<lambda>t. \<lparr>iName = tName t, iPartitions = map (public_partition b (tName t)) (tPartitions t)\<rparr>) (snapshotTopics b)\<rparr>"

definition handleMetadata :: "henv \<Rightarrow> Broker \<Rightarrow> hres \<times> Broker" where
  "handleMetadata e b = (Done (Ret (writeJSON 200 (BMetadata (publicMetadata (enow e) b)))), b)"

definition handleCreateTopic :: "henv \<Rightarrow> Broker \<Rightarrow> CreateTopicRequest body \<Rightarrow> hres \<times> Broker" where
  "handleCreateTopic e b body =
     (case body of
        Bad v \<Rightarrow> (Done (Ret (writeErr 400 (etext e TJson))), b)
      | Good req \<Rightarrow>
          if ctName req = '''' then (Done (Ret (writeErr 400 ''name required'')), b)
          else if \<not> IsController (enow e) (bcluster b) then
            (let addr = Addr (bcluster b) (ControllerID (enow e) (bcluster b)) in
             if addr = '''' \<or> addr = cAdvertise (bcfg b) then (Done (Ret (writeErr 503 ''controller unavailable'')), b)
             else
               (Done (bind (CreateTopic \<lparr>Brokers = [addr]\<rparr> (ctName req) (ctPartitions req) (ctReplicationFactor req))
                  (\<lambda>r. Ret (case r of Inl err \<Rightarrow> writeErr 502 (etext e (TClient err))
                                   | Inr u \<Rightarrow> writeJSON 200 (BStatus ''forwarded'')))), b))
          else if topic b (ctName req) \<noteq> None then (Done (Ret (writeJSON 200 (BStatus ''exists''))), b)
          else
            (case createTopicLocked (enow e) (ewr e) b (ctName req) (ctPartitions req) (ctReplicationFactor req) of
               None \<Rightarrow> (Panicked, b)
             | Some b' \<Rightarrow> (Done (Ret (writeJSON 200 (BCreated (ctName req)))), b')))"

section \<open>Producing\<close>

datatype produce_error = UnknownTopic string | NotLeader int | LogError log_error | HWTimeout

definition produce_pid :: "ProduceRequest \<Rightarrow> ProduceRecord \<Rightarrow> int \<Rightarrow> Partitioner \<Rightarrow> int option \<times> Partitioner" where
  "produce_pid req rec n p =
     (let pid = (if rqPartition req > 0 \<and> prPartition rec = 0 \<and> rqKey req = prKey rec then rqPartition req
                 else prPartition rec);
          (r, p1) = (if pid \<le> 0 \<and> prPartition rec = 0 \<and> rqPartition req \<le> 0 then Partition p (prKey rec) n else (Some pid, p))
      in case r of
           None \<Rightarrow> (None, p1)
         | Some pid \<Rightarrow> if pid < 0 \<or> pid \<ge> n then Partition p1 (prKey rec) n else (Some pid, p1))"

definition log_hw :: "Broker \<Rightarrow> string \<Rightarrow> int \<Rightarrow> int" where
  "log_hw b tn pid = (case Store_Get (bstore b) tn pid of None \<Rightarrow> 0 | Some l \<Rightarrow> HighWatermark l)"

text \<open>\<open>WaitHighWatermark\<close> on a log of the broker, with what happens to the broker meanwhile.\<close>

fun wait_hw :: "string \<Rightarrow> int \<Rightarrow> int \<Rightarrow> int \<Rightarrow> int \<Rightarrow> passes \<Rightarrow> Broker \<Rightarrow> bool option \<times> Broker" where
  "wait_hw tn pid off timeout deadline ps b =
     (if log_hw b tn pid > off then (Some True, b)
      else if timeout \<le> 0 then (Some False, b)
      else
        (case ps of
           [] \<Rightarrow> (None, b)
         | (before, after, act) # ps' \<Rightarrow>
             if deadline - before \<le> 0 then (Some False, b)
             else if after > deadline \<and> log_hw (act b) tn pid \<le> off then (Some False, act b)
             else wait_hw tn pid off timeout deadline ps' (act b)))"

declare wait_hw.simps [simp del]

definition maybeSoloHW :: "Broker \<Rightarrow> string \<Rightarrow> int \<Rightarrow> Broker" where
  "maybeSoloHW b tn pid =
     (case partition_meta b tn pid of
        None \<Rightarrow> b
      | Some pm \<Rightarrow>
          if pISR pm = [self_id b] then
            (case Store_Get (bstore b) tn pid of
               None \<Rightarrow> b
             | Some lg \<Rightarrow> b\<lparr>bstore := Store_put (bstore b) tn pid (SetHighWatermark lg (LEO lg))\<rparr>)
          else b)"

datatype one_result = OneOk ProduceResult | OneErr produce_error | OneBlocked | OnePanic

text \<open>The append of one record and the bookkeeping of the leader.\<close>

definition produce_append ::
    "henv \<Rightarrow> int \<Rightarrow> Broker \<Rightarrow> string \<Rightarrow> int \<Rightarrow> ProduceRecord \<Rightarrow> (produce_error + int) \<times> Broker" where
  "produce_append e now b tn pid rec =
     (case partition_meta b tn pid of
        None \<Rightarrow> (Inl (UnknownTopic tn), b)
      | Some pm \<Rightarrow>
          if pLeader pm \<noteq> self_id b then (Inl (NotLeader (pLeader pm)), b)
          else
            (case Store_Open (eflt e) (bstore b) tn pid of
               (Inl err, st) \<Rightarrow> (Inl (LogError err), b\<lparr>bstore := st\<rparr>)
             | (Inr lg, st) \<Rightarrow>
                 (case Log_Append (eflt e) now lg (prKey rec) (prValue rec) of
                    (Inl err, lg') \<Rightarrow> (Inl (LogError err), b\<lparr>bstore := Store_put st tn pid lg'\<rparr>)
                  | (Inr off, lg') \<Rightarrow>
                      (Inr off, recomputeHW (eflt e) now (ewr e)
                         (noteSelfLEO now (b\<lparr>bstore := Store_put st tn pid lg'\<rparr>) tn pid (LEO lg')) tn pid))))"

definition produce_one ::
    "henv \<Rightarrow> ProduceRequest \<Rightarrow> string \<Rightarrow> int \<Rightarrow> int \<Rightarrow> passes \<Rightarrow> ProduceRecord \<Rightarrow> Broker \<Rightarrow> one_result \<times> Broker" where
  "produce_one e req acks n now ps rec b =
     (let (r, p) = produce_pid req rec n (bpartitioner b); b0 = b\<lparr>bpartitioner := p\<rparr> in
      case r of
        None \<Rightarrow> (OnePanic, b0)
      | Some pid \<Rightarrow>
          (case produce_append e now b0 (rqTopic req) pid rec of
             (Inl err, b1) \<Rightarrow> (OneErr err, b1)
           | (Inr off, b1) \<Rightarrow>
               if acks = ''all'' \<or> acks = ''-1'' then
                 (case wait_hw (rqTopic req) pid off (cProduceTimeout (bcfg b1)) (now + cProduceTimeout (bcfg b1)) ps b1 of
                    (None, b2) \<Rightarrow> (OneBlocked, b2)
                  | (Some False, b2) \<Rightarrow> (OneErr HWTimeout, b2)
                  | (Some True, b2) \<Rightarrow> (OneOk \<lparr>resPartition = pid, resOffset = off\<rparr>, b2))
               else (OneOk \<lparr>resPartition = pid, resOffset = off\<rparr>, maybeSoloHW b1 (rqTopic req) pid)))"

datatype presult = POk ProduceResponse | PErr ProduceResponse produce_error | PBlocked | PPanic

fun produce_loop ::
    "henv \<Rightarrow> ProduceRequest \<Rightarrow> string \<Rightarrow> int \<Rightarrow> nat \<Rightarrow> ProduceRecord list \<Rightarrow> ProduceResult list \<Rightarrow> Broker
     \<Rightarrow> presult \<times> Broker" where
  "produce_loop e req acks n i [] out b = (POk \<lparr>rsTopic = rqTopic req, rsResults = out\<rparr>, b)"
| "produce_loop e req acks n i (rec # recs) out b =
     (case produce_one e req acks n (fst (ewaits e i)) (snd (ewaits e i)) rec b of
        (OneOk res, b') \<Rightarrow> produce_loop e req acks n (i + 1) recs (out @ [res]) b'
      | (OneErr err, b') \<Rightarrow> (PErr \<lparr>rsTopic = rqTopic req, rsResults = out\<rparr> err, b')
      | (OneBlocked, b') \<Rightarrow> (PBlocked, b')
      | (OnePanic, b') \<Rightarrow> (PPanic, b'))"

definition produceLocal :: "henv \<Rightarrow> Broker \<Rightarrow> ProduceRequest \<Rightarrow> presult \<times> Broker" where
  "produceLocal e b req =
     (case topic b (rqTopic req) of
        None \<Rightarrow> (PErr \<lparr>rsTopic = '''', rsResults = []\<rparr> (UnknownTopic (rqTopic req)), b)
      | Some t \<Rightarrow>
          (let recs = (if rqRecords req = []
                       then [\<lparr>prKey = rqKey req, prValue = rqValue req, prPartition = rqPartition req\<rparr>]
                       else rqRecords req);
               acks = (if rqAcks req = '''' then ''1'' else rqAcks req)
           in produce_loop e req acks (int (length (tPartitions t))) 0 recs [] b))"

text \<open>A message of the log that happens to hold \<open>unknown topic\<close> is not distinguished.\<close>

definition produce_reply :: "henv \<Rightarrow> Broker \<Rightarrow> ProduceRequest \<Rightarrow> produce_error \<Rightarrow> response prog" where
  "produce_reply e b req err =
     (case err of
        NotLeader leader \<Rightarrow>
          (let addr = Addr (bcluster b) leader;
               conflict = writeJSON 409 (BError \<lparr>eError = ''not_leader'', eLeader = leader, eLeaderAddr = addr\<rparr>)
           in if addr \<noteq> '''' \<and> addr \<noteq> cAdvertise (bcfg b) then
                bind (Client_Produce \<lparr>Brokers = []\<rparr> addr req)
                  (\<lambda>r. Ret (case r of Inr proxied \<Rightarrow> writeJSON 200 (BProduce proxied) | Inl e \<Rightarrow> conflict))
              else Ret conflict)
      | UnknownTopic tn \<Rightarrow> Ret (writeErr 404 (''unknown topic: '' @ tn))
      | LogError le \<Rightarrow> Ret (writeErr 500 (etext e (TLog le)))
      | HWTimeout \<Rightarrow> Ret (writeErr 500 ''log: hw wait timeout''))"

definition handleProduce :: "henv \<Rightarrow> Broker \<Rightarrow> ProduceRequest body \<Rightarrow> ProduceQuery \<Rightarrow> hres \<times> Broker" where
  "handleProduce e b body q =
     (let req = (case body of Good v \<Rightarrow> v
                 | Bad v \<Rightarrow> v\<lparr>rqTopic := pqTopic q, rqKey := pqKey q, rqValue := pqValue q, rqAcks := pqAcks q\<rparr>)
      in if (case body of Good v \<Rightarrow> False | Bad v \<Rightarrow> rqTopic req = '''') then (Done (Ret (writeErr 400 ''invalid produce body'')), b)
         else
           (case produceLocal e b req of
              (POk resp, b') \<Rightarrow> (Done (Ret (writeJSON 200 (BProduce resp))), b')
            | (PErr out err, b') \<Rightarrow> (Done (produce_reply e b' req err), b')
            | (PBlocked, b') \<Rightarrow> (Blocked, b')
            | (PPanic, b') \<Rightarrow> (Panicked, b')))"

section \<open>Fetching\<close>

definition serveFetch :: "henv \<Rightarrow> Broker \<Rightarrow> FetchQuery \<Rightarrow> bool \<Rightarrow> hres \<times> Broker" where
  "serveFetch e b q replica =
     (let tn = fqTopic q; part = parse_lenient (fqPartition q); off = parse_lenient (fqOffset q);
          mb0 = parse_lenient (fqMaxBytes q); maxBytes = (if mb0 \<le> 0 then 1048576 else mb0)
      in case partition_meta b tn part of
           None \<Rightarrow> (Done (Ret (writeErr 404 ''unknown topic/partition'')), b)
         | Some pm \<Rightarrow>
             if pLeader pm \<noteq> self_id b then
               (let addr = Addr (bcluster b) (pLeader pm);
                    conflict = writeJSON 409 (BError \<lparr>eError = ''not_leader'', eLeader = pLeader pm, eLeaderAddr = addr\<rparr>)
                in if addr \<noteq> '''' \<and> \<not> replica then
                     (Done (bind (Client_Fetch \<lparr>Brokers = []\<rparr> addr tn part off maxBytes False)
                        (\<lambda>r. Ret (case r of Inr fr \<Rightarrow> writeJSON 200 (BFetch fr) | Inl e \<Rightarrow> conflict))), b)
                   else (Done (Ret conflict), b))
             else
               (case Store_Open (eflt e) (bstore b) tn part of
                  (Inl err, st) \<Rightarrow> (Done (Ret (writeErr 500 (etext e (TLog err)))), b\<lparr>bstore := st\<rparr>)
                | (Inr lg, st) \<Rightarrow>
                    (let maxOff = (if replica then LEO lg else HighWatermark lg) in
                     case Read lg off maxBytes maxOff of
                       Inl err \<Rightarrow> (Done (Ret (writeErr 500 (etext e (TLog err)))), b\<lparr>bstore := st\<rparr>)
                     | Inr recs \<Rightarrow>
                         (Done (Ret (writeJSON 200 (BFetch \<lparr>fTopic = tn, fPartition = part, fHighWatermark = HighWatermark lg,
                            fLogEndOffset = LEO lg, fRecords = toWire recs\<rparr>))), b\<lparr>bstore := st\<rparr>))))"

definition handleFetch :: "henv \<Rightarrow> Broker \<Rightarrow> FetchQuery \<Rightarrow> hres \<times> Broker" where
  "handleFetch e b q = serveFetch e b q (fqReplica q = ''1'')"

definition handleReplicaFetch :: "henv \<Rightarrow> Broker \<Rightarrow> FetchQuery \<Rightarrow> hres \<times> Broker" where
  "handleReplicaFetch e b q = serveFetch e b q True"

section \<open>Consumer groups\<close>

text \<open>
  \<open>forwardGroup\<close>: \<open>None\<close> on the controller, which goes on with the request; otherwise the
  request is sent on unchanged and the answer is copied.
\<close>

definition forwardGroup :: "henv \<Rightarrow> Broker \<Rightarrow> request \<Rightarrow> response prog option" where
  "forwardGroup e b q =
     (if IsController (enow e) (bcluster b) then None
      else
        (let addr = Addr (bcluster b) (ControllerID (enow e) (bcluster b)) in
         if addr = '''' then Some (Ret (writeErr 503 ''controller unavailable''))
         else Some (Call addr q (\<lambda>ans. Ret (case ans of None \<Rightarrow> writeErr 502 (etext e (TClient CTransport)) | Some r \<Rightarrow> r)))))"

definition group_text :: "henv \<Rightarrow> group_error \<Rightarrow> string" where
  "group_text e err =
     (case err of ErrUnknownMember \<Rightarrow> ''unknown member'' | ErrGenerationMismatch \<Rightarrow> ''generation mismatch''
        | ErrRebalanceInProgress \<Rightarrow> ''rebalance in progress'' | ErrUnknownGroup \<Rightarrow> ''unknown group''
        | ErrPersist \<Rightarrow> etext e TPersist)"

definition on_controller :: "henv \<Rightarrow> Broker \<Rightarrow> request \<Rightarrow> response \<times> Broker \<Rightarrow> hres \<times> Broker" where
  "on_controller e b q local =
     (case forwardGroup e b q of Some p \<Rightarrow> (Done p, b) | None \<Rightarrow> (Done (Ret (fst local)), snd local))"

definition handleJoin :: "henv \<Rightarrow> Broker \<Rightarrow> string \<Rightarrow> JoinRequest body \<Rightarrow> hres \<times> Broker" where
  "handleJoin e b grp body =
     on_controller e b (ReqJoin grp body)
       (let req = decoded body;
            (res, c) = Join (Some (topicPartitions b)) (enow e) (enow e) (enewID e) (bgroups b) grp (jqMemberID req) (jqTopics req)
        in (writeJSON 200 (BJoin \<lparr>jrMemberID = jMemberID res, jrGeneration = jGeneration res, jrLeaderID = jLeaderID res,
              jrMembers = jMembers res, jrState = jState res\<rparr>), b\<lparr>bgroups := c\<rparr>))"

definition handleSync :: "henv \<Rightarrow> Broker \<Rightarrow> string \<Rightarrow> SyncRequest body \<Rightarrow> hres \<times> Broker" where
  "handleSync e b grp body =
     on_controller e b (ReqSync grp body)
       (let req = decoded body;
            ((asg, gen, st, err), c) = Sync (enow e) (bgroups b) grp (sqMemberID req) (sqGeneration req)
        in (case err of
              Some x \<Rightarrow> writeJSON 409 (BHeartbeat \<lparr>hrError = group_text e x, hrState = st\<rparr>)
            | None \<Rightarrow> writeJSON 200 (BSync \<lparr>srGeneration = gen, srAssignment = asg, srState = st\<rparr>), b\<lparr>bgroups := c\<rparr>))"

definition handleHeartbeat :: "henv \<Rightarrow> Broker \<Rightarrow> string \<Rightarrow> HeartbeatRequest body \<Rightarrow> hres \<times> Broker" where
  "handleHeartbeat e b grp body =
     on_controller e b (ReqHeartbeat grp body)
       (let req = decoded body;
            ((st, err), c) = Heartbeat (enow e) (bgroups b) grp (hqMemberID req) (hqGeneration req)
        in (case err of
              Some x \<Rightarrow> writeJSON 409 (BHeartbeat \<lparr>hrError = group_text e x, hrState = st\<rparr>)
            | None \<Rightarrow> writeJSON 200 (BHeartbeat \<lparr>hrError = '''', hrState = st\<rparr>), b\<lparr>bgroups := c\<rparr>))"

definition handleLeave :: "henv \<Rightarrow> Broker \<Rightarrow> string \<Rightarrow> LeaveRequest body \<Rightarrow> hres \<times> Broker" where
  "handleLeave e b grp body =
     on_controller e b (ReqLeave grp body)
       (writeJSON 200 (BStatus ''left''),
        b\<lparr>bgroups := Leave (Some (topicPartitions b)) (enow e) (bgroups b) grp (lqMemberID (decoded body))\<rparr>)"

text \<open>The offset hook of the coordinator: a record in the offsets topic; errors are dropped.\<close>

definition replicateOffset :: "henv \<Rightarrow> Broker \<Rightarrow> string \<times> string \<times> int \<times> int \<Rightarrow> Broker" where
  "replicateOffset e b call =
     (let (groupID, tn, part, off) = call in
      if tn = offsetsTopic then b
      else snd (produceLocal e b
        \<lparr>rqTopic = offsetsTopic, rqPartition = 0, rqKey = string_bytes (groupID @ ''/'' @ tn @ ''/'' @ Itoa part),
         rqValue = string_bytes (Itoa off), rqAcks = ''1'', rqRecords = []\<rparr>))"

definition handleCommitOffsets :: "henv \<Rightarrow> Broker \<Rightarrow> string \<Rightarrow> OffsetCommitRequest body \<Rightarrow> hres \<times> Broker" where
  "handleCommitOffsets e b grp body =
     on_controller e b (ReqCommit grp body)
       (case body of
          Bad v \<Rightarrow> (writeErr 400 (etext e TJson), b)
        | Good req \<Rightarrow>
            (let (err, c) = Commit (ewr e) (bgroups b) grp
                   (map (\<lambda>o'. \<lparr>oTopic = ocTopic o', oPartition = ocPartition o', oOffset = ocOffset o'\<rparr>) (oqOffsets req));
                 b' = foldl (replicateOffset e) (b\<lparr>bgroups := c\<lparr>hookCalls := []\<rparr>\<rparr>) (hookCalls c)
             in (case err of
                   Some x \<Rightarrow> writeErr 500 (group_text e x)
                 | None \<Rightarrow> writeJSON 200 (BStatus ''committed''), b')))"

definition handleFetchOffsets :: "henv \<Rightarrow> Broker \<Rightarrow> string \<Rightarrow> string \<Rightarrow> hres \<times> Broker" where
  "handleFetchOffsets e b grp tn =
     on_controller e b (ReqOffsets grp tn)
       (writeJSON 200 (BOffsets (map (\<lambda>x. \<lparr>ocTopic = oTopic x, ocPartition = oPartition x, ocOffset = oOffset x\<rparr>)
          (FetchOffsets (bgroups b) grp tn))), b)"

section \<open>Between brokers\<close>

definition handlePeerHeartbeat :: "henv \<Rightarrow> Broker \<Rightarrow> HeartbeatPeerRequest body \<Rightarrow> hres \<times> Broker" where
  "handlePeerHeartbeat e b body =
     (let i = pqBrokerID (decoded body);
          b' = (if i \<noteq> 0 then b\<lparr>bcluster := MarkSeen (enow e) (bcluster b) i\<rparr> else b)
      in (Done (Ret (writeJSON 200 (BPeer (self_id b') (ControllerID (enow e) (bcluster b'))))), b'))"

definition push_topics :: "MetadataPush \<Rightarrow> topicMeta list" where
  "push_topics push =
     map (\<lambda>t. \<lparr>tName = iName t,
       tPartitions = map (\<lambda>p. \<lparr>pID = iID p, pLeader = iLeader p, pReplicas = iReplicas p, pISR = iISR p\<rparr>) (iPartitions t)\<rparr>)
       (pushTopics push)"

definition handleMetadataPush :: "henv \<Rightarrow> Broker \<Rightarrow> MetadataPush body \<Rightarrow> hres \<times> Broker" where
  "handleMetadataPush e b body =
     (case body of
        Bad v \<Rightarrow> (Done (Ret (writeErr 400 (etext e TJson))), b)
      | Good push \<Rightarrow>
          (Done (Ret (writeJSON 200 (BStatus ''ok''))), syncFollowers (applyTopics (enow e) (ewr e) b (push_topics push))))"

definition handleReplicaAck :: "henv \<Rightarrow> Broker \<Rightarrow> ReplicaAckRequest body \<Rightarrow> hres \<times> Broker" where
  "handleReplicaAck e b body =
     (case body of
        Bad v \<Rightarrow> (Done (Ret (writeErr 400 (etext e TJson))), b)
      | Good req \<Rightarrow>
          (Done (Ret (writeJSON 200 (BStatus ''ok''))),
           recomputeHW (eflt e) (enow e) (ewr e)
             (noteReplica (enow e) b (aTopic req) (aPartition req) (aBrokerID req) (aLEO req)) (aTopic req) (aPartition req)))"

section \<open>Routes\<close>

definition serve :: "henv \<Rightarrow> Broker \<Rightarrow> request \<Rightarrow> hres \<times> Broker" where
  "serve e b q =
     (case q of
        ReqHealth \<Rightarrow> handleHealth e b
      | ReqMetadata \<Rightarrow> handleMetadata e b
      | ReqTopics body \<Rightarrow> handleCreateTopic e b body
      | ReqProduce body pq \<Rightarrow> handleProduce e b body pq
      | ReqFetch fq \<Rightarrow> handleFetch e b fq
      | ReqJoin grp body \<Rightarrow> handleJoin e b grp body
      | ReqSync grp body \<Rightarrow> handleSync e b grp body
      | ReqHeartbeat grp body \<Rightarrow> handleHeartbeat e b grp body
      | ReqLeave grp body \<Rightarrow> handleLeave e b grp body
      | ReqCommit grp body \<Rightarrow> handleCommitOffsets e b grp body
      | ReqOffsets grp tn \<Rightarrow> handleFetchOffsets e b grp tn
      | ReqPeer body \<Rightarrow> handlePeerHeartbeat e b body
      | ReqPush body \<Rightarrow> handleMetadataPush e b body
      | ReqReplicaFetch fq \<Rightarrow> handleReplicaFetch e b fq
      | ReqAck body \<Rightarrow> handleReplicaAck e b body)"

text \<open>
  \<open>Start\<close>: \<open>lnAddr\<close> is the address the listener got, \<open>None\<close> when the port could not be bound.
\<close>

definition Broker_Addr :: "string option \<Rightarrow> Broker \<Rightarrow> string" where
  "Broker_Addr lnAddr b = (case lnAddr of Some addr \<Rightarrow> addr | None \<Rightarrow> cAdvertise (bcfg b))"

definition Broker_Start :: "string option \<Rightarrow> Broker \<Rightarrow> Broker option" where
  "Broker_Start lnAddr b =
     (case lnAddr of
        None \<Rightarrow> None
      | Some addr \<Rightarrow>
          (let b1 = (if cAdvertise (bcfg b) = '''' then
                       (let me = (Self (bcluster b))\<lparr>peerAddr := addr\<rparr>
                        in b\<lparr>bcfg := (bcfg b)\<lparr>cAdvertise := addr\<rparr>,
                             bcluster := (bcluster b)\<lparr>Self := me, Peers := mput (self_id b) me (Peers (bcluster b))\<rparr>\<rparr>)
                     else b)
           in Some (syncFollowers b1)))"

text \<open>
  \<open>loop\<close>: one tick for each tick of the timer, with the faults, the clock and the state of the
  disk at that moment, until the broker stops; \<open>None\<close> is a panic.
\<close>

primrec broker_loop :: "(iofault \<times> int \<times> bool) list \<Rightarrow> Broker \<Rightarrow> Broker option" where
  "broker_loop [] b = Some b"
| "broker_loop (x # xs) b =
     (case x of (flt, now, w) \<Rightarrow> (case tick flt now w b of None \<Rightarrow> None | Some b' \<Rightarrow> broker_loop xs b'))"

text \<open>
  \<open>Close\<close>: the first call cancels the follower loops and closes the logs, whose error is
  dropped; later calls do nothing.  The cancelled loops keep their entries in \<open>followCancel\<close>.
\<close>

definition Broker_Close :: "iofault \<Rightarrow> bool \<Rightarrow> Broker \<Rightarrow> log_error option \<times> string list" where
  "Broker_Close flt closed b =
     (if closed then (None, []) else (Store_Close flt (bstore b), mkeys (followCancel b)))"

end
