(* ===== verification/LS_Replication.thy ===== *)
theory LS_Replication
  imports LS_Broker
begin

text \<open>
  Replication is correct: the follower copies a prefix of the leader's log, and the high
  watermark of the leader never passes what an in-sync replica has acknowledged.  The
  follower relies on a log only through the interface \<open>commit_log\<close>.
\<close>

section \<open>The interface of a log\<close>

locale commit_log =
  fixes inv :: "'l \<Rightarrow> bool"
    and recs :: "'l \<Rightarrow> Record list"
    and first :: "'l \<Rightarrow> int"
    and leo :: "'l \<Rightarrow> int"
    and append_at :: "'l \<Rightarrow> Record \<Rightarrow> (log_error + int) \<times> 'l"
    and storable :: "Record \<Rightarrow> bool"
  assumes leo_length: "inv l \<Longrightarrow> leo l = first l + int (length (recs l))"
    and offsets_consec: "inv l \<Longrightarrow> consec (first l) (recs l)"
    and append_at_end: "\<lbrakk>inv l; storable r; Offset r = leo l\<rbrakk>
      \<Longrightarrow> \<exists>l'. append_at l r = (Inr (leo l), l') \<and> inv l' \<and> recs l' = recs l @ [r] \<and> first l' = first l"
begin

lemma append_next:
  assumes "inv l" "prefix (recs l) xs" "consec (first l) xs" "r \<in> set xs" "storable r" "Offset r = leo l"
  shows "\<exists>l'. append_at l r = (Inr (leo l), l') \<and> inv l' \<and> recs l' = recs l @ [r] \<and> first l' = first l
    \<and> prefix (recs l') xs"
proof -
  obtain k where k: "k < length xs" "r = xs ! k" using assms(4) by (metis in_set_conv_nth)
  then have "k = length (recs l)" using assms(3,6) leo_length [OF assms(1)] by (auto simp: consec_def)
  moreover have "take (length (recs l)) xs = recs l" using assms(2) by (auto simp: prefix_def)
  ultimately have "recs l @ [r] = take (Suc k) xs" using k by (simp add: take_Suc_conv_app_nth)
  then have "prefix (recs l @ [r]) xs" by (simp add: take_is_prefix)
  then show ?thesis using append_at_end [OF assms(1,5,6)] by auto
qed

lemma apply_records_prefix:
  assumes "inv l" "prefix (recs l) xs" "consec (first l) xs" "set rs \<subseteq> set xs" "\<forall>x\<in>set xs. storable x"
  shows "inv (apply_records leo append_at l rs) \<and> first (apply_records leo append_at l rs) = first l
    \<and> prefix (recs (apply_records leo append_at l rs)) xs \<and> prefix (recs l) (recs (apply_records leo append_at l rs))"
  using assms
proof (induction rs arbitrary: l)
  case Nil
  then show ?case by simp
next
  case (Cons r rs)
  consider (old) "Offset r < leo l" | (gap) "leo l < Offset r" | (hit) "Offset r = leo l" by linarith
  then show ?case
  proof cases
    case hit
    obtain l' where l': "append_at l r = (Inr (leo l), l')" "inv l'" "recs l' = recs l @ [r]" "first l' = first l"
        "prefix (recs l') xs"
      using append_next [OF Cons.prems(1-3) _ _ hit] Cons.prems(4,5) by auto
    then have "prefix (recs l) (recs (apply_records leo append_at l' rs))"
      using Cons.IH [of l'] Cons.prems by (auto intro: append_prefixD)
    with l' hit Cons.IH [of l'] Cons.prems show ?thesis by simp
  qed (use Cons in auto)
qed

text \<open>Whatever the records are, what is in the log stays.\<close>

lemma apply_records_keeps:
  assumes "inv l" "\<forall>x\<in>set rs. storable x"
  shows "inv (apply_records leo append_at l rs) \<and> first (apply_records leo append_at l rs) = first l
    \<and> prefix (recs l) (recs (apply_records leo append_at l rs))"
  using assms
proof (induction rs arbitrary: l)
  case (Cons r rs)
  consider (old) "Offset r < leo l" | (gap) "leo l < Offset r" | (hit) "Offset r = leo l" by linarith
  then show ?case
  proof cases
    case hit
    obtain l' where l': "append_at l r = (Inr (leo l), l')" "inv l'" "recs l' = recs l @ [r]" "first l' = first l"
      using append_at_end [OF Cons.prems(1) _ hit] Cons.prems(2) by auto
    then show ?thesis using hit Cons.IH [of l'] Cons.prems by (auto intro: append_prefixD)
  qed (use Cons in auto)
qed simp

text \<open>The follower gets ahead as soon as the record it asked for comes first.\<close>

lemma apply_records_progress:
  assumes "inv l" "prefix (recs l) xs" "consec (first l) xs" "set (r # rs) \<subseteq> set xs" "\<forall>x\<in>set xs. storable x"
    "Offset r = leo l"
  shows "leo l < leo (apply_records leo append_at l (r # rs))"
proof -
  obtain l' where l': "append_at l r = (Inr (leo l), l')" "inv l'" "recs l' = recs l @ [r]" "first l' = first l"
      "prefix (recs l') xs"
    using append_next [OF assms(1-3) _ _ assms(6)] assms(4,5) by auto
  let ?f = "apply_records leo append_at l' rs"
  have "inv ?f \<and> first ?f = first l' \<and> prefix (recs l') (recs ?f)"
    using apply_records_prefix [of l' xs rs] l' assms(3-5) by auto
  then have "inv ?f" "first ?f = first l" "length (recs l) < length (recs ?f)"
    using l' by (auto dest: prefix_length_le)
  then show ?thesis using l' assms(6) leo_length [OF assms(1)] leo_length [of ?f] by simp
qed

end

section \<open>The partition log provides it\<close>

definition storable :: "Record \<Rightarrow> bool" where
  "storable r \<longleftrightarrow> valid_rec r \<and> Timestamp r \<noteq> 0 \<and> Offset r < max_i64"

lemma log_inv_facts:
  assumes "log_inv l"
  shows "LEO l = start l + int (length (contents l))" "consec (start l) (contents l)" "0 \<le> start l" "LEO l \<le> max_i64"
    "0 \<le> hw l" "hw l \<le> LEO l"
proof -
  from assms obtain rss where ok: "log_ok l rss" by (auto simp: log_inv_def)
  then show "LEO l = start l + int (length (contents l))" "consec (start l) (contents l)" "0 \<le> start l" "LEO l \<le> max_i64"
    "0 \<le> hw l" "hw l \<le> LEO l"
    using log_ok_facts [OF ok] contents_eq [OF ok] by (simp_all add: log_ok_def)
qed

lemma AppendAt_storable:
  assumes "log_inv l" "storable r" "Offset r = LEO l"
  shows "\<exists>l'. AppendAt no_fault now l r = (Inr (LEO l), l') \<and> log_inv l' \<and> contents l' = contents l @ [r]
    \<and> start l' = start l"
proof -
  from assms(1) obtain rss where ok: "log_ok l rss" by (auto simp: log_inv_def)
  have st: "stamp now r = r" using assms(2) by (simp add: storable_def stamp_def)
  obtain l' where l': "appendLocked no_fault now l r = (Inr (LEO l), l')"
      "log_ok l' (split_append (MaxSegmentBytes (lcfg l)) rss r)"
    using appendLocked_ok [OF ok assms(3), of now] assms(2,3) st by (auto simp: storable_def)
  then show ?thesis
    using log_ok_extend [OF ok l'(2) concat_split_append [OF log_ok_facts(7) [OF ok]] assms(3)] assms(3)
    by (auto simp: AppendAt_def log_inv_def LEO_def)
qed

interpretation pl: commit_log log_inv contents start LEO "AppendAt no_fault now" storable for now
  by unfold_locales (blast intro: log_inv_facts AppendAt_storable)+

lemma SetHighWatermark_simps [simp]:
  "contents (SetHighWatermark l h) = contents l" "LEO (SetHighWatermark l h) = LEO l"
  "start (SetHighWatermark l h) = start l" "segments (SetHighWatermark l h) = segments l"
  by (simp_all add: SetHighWatermark_def Let_def contents_def LEO_def start_def active_def)

lemma SetHighWatermark_value:
  assumes "log_inv l"
  shows "hw (SetHighWatermark l h) = max (hw l) (min h (LEO l))" "log_inv (SetHighWatermark l h)"
proof -
  note f = log_inv_facts [OF assms]
  show "hw (SetHighWatermark l h) = max (hw l) (min h (LEO l))"
    using f by (auto simp: SetHighWatermark_def Let_def LEO_def)
  from assms obtain rss where ok: "log_ok l rss" by (auto simp: log_inv_def)
  have "log_ok (l\<lparr>hw := x\<rparr>) rss" if "0 \<le> x" "x \<le> LEO l" for x
    using ok that by (simp add: log_ok_def LEO_def active_def)
  then have "log_ok (SetHighWatermark l h) rss"
    using ok f by (auto simp: SetHighWatermark_def Let_def LEO_def)
  then show "log_inv (SetHighWatermark l h)" by (auto simp: log_inv_def)
qed

section \<open>Follower and leader\<close>

lemma Read_subset:
  assumes "log_inv l" "start l \<le> f" "Read l f mb m = Inr rs"
  shows "set rs \<subseteq> set (contents l)"
proof (cases "f < LEO l \<and> f < read_limit l m")
  case True
  then obtain r new where "Read l f mb m = Inr (r # new)" "subseq (r # new) (visible f (read_limit l m) (contents l))"
    using Read_sound [OF assms(1,2), of m mb] by auto
  then show ?thesis using assms(3) by (auto dest: list_emb_set)
next
  case False
  then have "rs = []" using assms(3) by (auto simp: Read_def LEO_def Let_def split: if_splits)
  then show ?thesis by simp
qed

lemma map_fromWire_json [simp]: "\<forall>r\<in>set rs. text_rec r \<Longrightarrow> map fromWire (map json_wire (toWire rs)) = rs"
  by (simp add: toWire_def comp_def wire_text map_idI)

lemma appendLocked_hw: "appendLocked flt now l r = (x, l') \<Longrightarrow> hw l' = hw l"
  by (auto simp: appendLocked_def rotateLocked_def set_active_def Let_def split: prod.splits option.splits sum.splits if_splits)

lemma apply_records_hw: "hw (apply_records LEO (AppendAt flt now) l rs) = hw l"
  by (induction rs arbitrary: l)
    (auto simp: AppendAt_def dest: appendLocked_hw split: prod.splits sum.splits)

text \<open>
  The log of the follower after one fetch from its log end: still a prefix of the leader's
  log, and longer than before if the leader has more.
\<close>

lemma follower_copy:
  fixes now :: int
  assumes L: "log_inv lead" "\<forall>r\<in>set (contents lead). storable r"
    and F: "log_inv foll" "start foll = start lead" "prefix (contents foll) (contents lead)"
    and rd: "Read lead (LEO foll) mb (LEO lead) = Inr rs"
  defines "foll' \<equiv> apply_records LEO (AppendAt no_fault now) foll rs"
  shows "log_inv foll'" "start foll' = start lead" "prefix (contents foll') (contents lead)"
    "prefix (contents foll) (contents foll')" "LEO foll < LEO lead \<Longrightarrow> LEO foll < LEO foll'"
proof -
  note fl = log_inv_facts [OF L(1)] and ff = log_inv_facts [OF F(1)]
  have st: "start lead \<le> LEO foll" using ff(1) F(2) by simp
  have sub: "set rs \<subseteq> set (contents lead)" using Read_subset [OF L(1) st rd] .
  have cons: "consec (start foll) (contents lead)" using fl(2) F(2) by simp
  show "log_inv foll'" "start foll' = start lead" "prefix (contents foll') (contents lead)" "prefix (contents foll) (contents foll')"
    using pl.apply_records_prefix [OF F(1,3) cons sub L(2), of now] F(2) by (simp_all add: foll'_def)
  assume lt: "LEO foll < LEO lead"
  have pos: "\<not> LEO lead < 0" using fl by simp
  obtain r new where r: "rs = r # new" "Offset r = LEO foll"
    using Read_sound [OF L(1) st lt, of "LEO lead" mb] lt pos rd by auto
  show "LEO foll < LEO foll'"
    using pl.apply_records_progress [OF F(1,3) cons, of r new now] sub L(2) r by (simp add: foll'_def)
qed

text \<open>
  \<open>b\<close> follows the broker at \<open>addr\<close> on a partition, and its copy \<open>foll\<close> is a prefix of the
  leader's log; \<open>leader_net\<close> answers a fetch as the leader does, with the records read from
  its log up to the log end (\<open>serveFetch\<close> for a replica).
\<close>

definition follower_of :: "Broker \<Rightarrow> string \<Rightarrow> int \<Rightarrow> string \<Rightarrow> Log \<Rightarrow> Log \<Rightarrow> bool" where
  "follower_of b tn part addr lead foll \<longleftrightarrow>
     Store_Get (bstore b) tn part = Some foll \<and> log_inv foll \<and> start foll = start lead
     \<and> prefix (contents foll) (contents lead)
     \<and> (\<exists>pm. partition_meta b tn part = Some pm \<and> pLeader pm \<noteq> self_id b \<and> self_id b \<in> set (pReplicas pm)
          \<and> Addr (bcluster b) (pLeader pm) = addr) \<and> addr \<noteq> ''''"

definition leader_net :: "Log \<Rightarrow> string \<Rightarrow> string \<Rightarrow> int \<Rightarrow> int \<Rightarrow> FetchResponse option" where
  "leader_net lead addr tn part off =
     (case Read lead off 1048576 (LEO lead) of
        Inl e \<Rightarrow> None
      | Inr rs \<Rightarrow> Some \<lparr>fTopic = tn, fPartition = part, fHighWatermark = HighWatermark lead, fLogEndOffset = LEO lead,
                      fRecords = map json_wire (toWire rs)\<rparr>)"

lemma Read_from_end:
  assumes "log_inv l" "start l \<le> f"
  obtains rs where "Read l f mb (LEO l) = Inr rs"
proof (cases "f < LEO l")
  case True
  have "\<not> LEO l < 0" using log_inv_facts [OF assms(1)] by simp
  then show ?thesis using that Read_sound [OF assms True, of "LEO l" mb] True by auto
next
  case False
  then show ?thesis using that by (auto simp: Read_def LEO_def Let_def)
qed

lemma follow_pass_copy:
  assumes L: "log_inv lead" "\<forall>r\<in>set (contents lead). storable r \<and> text_rec r"
    and F: "follower_of b tn part addr lead foll"
    and net: "net addr tn part (LEO foll) = leader_net lead addr tn part (LEO foll)"
  shows "\<exists>b' foll'. follow_pass no_fault now net b tn part = (FollowDone, b') \<and> follower_of b' tn part addr lead foll'
    \<and> prefix (contents foll) (contents foll') \<and> (LEO foll < LEO lead \<longrightarrow> LEO foll < LEO foll')
    \<and> HighWatermark foll' = max (HighWatermark foll) (min (HighWatermark lead) (LEO foll'))
    \<and> outbox b' = outbox b @ [MsgAck addr \<lparr>aBrokerID = self_id b, aTopic = tn, aPartition = part, aLEO = LEO foll'\<rparr>]"
proof -
  have G: "Store_Get (bstore b) tn part = Some foll" "log_inv foll" "start foll = start lead"
      "prefix (contents foll) (contents lead)" "addr \<noteq> ''''"
    using F by (simp_all add: follower_of_def)
  obtain pm where M: "partition_meta b tn part = Some pm" "pLeader pm \<noteq> self_id b" "self_id b \<in> set (pReplicas pm)"
      "Addr (bcluster b) (pLeader pm) = addr"
    using F by (auto simp: follower_of_def)
  have st: "start lead \<le> LEO foll" using log_inv_facts(1) [OF G(2)] G(3) by simp
  obtain rs where rs: "Read lead (LEO foll) 1048576 (LEO lead) = Inr rs" by (rule Read_from_end [OF L(1) st])
  have "set rs \<subseteq> set (contents lead)" by (rule Read_subset [OF L(1) st rs])
  then have tx: "map fromWire (map json_wire (toWire rs)) = rs" using L(2) by (intro map_fromWire_json) blast
  have sto: "\<forall>r\<in>set (contents lead). storable r" using L(2) by blast
  note cp = follower_copy [where now = now, OF L(1) sto G(2-4) rs]
  let ?f = "apply_records LEO (AppendAt no_fault now) foll rs"
  let ?f' = "SetHighWatermark ?f (HighWatermark lead)"
  have hwf: "hw ?f = hw foll" by (rule apply_records_hw)
  note v = SetHighWatermark_value [OF cp(1), of "HighWatermark lead"]
  have opn: "Store_Open no_fault (bstore b) tn part = (Inr foll, bstore b)"
    using G(1) by (simp add: Store_Open_def Store_Get_def)
  define b' where "b' = b\<lparr>bstore := Store_put (bstore b) tn part ?f',
        outbox := outbox b @ [MsgAck addr \<lparr>aBrokerID = self_id b, aTopic = tn, aPartition = part, aLEO = LEO ?f'\<rparr>]\<rparr>"
  have pass: "follow_pass no_fault now net b tn part = (FollowDone, b')"
    using opn M G(5) net rs tx by (simp add: follow_pass_def leader_net_def b'_def Let_def del: map_map)
  have fo: "follower_of b' tn part addr lead ?f'"
    using cp v(2) M G(5) by (auto simp: follower_of_def b'_def Store_Get_def Store_put_def partition_meta_def)
  show ?thesis
    using pass fo cp(4,5) v(1) hwf by (intro exI [of _ b'] exI [of _ ?f']) (simp add: b'_def HighWatermark_def)
qed

text \<open>
  Replication copies the leader's log: when the log of a follower is a prefix of the
  leader's and one pass of the follower loop gets the answer of the leader to a fetch from
  the follower's log end, then afterwards it is still a prefix, nothing that was there is
  gone, it is longer if the leader has more records, its high watermark is the leader's as
  far as its own log reaches, and the follower acknowledges its new log end.
\<close>

theorem follower_prefix_of_leader:
  assumes "log_inv lead" "\<forall>r\<in>set (contents lead). storable r \<and> text_rec r" "follower_of b tn part addr lead foll"
    "net addr tn part (LEO foll) = leader_net lead addr tn part (LEO foll)"
  shows "\<exists>b' foll'. follow_pass no_fault now net b tn part = (FollowDone, b') \<and> Store_Get (bstore b') tn part = Some foll'
    \<and> log_inv foll' \<and> prefix (contents foll') (contents lead) \<and> prefix (contents foll) (contents foll')
    \<and> (LEO foll < LEO lead \<longrightarrow> LEO foll < LEO foll')
    \<and> HighWatermark foll' = max (HighWatermark foll) (min (HighWatermark lead) (LEO foll'))
    \<and> last (outbox b') = MsgAck addr \<lparr>aBrokerID = self_id b, aTopic = tn, aPartition = part, aLEO = LEO foll'\<rparr>"
proof -
  obtain b' foll' where "follow_pass no_fault now net b tn part = (FollowDone, b')" "follower_of b' tn part addr lead foll'"
     "prefix (contents foll) (contents foll')" "LEO foll < LEO lead \<longrightarrow> LEO foll < LEO foll'"
     "HighWatermark foll' = max (HighWatermark foll) (min (HighWatermark lead) (LEO foll'))"
     "outbox b' = outbox b @ [MsgAck addr \<lparr>aBrokerID = self_id b, aTopic = tn, aPartition = part, aLEO = LEO foll'\<rparr>]"
    using follow_pass_copy [OF assms(1-3), of net now] assms(4) by blast
  then show ?thesis by (intro exI [of _ b'] exI [of _ foll']) (simp add: follower_of_def)
qed

text \<open>Broker 2 follows broker 1 on partition 0 of topic \<open>t\<close>, for the examples.\<close>

definition example_broker :: "int \<Rightarrow> Log \<Rightarrow> Broker" where
  "example_broker i l =
     (let cl = Cluster_New 0 \<lparr>peerID = i, peerAddr = ''h''\<rparr> [\<lparr>peerID = 1, peerAddr = ''a''\<rparr>, \<lparr>peerID = 2, peerAddr = ''b''\<rparr>] 0
      in \<lparr>bcfg = default_cfg \<lparr>cID = i, cBind = '''', cAdvertise = ''h'', cDataDir = [], cPeers = [], cSessionTimeout = 0,
              cGroupSession = 0, cRebalanceWait = 0, cReplicaLagTime = 0, cFsyncEvery = 0, cMaxSegmentBytes = 0,
              cIndexInterval = 0, cMinISR = 0, cProduceTimeout = 0\<rparr>,
          bcluster = MarkSeen 0 cl (3 - i),
          bstore = \<lparr>sroot = [''data''], logCfg = example_cfg, slogs = [(key ''t'' 0, l)], sdisk = []\<rparr>,
          bgroups = Coordinator_New NoFile 0 0, bpartitioner = \<lparr>rr = 0\<rparr>,
          btopics = [(''t'', \<lparr>tName = ''t'', tPartitions = [\<lparr>pID = 0, pLeader = 1, pReplicas = [1, 2], pISR = [1]\<rparr>]\<rparr>)],
          topicsFile = NoFile, replicaLEO = [], followCancel = [], outbox = []\<rparr>)"

lemma example_broker_simps [simp]:
  "self_id (example_broker i l) = i" "Store_Get (bstore (example_broker i l)) ''t'' 0 = Some l"
  "partition_meta (example_broker i l) ''t'' 0 = Some \<lparr>pID = 0, pLeader = 1, pReplicas = [1, 2], pISR = [1]\<rparr>"
  by (simp_all add: example_broker_def Let_def default_cfg_def Store_Get_def partition_meta_def)

lemma example_follower:
  obtains l where "Log_Open no_fault small_cfg [] = Inr l" "log_inv (append_empty 6 l)"
    "contents (append_empty 6 l) = map empty_rec [0, 1, 2, 3, 4, 5]" "LEO (append_empty 6 l) = 6"
    "follower_of (example_broker 2 l) ''t'' 0 ''a'' (append_empty 6 l) l" "LEO l = 0"
proof -
  obtain l a b c where l: "Log_Open no_fault small_cfg [] = Inr l" "log_inv (append_empty 6 l)"
      "contents (append_empty 6 l) = map empty_rec [0, 1, 2, 3, 4, 5]" "LEO (append_empty 6 l) = 6" "start (append_empty 6 l) = 0"
    by (rule six_records) blast
  obtain l0 where l0: "Log_Open no_fault small_cfg [] = Inr l0" "log_ok l0 [[]]" "start l0 = 0"
    using Log_Open_empty [of small_cfg] by auto
  have eq: "l0 = l" using l(1) l0(1) by simp
  have f: "log_inv l" "contents l = []" "LEO l = 0" "start l = 0"
    using l0(2,3) contents_eq [OF l0(2)] log_ok_facts(2) [OF l0(2)] by (auto simp: log_inv_def eq)
  have ad: "Addr (bcluster (example_broker 2 l)) 1 = ''a''"
    by (simp add: example_broker_def Let_def Addr_def MarkSeen_def Cluster_New_def)
  have "follower_of (example_broker 2 l) ''t'' 0 ''a'' (append_empty 6 l) l"
    using f l(5) ad by (simp add: follower_of_def del: append_empty.simps)
  then show ?thesis using that l f by blast
qed

lemma empty_recs_text: "\<forall>r\<in>set (map empty_rec [0, 1, 2, 3, 4, 5]). storable r \<and> text_rec r"
  by (simp add: storable_def valid_rec_def in_i64_def EncodedSize_def text_rec_def)

theorem follower_prefix_of_leader_witness:
  "\<exists>l b' foll'. Log_Open no_fault small_cfg [] = Inr l
    \<and> follow_pass no_fault 9 (leader_net (append_empty 6 l)) (example_broker 2 l) ''t'' 0 = (FollowDone, b')
    \<and> Store_Get (bstore b') ''t'' 0 = Some foll' \<and> prefix (contents foll') (map empty_rec [0, 1, 2, 3, 4, 5]) \<and> 0 < LEO foll'"
proof -
  obtain l where l: "Log_Open no_fault small_cfg [] = Inr l" "log_inv (append_empty 6 l)"
      "contents (append_empty 6 l) = map empty_rec [0, 1, 2, 3, 4, 5]" "LEO (append_empty 6 l) = 6"
      "follower_of (example_broker 2 l) ''t'' 0 ''a'' (append_empty 6 l) l" "LEO l = 0"
    by (rule example_follower)
  from follower_prefix_of_leader [OF l(2) _ l(5), of "leader_net (append_empty 6 l)" 9] l empty_recs_text
  show ?thesis by (auto simp del: append_empty.simps list.map)
qed

section \<open>The high watermark of the leader\<close>

lemma compute_hw_spec:
  "compute_hw b tn part leo isr \<le> leo
   \<and> (\<forall>i\<in>set isr. i \<noteq> self_id b \<longrightarrow> (\<forall>st. map_of (states_of b tn part) i = Some st \<longrightarrow> compute_hw b tn part leo isr \<le> rleo st))"
proof (induction isr arbitrary: leo)
  case Nil
  then show ?case by (simp add: compute_hw_def)
next
  case (Cons i isr)
  define leo' where "leo' = (if i = self_id b then leo else (case map_of (states_of b tn part) i of
      None \<Rightarrow> leo | Some st \<Rightarrow> if rleo st < leo then rleo st else leo))"
  have hw: "compute_hw b tn part leo (i # isr) = compute_hw b tn part leo' isr"
    by (simp add: compute_hw_def leo'_def)
  have "leo' \<le> leo" "\<And>st. i \<noteq> self_id b \<Longrightarrow> map_of (states_of b tn part) i = Some st \<Longrightarrow> leo' \<le> rleo st"
    by (auto simp: leo'_def split: option.splits)
  then show ?case unfolding hw using Cons.IH [of leo'] by fastforce
qed

lemma compute_isr_acked:
  "i \<in> set (compute_isr now b tn pm) \<Longrightarrow> i \<noteq> self_id b \<Longrightarrow>
     i \<in> set (pReplicas pm) \<and> IsAlive now (bcluster b) i \<and>
     (\<exists>st. map_of (states_of b tn (pID pm)) i = Some st \<and> now - rlastSeen st \<le> cReplicaLagTime (bcfg b))"
  by (auto simp: compute_isr_def split: option.splits)

lemma sameInts_set:
  assumes "sameInts xs ys" "distinct ys"
  shows "set xs = set ys"
proof -
  have "set ys \<subseteq> set xs" using assms(1) by (auto simp: sameInts_def)
  moreover have "card (set xs) \<le> card (set ys)"
    using assms by (metis card_length distinct_card sameInts_def)
  ultimately show ?thesis by (metis List.finite_set card_seteq)
qed

lemma set_isr_meta:
  assumes "partition_meta b tn part = Some pm"
  shows "partition_meta (set_isr b tn part isr) tn part = Some (pm\<lparr>pISR := isr\<rparr>)"
proof -
  have f: "find (\<lambda>p. pID p = part) (map (\<lambda>p. if pID p = part then p\<lparr>pISR := isr\<rparr> else p) ps) =
      map_option (\<lambda>p. p\<lparr>pISR := isr\<rparr>) (find (\<lambda>p. pID p = part) ps)" for ps :: "partitionMeta list"
    by (induction ps) auto
  show ?thesis
    using assms by (auto simp: partition_meta_def set_isr_def f split: option.splits)
qed

lemma broadcast_simps [simp]:
  "bstore (broadcastMetadata now b) = bstore b" "btopics (broadcastMetadata now b) = btopics b"
  "bstore (persistTopicsLocked w b) = bstore b" "btopics (persistTopicsLocked w b) = btopics b"
  "bstore (set_isr b tn part isr) = bstore b"
  by (simp_all add: broadcastMetadata_def persistTopicsLocked_def set_isr_def Let_def)

lemma partition_meta_cong: "btopics b = btopics b' \<Longrightarrow> partition_meta b = partition_meta b'"
  by (simp add: partition_meta_def fun_eq_iff)

lemma recomputeHW_leader:
  fixes now :: int
  assumes "partition_meta b tn part = Some pm" "pLeader pm = self_id b" "Store_Get (bstore b) tn part = Some lg"
  defines "isr \<equiv> compute_isr now b tn pm"
  shows "Store_Get (bstore (recomputeHW no_fault now w b tn part)) tn part =
      Some (SetHighWatermark lg (compute_hw b tn part (LEO lg) isr))"
    and "partition_meta (recomputeHW no_fault now w b tn part) tn part =
      Some (if sameInts (pISR pm) isr then pm else pm\<lparr>pISR := isr\<rparr>)"
proof -
  have opn: "Store_Open no_fault (bstore b) tn part = (Inr lg, bstore b)"
    using assms(3) by (simp add: Store_Open_def Store_Get_def)
  let ?b1 = "b\<lparr>bstore := Store_put (bstore b) tn part (SetHighWatermark lg (compute_hw b tn part (LEO lg) isr))\<rparr>"
  have rc: "recomputeHW no_fault now w b tn part =
      (if \<not> sameInts (pISR pm) isr then broadcastMetadata now (persistTopicsLocked w (set_isr ?b1 tn part isr)) else ?b1)"
    using assms(1,2) opn by (simp add: recomputeHW_def isr_def Let_def)
  show "Store_Get (bstore (recomputeHW no_fault now w b tn part)) tn part =
      Some (SetHighWatermark lg (compute_hw b tn part (LEO lg) isr))"
    by (simp add: rc Store_Get_def Store_put_def)
  have m1: "partition_meta ?b1 tn part = Some pm" using assms(1) by (simp add: partition_meta_def)
  show "partition_meta (recomputeHW no_fault now w b tn part) tn part =
      Some (if sameInts (pISR pm) isr then pm else pm\<lparr>pISR := isr\<rparr>)"
    using m1 set_isr_meta [OF m1, of isr]
      partition_meta_cong [of "broadcastMetadata now (persistTopicsLocked w (set_isr ?b1 tn part isr))" "set_isr ?b1 tn part isr"]
    by (simp add: rc)
qed

lemma recomputeHW_mark:
  assumes "partition_meta b tn part = Some pm" "pLeader pm = self_id b" "distinct (pReplicas pm)"
    "Store_Get (bstore b) tn part = Some lg" "log_inv lg"
  shows "\<exists>lg' pm'. Store_Get (bstore (recomputeHW no_fault now w b tn part)) tn part = Some lg'
    \<and> partition_meta (recomputeHW no_fault now w b tn part) tn part = Some pm'
    \<and> contents lg' = contents lg \<and> HighWatermark lg \<le> HighWatermark lg' \<and> HighWatermark lg' \<le> LEO lg'
    \<and> (\<forall>i\<in>set (pISR pm'). i \<noteq> self_id b \<longrightarrow> i \<in> set (pReplicas pm) \<and> IsAlive now (bcluster b) i
        \<and> (\<exists>st. map_of (states_of b tn part) i = Some st \<and> now - rlastSeen st \<le> cReplicaLagTime (bcfg b)
             \<and> (HighWatermark lg < HighWatermark lg' \<longrightarrow> HighWatermark lg' \<le> rleo st)))"
proof -
  define isr where "isr = compute_isr now b tn pm"
  define h where "h = compute_hw b tn part (LEO lg) isr"
  define pm' where "pm' = (if sameInts (pISR pm) isr then pm else pm\<lparr>pISR := isr\<rparr>)"
  note rc = recomputeHW_leader [where now = now and w = w, OF assms(1,2,4), folded isr_def, folded h_def, folded pm'_def]
  have d: "distinct isr" using assms(3) by (simp add: isr_def compute_isr_def)
  have isr: "set (pISR pm') = set isr" using sameInts_set [OF _ d] by (simp add: pm'_def)
  have pid: "pID pm = part"
    using assms(1) by (auto simp: partition_meta_def find_Some_iff split: option.splits)
  note sp = compute_hw_spec [of b tn part "LEO lg" isr, folded h_def]
  have hw: "hw (SetHighWatermark lg h) = max (hw lg) (min h (LEO lg))"
    using SetHighWatermark_value [OF assms(5)] by simp
  have "i \<in> set (pReplicas pm) \<and> IsAlive now (bcluster b) i
        \<and> (\<exists>st. map_of (states_of b tn part) i = Some st \<and> now - rlastSeen st \<le> cReplicaLagTime (bcfg b)
             \<and> (hw lg < hw (SetHighWatermark lg h) \<longrightarrow> hw (SetHighWatermark lg h) \<le> rleo st))"
    if "i \<in> set (pISR pm')" "i \<noteq> self_id b" for i
  proof -
    have i: "i \<in> set isr" using that isr by simp
    note ac = compute_isr_acked [OF i [unfolded isr_def] that(2), unfolded pid]
    then obtain st where st: "map_of (states_of b tn part) i = Some st" "now - rlastSeen st \<le> cReplicaLagTime (bcfg b)" by blast
    have "h \<le> rleo st" using sp i that(2) st(1) by blast
    then show ?thesis using ac st hw by auto
  qed
  then show ?thesis
    using rc hw log_inv_facts(6) [OF assms(5)] sp by (auto simp: HighWatermark_def)
qed

text \<open>
  C9.  The high watermark is replicated: when the leader recomputes it, it never retreats, stays
  within the log, and if it advances then every replica that is in sync afterwards has
  acknowledged a log end at or beyond it.  The in-sync set that the leader records is itself
  and the replicas that are alive and acknowledged within the lag time.
\<close>

theorem high_watermark_replicated:
  assumes "partition_meta b tn part = Some pm" "pLeader pm = self_id b" "distinct (pReplicas pm)"
    "Store_Get (bstore b) tn part = Some lg" "log_inv lg" "recomputeHW no_fault now w b tn part = b'"
  shows "\<exists>lg' pm'. Store_Get (bstore b') tn part = Some lg' \<and> partition_meta b' tn part = Some pm'
    \<and> contents lg' = contents lg \<and> HighWatermark lg \<le> HighWatermark lg' \<and> HighWatermark lg' \<le> LEO lg'
    \<and> (\<forall>i\<in>set (pISR pm'). i \<noteq> self_id b \<longrightarrow> i \<in> set (pReplicas pm) \<and> IsAlive now (bcluster b) i
        \<and> (\<exists>st. map_of (states_of b tn part) i = Some st \<and> now - rlastSeen st \<le> cReplicaLagTime (bcfg b)
             \<and> (HighWatermark lg < HighWatermark lg' \<longrightarrow> HighWatermark lg' \<le> rleo st)))"
  using recomputeHW_mark [OF assms(1-5), of now w] assms(6) by simp

theorem high_watermark_replicated_witness:
  "\<exists>l b' lg'. Log_Open no_fault small_cfg [] = Inr l
    \<and> recomputeHW no_fault 9 True (noteReplica 8 (example_broker 1 (append_empty 6 l)) ''t'' 0 2 4) ''t'' 0 = b'
    \<and> Store_Get (bstore b') ''t'' 0 = Some lg' \<and> HighWatermark (append_empty 6 l) \<le> HighWatermark lg'
    \<and> HighWatermark lg' \<le> LEO lg'"
proof -
  obtain l a b c where l: "Log_Open no_fault small_cfg [] = Inr l" "log_inv (append_empty 6 l)"
    by (rule six_records) blast
  let ?b = "noteReplica 8 (example_broker 1 (append_empty 6 l)) ''t'' 0 2 4"
  have "partition_meta ?b ''t'' 0 = Some \<lparr>pID = 0, pLeader = 1, pReplicas = [1, 2], pISR = [1]\<rparr>" "self_id ?b = 1"
      "Store_Get (bstore ?b) ''t'' 0 = Some (append_empty 6 l)"
    using example_broker_simps [of 1 "append_empty 6 l"]
    by (simp_all add: noteReplica_def Let_def partition_meta_def del: example_broker_simps append_empty.simps)
  from high_watermark_replicated [OF this(1) _ _ this(3) l(2), of 9 True] this(2) l(1)
  show ?thesis by (fastforce simp del: append_empty.simps)
qed

section \<open>Catching up\<close>

text \<open>The passes of the follower loop at the given times, while the leader's log stays as it is.\<close>

definition follow_passes :: "Log \<Rightarrow> string \<Rightarrow> int \<Rightarrow> Broker \<Rightarrow> int list \<Rightarrow> Broker" where
  "follow_passes lead tn part b nows =
     foldl (\<lambda>b now. snd (follow_pass no_fault now (leader_net lead) b tn part)) b nows"

lemma follower_LEO_le:
  assumes "log_inv lead" "follower_of b tn part addr lead foll"
  shows "LEO foll \<le> LEO lead" "LEO foll = LEO lead \<Longrightarrow> contents foll = contents lead"
proof -
  have f: "log_inv foll" "start foll = start lead" "prefix (contents foll) (contents lead)"
    using assms(2) by (simp_all add: follower_of_def)
  note l = log_inv_facts(1) [OF assms(1)] log_inv_facts(1) [OF f(1)]
  show "LEO foll \<le> LEO lead" using l f(2) prefix_length_le [OF f(3)] by simp
  assume "LEO foll = LEO lead"
  then have "length (contents foll) = length (contents lead)" using l f(2) by simp
  then show "contents foll = contents lead" using f(3) by (auto simp: prefix_def)
qed

lemma follow_passes_gain:
  assumes "log_inv lead" "\<forall>r\<in>set (contents lead). storable r \<and> text_rec r" "follower_of b tn part addr lead foll"
  shows "\<exists>foll'. follower_of (follow_passes lead tn part b nows) tn part addr lead foll'
    \<and> (LEO foll' = LEO lead \<or> LEO foll + int (length nows) \<le> LEO foll')"
  using assms(3)
proof (induction nows arbitrary: b foll)
  case Nil
  then show ?case by (auto simp: follow_passes_def)
next
  case (Cons now nows)
  obtain b' f where b': "follow_pass no_fault now (leader_net lead) b tn part = (FollowDone, b')"
      "follower_of b' tn part addr lead f" "LEO foll < LEO lead \<longrightarrow> LEO foll < LEO f" "prefix (contents foll) (contents f)"
    using follow_pass_copy [OF assms(1,2) Cons.prems, of "leader_net lead" now] by blast
  obtain f' where f': "follower_of (follow_passes lead tn part b' nows) tn part addr lead f'"
      "LEO f' = LEO lead \<or> LEO f + int (length nows) \<le> LEO f'"
    using Cons.IH [OF b'(2)] by blast
  have "LEO f' \<le> LEO lead" using follower_LEO_le(1) [OF assms(1) f'(1)] .
  moreover have "LEO f' = LEO lead" if "\<not> LEO foll < LEO lead"
  proof -
    have "LEO foll = LEO lead" using that follower_LEO_le(1) [OF assms(1) Cons.prems] by simp
    moreover have "LEO foll \<le> LEO f" using log_inv_facts(1) prefix_length_le [OF b'(4)] Cons.prems b'(2)
      by (simp add: follower_of_def)
    ultimately show ?thesis using f'(2) \<open>LEO f' \<le> LEO lead\<close> by linarith
  qed
  ultimately have "LEO f' = LEO lead \<or> LEO foll + int (length (now # nows)) \<le> LEO f'"
    using b'(3) f'(2) by fastforce
  then show ?case using f'(1) b'(1) by (auto simp: follow_passes_def)
qed

text \<open>
  C16.  A follower catches up: while the leader's log does not change, at most as many passes
  of the follower loop as records are missing make the follower's log equal to the leader's,
  and further passes keep it so.
\<close>

theorem follower_catches_up:
  assumes "log_inv lead" "\<forall>r\<in>set (contents lead). storable r \<and> text_rec r" "follower_of b tn part addr lead foll"
    "LEO lead - LEO foll \<le> int (length nows)"
  shows "\<exists>foll'. Store_Get (bstore (follow_passes lead tn part b nows)) tn part = Some foll'
    \<and> contents foll' = contents lead \<and> LEO foll' = LEO lead \<and> log_inv foll'"
proof -
  obtain f' where f': "follower_of (follow_passes lead tn part b nows) tn part addr lead f'"
      "LEO f' = LEO lead \<or> LEO foll + int (length nows) \<le> LEO f'"
    using follow_passes_gain [OF assms(1-3)] by blast
  note le = follower_LEO_le [OF assms(1) f'(1)]
  have "LEO f' = LEO lead" using f'(2) le(1) assms(4) by linarith
  then show ?thesis using le(2) f'(1) by (auto simp: follower_of_def)
qed

theorem follower_catches_up_witness:
  "\<exists>l foll'. Log_Open no_fault small_cfg [] = Inr l
    \<and> Store_Get (bstore (follow_passes (append_empty 6 l) ''t'' 0 (example_broker 2 l) [1, 2, 3, 4, 5, 6])) ''t'' 0 = Some foll'
    \<and> contents foll' = map empty_rec [0, 1, 2, 3, 4, 5]"
proof -
  obtain l where l: "Log_Open no_fault small_cfg [] = Inr l" "log_inv (append_empty 6 l)"
      "contents (append_empty 6 l) = map empty_rec [0, 1, 2, 3, 4, 5]" "LEO (append_empty 6 l) = 6"
      "follower_of (example_broker 2 l) ''t'' 0 ''a'' (append_empty 6 l) l" "LEO l = 0"
    by (rule example_follower)
  from follower_catches_up [OF l(2) _ l(5), of "[1, 2, 3, 4, 5, 6]"] l empty_recs_text
  show ?thesis by (auto simp del: append_empty.simps list.map)
qed

end
