(* ===== verification/LS_Controller.thy ===== *)
theory LS_Controller
  imports LS_Replication
begin

text \<open>
  The controller and the metadata it keeps (\<^verbatim>\<open>src/internal/broker/broker.go\<close>, \<^verbatim>\<open>metadata.go\<close>): an
  invariant of the partition metadata, its preservation by every operation that writes
  metadata, the choice of a leader, and what replica assignment produces.
\<close>

section \<open>The invariant of the metadata\<close>

definition meta_ok :: "partitionMeta \<Rightarrow> bool" where
  "meta_ok p \<longleftrightarrow> pReplicas p \<noteq> [] \<and> distinct (pReplicas p) \<and> pLeader p \<in> set (pReplicas p)
     \<and> pISR p \<noteq> [] \<and> set (pISR p) \<subseteq> set (pReplicas p) \<and> distinct (pISR p)"

definition topic_ok :: "string \<Rightarrow> topicMeta \<Rightarrow> bool" where
  "topic_ok k t \<longleftrightarrow> tName t = k \<and> distinct (map pID (tPartitions t)) \<and> list_all meta_ok (tPartitions t)"

definition topics_ok :: "Broker \<Rightarrow> bool" where
  "topics_ok b \<longleftrightarrow> go_map (btopics b) \<and> list_all (\<lambda>(k, t). topic_ok k t) (btopics b)"

lemma topics_okD: "topics_ok b \<Longrightarrow> map_of (btopics b) k = Some t \<Longrightarrow> topic_ok k t"
  by (auto simp: topics_ok_def list_all_iff dest: map_of_SomeD)

lemma partition_metaE:
  assumes "partition_meta b tn i = Some p"
  obtains t where "map_of (btopics b) tn = Some t" "p \<in> set (tPartitions t)" "pID p = i"
  using assms by (auto simp: partition_meta_def find_Some_iff split: option.splits)

lemma topics_ok_meta: "topics_ok b \<Longrightarrow> partition_meta b tn i = Some p \<Longrightarrow> meta_ok p"
  by (elim partition_metaE) (auto dest!: topics_okD simp: topic_ok_def list_all_iff)

section \<open>One partition in a tick\<close>

definition some_alive :: "(int \<Rightarrow> bool) \<Rightarrow> partitionMeta \<Rightarrow> bool" where
  "some_alive alive p \<longleftrightarrow> (\<exists>i\<in>set (pReplicas p). alive i)"

lemma firstAlive_some:
  assumes "meta_ok p"
  shows "\<exists>l\<in>set (pReplicas p). firstAlive (pReplicas p) alive = Some l \<and> (some_alive alive p \<longrightarrow> alive l)
    \<and> (alive (hd (pReplicas p)) \<longrightarrow> l = hd (pReplicas p))"
proof -
  obtain x xs where xs: "pReplicas p = x # xs" using assms by (auto simp: meta_ok_def neq_Nil_conv)
  show ?thesis
  proof (cases "find alive (pReplicas p)")
    case None
    then have "\<forall>i\<in>set (pReplicas p). \<not> alive i" by (auto simp: find_None_iff)
    with None xs show ?thesis by (auto simp: firstAlive_def some_alive_def)
  next
    case (Some l)
    then have "l \<in> set (pReplicas p)" "alive l" by (auto simp: find_Some_iff)
    moreover have "alive (hd (pReplicas p)) \<longrightarrow> l = hd (pReplicas p)" using Some xs by auto
    ultimately show ?thesis using Some by (auto simp: firstAlive_def)
  qed
qed

text \<open>The three outcomes for a partition: dead leader, leader moved back, leader kept.\<close>

definition elected :: "(int \<Rightarrow> bool) \<Rightarrow> partitionMeta \<Rightarrow> int" where
  "elected alive p =
     (if \<not> alive (pLeader p) then the (firstAlive (pReplicas p) alive)
      else if alive (hd (pReplicas p)) \<and> hd (pReplicas p) \<in> set (pISR p) then hd (pReplicas p)
      else pLeader p)"

definition ticked :: "(int \<Rightarrow> bool) \<Rightarrow> partitionMeta \<Rightarrow> partitionMeta" where
  "ticked alive p =
     (let l = elected alive p; live_isr = filter alive (pISR p)
      in p\<lparr>pLeader := l, pISR := (if \<not> alive (pLeader p) \<and> l \<notin> set live_isr then l # live_isr
                             else if live_isr = [] then [l] else live_isr)\<rparr>)"

lemma elected_replica:
  assumes "meta_ok p"
  shows "elected alive p \<in> set (pReplicas p)" "some_alive alive p \<Longrightarrow> alive (elected alive p)"
    "\<not> alive (pLeader p) \<Longrightarrow> firstAlive (pReplicas p) alive = Some (elected alive p)"
proof -
  obtain l where l: "firstAlive (pReplicas p) alive = Some l" "l \<in> set (pReplicas p)" "some_alive alive p \<longrightarrow> alive l"
    using firstAlive_some [OF assms, of alive] by blast
  show "elected alive p \<in> set (pReplicas p)" using l assms by (auto simp: elected_def meta_ok_def)
  show "some_alive alive p \<Longrightarrow> alive (elected alive p)" using l by (auto simp: elected_def some_alive_def)
  show "\<not> alive (pLeader p) \<Longrightarrow> firstAlive (pReplicas p) alive = Some (elected alive p)"
    using l(1) by (simp add: elected_def)
qed

lemma tick_partition_ticked:
  assumes "meta_ok p"
  shows "tick_partition alive p = Some (ticked alive p,
    (\<exists>i\<in>set (pISR p). \<not> alive i) \<or> elected alive p \<noteq> pLeader p \<or> \<not> alive (pLeader p))"
proof (cases "alive (pLeader p)")
  case True
  define f where "f = filter alive (pISR p)"
  have r: "pReplicas p \<noteq> []" using assms by (simp add: meta_ok_def)
  have f: "hd (pReplicas p) \<in> set f \<longleftrightarrow> alive (hd (pReplicas p)) \<and> hd (pReplicas p) \<in> set (pISR p)"
    by (auto simp: f_def)
  have c: "f = [] \<Longrightarrow> \<exists>i\<in>set (pISR p). \<not> alive i"
    using assms by (cases "pISR p") (auto simp: f_def meta_ok_def)
  show ?thesis
  proof (cases "hd (pReplicas p) \<in> set f")
    case h: True
    then have "alive (hd (pReplicas p))" "hd (pReplicas p) \<in> set (pISR p)" "f \<noteq> []" using f by auto
    then show ?thesis using True h r
      by (cases "hd (pReplicas p) = pLeader p") (simp_all add: tick_partition_def ticked_def elected_def f_def [symmetric])
  next
    case h: False
    then have "elected alive p = pLeader p" using True f by (auto simp: elected_def)
    then show ?thesis using True h r c by (cases "f = []") (simp_all add: tick_partition_def ticked_def f_def [symmetric])
  qed
next
  case False
  obtain l where l: "firstAlive (pReplicas p) alive = Some l" "alive (hd (pReplicas p)) \<longrightarrow> l = hd (pReplicas p)"
    using firstAlive_some [OF assms, of alive] by blast
  have e: "elected alive p = l" using False l by (simp add: elected_def)
  have "\<not> (hd (pReplicas p) \<noteq> l \<and> alive (hd (pReplicas p)))" using l(2) by blast
  moreover define f where "f = filter alive (pISR p)"
  moreover have "l \<in> set f \<Longrightarrow> f \<noteq> []" by auto
  ultimately show ?thesis using False l(1)
    by (cases "l \<in> set f") (auto simp: tick_partition_def ticked_def e Let_def simp del: filter_empty_conv)
qed

lemma ticked_ok:
  assumes "meta_ok p"
  shows "meta_ok (ticked alive p)" "pID (ticked alive p) = pID p" "pReplicas (ticked alive p) = pReplicas p"
    "some_alive alive p \<Longrightarrow> alive (pLeader (ticked alive p)) \<and> (\<forall>i\<in>set (pISR (ticked alive p)). alive i)"
proof -
  let ?l = "elected alive p"
  have e: "?l \<in> set (pReplicas p)" "some_alive alive p \<Longrightarrow> alive ?l" using elected_replica [OF assms] by auto
  define f where "f = filter alive (pISR p)"
  have f: "set f \<subseteq> set (pReplicas p)" "distinct f" "\<forall>i\<in>set f. alive i" using assms by (auto simp: f_def meta_ok_def)
  show "meta_ok (ticked alive p)"
    using assms e(1) f unfolding meta_ok_def ticked_def Let_def f_def [symmetric] by simp
  show "pID (ticked alive p) = pID p" "pReplicas (ticked alive p) = pReplicas p" by (simp_all add: ticked_def Let_def)
  show "some_alive alive p \<Longrightarrow> alive (pLeader (ticked alive p)) \<and> (\<forall>i\<in>set (pISR (ticked alive p)). alive i)"
    using e(2) f(3) by (simp add: ticked_def Let_def f_def [symmetric])
qed

text \<open>A second tick under the same view changes nothing.\<close>

lemma ticked_idem:
  assumes "meta_ok p" "some_alive alive p"
  shows "tick_partition alive (ticked alive p) = Some (ticked alive p, False)"
proof -
  define q where "q = ticked alive p"
  note ok = ticked_ok [OF assms(1), of alive, folded q_def]
  have al: "alive (pLeader q)" "\<forall>i\<in>set (pISR q). alive i" using ok(4) [OF assms(2)] by auto
  have lq: "pLeader q = elected alive p" by (simp add: q_def ticked_def Let_def)
  have sub: "set (pISR q) \<subseteq> insert (elected alive p) {i \<in> set (pISR p). alive i}" by (auto simp: q_def ticked_def Let_def)
  have "hd (pReplicas q) \<in> set (pISR q) \<Longrightarrow> elected alive p = hd (pReplicas q)"
  proof (cases "alive (pLeader p)")
    case True
    assume "hd (pReplicas q) \<in> set (pISR q)"
    then have "hd (pReplicas p) = elected alive p \<or> alive (hd (pReplicas p)) \<and> hd (pReplicas p) \<in> set (pISR p)"
      using sub ok(3) by auto
    then show ?thesis using True ok(3) unfolding elected_def by presburger
  next
    case False
    obtain l where l: "firstAlive (pReplicas p) alive = Some l" "alive (hd (pReplicas p)) \<longrightarrow> l = hd (pReplicas p)"
      using firstAlive_some [OF assms(1), of alive] by blast
    assume "hd (pReplicas q) \<in> set (pISR q)"
    then have "alive (hd (pReplicas q))" using al(2) by blast
    then show ?thesis using False l ok(3) by (simp add: elected_def)
  qed
  then have e: "elected alive q = pLeader q" using al(1) lq by (simp add: elected_def [of alive q])
  have "ticked alive q = q" using al ok(1) by (simp add: ticked_def e meta_ok_def)
  then show ?thesis using al e tick_partition_ticked [OF ok(1), of alive] by (simp add: q_def)
qed

section \<open>All topics\<close>

definition tick_topic :: "(int \<Rightarrow> bool) \<Rightarrow> topicMeta \<Rightarrow> topicMeta" where
  "tick_topic alive t = t\<lparr>tPartitions := map (ticked alive) (tPartitions t)\<rparr>"

definition quiet :: "(int \<Rightarrow> bool) \<Rightarrow> partitionMeta \<Rightarrow> bool" where
  "quiet alive p \<longleftrightarrow> tick_partition alive p = Some (p, False)"

lemma tick_partitions_ticked:
  assumes "list_all meta_ok ps"
  shows "\<exists>c. tick_partitions alive ps = Some (map (ticked alive) ps, c) \<and> (list_all (quiet alive) ps \<longrightarrow> \<not> c)"
  using assms
proof (induction ps)
  case (Cons p ps)
  then obtain c where c: "tick_partitions alive ps = Some (map (ticked alive) ps, c)" "list_all (quiet alive) ps \<longrightarrow> \<not> c"
    by auto
  obtain d where d: "tick_partition alive p = Some (ticked alive p, d)"
    using tick_partition_ticked [of p alive] Cons.prems by simp
  then have "quiet alive p \<longrightarrow> \<not> d" by (simp add: quiet_def)
  with c d show ?case by simp
qed (simp add: exI [of _ False])

lemma tick_topics_ticked:
  assumes "list_all (\<lambda>(k, t). topic_ok k t) ts"
  shows "\<exists>c. tick_topics alive ts = Some (map (\<lambda>(k, t). (k, tick_topic alive t)) ts, c)
    \<and> (list_all (\<lambda>(k, t). list_all (quiet alive) (tPartitions t)) ts \<longrightarrow> \<not> c)"
  using assms
proof (induction ts)
  case (Cons x ts)
  obtain k t where x: "x = (k, t)" by (cases x)
  from Cons obtain c where c: "tick_topics alive ts = Some (map (\<lambda>(k, t). (k, tick_topic alive t)) ts, c)"
      "list_all (\<lambda>(k, t). list_all (quiet alive) (tPartitions t)) ts \<longrightarrow> \<not> c" by auto
  obtain d where d: "tick_partitions alive (tPartitions t) = Some (map (ticked alive) (tPartitions t), d)"
      "list_all (quiet alive) (tPartitions t) \<longrightarrow> \<not> d"
    using tick_partitions_ticked [of "tPartitions t" alive] Cons.prems by (auto simp: x topic_ok_def)
  show ?case using c d by (simp add: x tick_topic_def)
qed (simp add: exI [of _ False])

lemma topic_ok_tick: "topic_ok k t \<Longrightarrow> topic_ok k (tick_topic alive t)"
proof -
  assume a: "topic_ok k t"
  then have "map pID (map (ticked alive) (tPartitions t)) = map pID (tPartitions t)"
    by (simp add: ticked_def Let_def)
  with a show ?thesis by (auto simp: topic_ok_def tick_topic_def list_all_iff ticked_ok(1) simp del: map_map)
qed

lemma find_map_ticked:
  "find (\<lambda>p. pID p = i) (map (ticked alive) ps) = map_option (ticked alive) (find (\<lambda>p. pID p = i) ps)"
  by (induction ps) (auto simp: ticked_def Let_def)

lemma controllerTick_ok:
  assumes "topics_ok b"
  shows "\<exists>b'. controllerTick now w b = Some b' \<and> topics_ok b' \<and> bcluster b' = bcluster b
    \<and> btopics b' = map (\<lambda>(k, t). (k, tick_topic (IsAlive now (bcluster b)) t)) (btopics b)
    \<and> (list_all (\<lambda>(k, t). list_all (quiet (IsAlive now (bcluster b))) (tPartitions t)) (btopics b)
        \<longrightarrow> outbox b' = outbox b \<and> topicsFile b' = topicsFile b)"
proof -
  let ?al = "IsAlive now (bcluster b)"
  let ?ts = "map (\<lambda>(k, t). (k, tick_topic ?al t)) (btopics b)"
  from assms have g: "go_map (btopics b)" and l: "list_all (\<lambda>(k, t). topic_ok k t) (btopics b)"
    by (simp_all add: topics_ok_def)
  obtain c where c: "tick_topics ?al (btopics b) = Some (?ts, c)"
      "list_all (\<lambda>(k, t). list_all (quiet ?al) (tPartitions t)) (btopics b) \<longrightarrow> \<not> c"
    using tick_topics_ticked [OF l, of ?al] by auto
  have "list_all (\<lambda>(k, t). topic_ok k t) ?ts" using l by (auto simp: list_all_iff intro: topic_ok_tick)
  then have "topics_ok (b\<lparr>btopics := ?ts\<rparr>)" using g by (simp add: topics_ok_def)
  then show ?thesis using c
    by (auto simp: controllerTick_def broadcastMetadata_def persistTopicsLocked_def topics_ok_def Let_def)
qed

lemma partition_meta_ticked:
  assumes "btopics b' = map (\<lambda>(k, t). (k, tick_topic alive t)) (btopics b)"
  shows "partition_meta b' tn i = map_option (ticked alive) (partition_meta b tn i)"
  using assms by (auto simp: partition_meta_def tick_topic_def find_map_ticked split: option.splits)

text \<open>
  C12.  Failover: one controller tick succeeds on well-formed metadata and keeps it
  well-formed, with the same partitions and replicas.  If some replica of a partition is
  alive then afterwards its leader and its whole in-sync set are alive; a dead leader is
  replaced by the first live replica; a live leader only gives way to the preferred
  (first) replica, alive and in sync.
\<close>

theorem controller_failover:
  assumes "topics_ok b"
  shows "\<exists>b'. controllerTick now w b = Some b' \<and> topics_ok b'
    \<and> (\<forall>tn i. partition_meta b tn i = None \<longleftrightarrow> partition_meta b' tn i = None)
    \<and> (\<forall>tn i p p'. partition_meta b tn i = Some p \<and> partition_meta b' tn i = Some p' \<longrightarrow>
         pReplicas p' = pReplicas p
         \<and> (some_alive (IsAlive now (bcluster b)) p \<longrightarrow>
              IsAlive now (bcluster b) (pLeader p') \<and> (\<forall>r\<in>set (pISR p'). IsAlive now (bcluster b) r))
         \<and> (\<not> IsAlive now (bcluster b) (pLeader p) \<longrightarrow>
              firstAlive (pReplicas p) (IsAlive now (bcluster b)) = Some (pLeader p'))
         \<and> (IsAlive now (bcluster b) (pLeader p) \<longrightarrow> pLeader p' = pLeader p \<or>
              pLeader p' = hd (pReplicas p) \<and> pLeader p' \<in> set (pISR p)))"
proof -
  let ?al = "IsAlive now (bcluster b)"
  obtain b' where b': "controllerTick now w b = Some b'" "topics_ok b'"
      "btopics b' = map (\<lambda>(k, t). (k, tick_topic ?al t)) (btopics b)"
    using controllerTick_ok [OF assms, of now w] by blast
  note pm = partition_meta_ticked [OF b'(3)]
  have "pReplicas p' = pReplicas p
         \<and> (some_alive ?al p \<longrightarrow> ?al (pLeader p') \<and> (\<forall>r\<in>set (pISR p'). ?al r))
         \<and> (\<not> ?al (pLeader p) \<longrightarrow> firstAlive (pReplicas p) ?al = Some (pLeader p'))
         \<and> (?al (pLeader p) \<longrightarrow> pLeader p' = pLeader p \<or> pLeader p' = hd (pReplicas p) \<and> pLeader p' \<in> set (pISR p))"
    if p: "partition_meta b tn i = Some p" "partition_meta b' tn i = Some p'" for tn i p p'
  proof -
    have ok: "meta_ok p" using topics_ok_meta [OF assms p(1)] .
    have p': "p' = ticked ?al p" using p pm by simp
    then have l: "pLeader p' = elected ?al p" by (simp add: ticked_def Let_def)
    then have "?al (pLeader p) \<longrightarrow> pLeader p' = pLeader p \<or> pLeader p' = hd (pReplicas p) \<and> pLeader p' \<in> set (pISR p)"
      by (simp add: elected_def)
    then show ?thesis using ticked_ok(3,4) [OF ok, of ?al] elected_replica(3) [OF ok, of ?al] l p' by simp
  qed
  moreover have "\<forall>tn i. partition_meta b tn i = None \<longleftrightarrow> partition_meta b' tn i = None" using pm by simp
  ultimately show ?thesis using b'(1,2) by blast
qed

lemma example_topics_ok: "topics_ok (example_broker i l)"
  by (simp add: topics_ok_def topic_ok_def meta_ok_def example_broker_def Let_def go_map_def mkeys_def)

theorem controller_failover_witness:
  "\<exists>l b' p'. Log_Open no_fault small_cfg [] = Inr l \<and> controllerTick 5000000000 True (example_broker 2 l) = Some b'
    \<and> partition_meta b' ''t'' 0 = Some p' \<and> pLeader p' = 2"
proof -
  obtain l where l: "Log_Open no_fault small_cfg [] = Inr l" using Log_Open_empty [of small_cfg] by auto
  let ?b = "example_broker 2 l"
  have al: "\<not> IsAlive 5000000000 (bcluster ?b) 1" "IsAlive 5000000000 (bcluster ?b) 2"
    by (simp_all add: example_broker_def IsAlive_def MarkSeen_def Cluster_New_def Let_def)
  have fa: "firstAlive [1, 2] (IsAlive 5000000000 (bcluster ?b)) = Some 2" using al by (simp add: firstAlive_def)
  note m = example_broker_simps(3) [of 2 l]
  from controller_failover [OF example_topics_ok [of 2 l], of 5000000000 True]
  obtain b' where b': "controllerTick 5000000000 True ?b = Some b'"
      "partition_meta ?b ''t'' 0 = None \<longleftrightarrow> partition_meta b' ''t'' 0 = None"
      "\<And>p p'. partition_meta ?b ''t'' 0 = Some p \<and> partition_meta b' ''t'' 0 = Some p' \<Longrightarrow>
         \<not> IsAlive 5000000000 (bcluster ?b) (pLeader p) \<Longrightarrow>
         firstAlive (pReplicas p) (IsAlive 5000000000 (bcluster ?b)) = Some (pLeader p')"
    by blast
  then obtain p' where p': "partition_meta b' ''t'' 0 = Some p'" using m by auto
  then have "pLeader p' = 2" using b'(3) [of _ p'] m al fa by simp
  then show ?thesis using l b'(1) p' by blast
qed

text \<open>Every listed partition is found.\<close>

lemma partition_listed:
  assumes "topics_ok b" "(k, t) \<in> set (btopics b)" "p \<in> set (tPartitions t)"
  shows "partition_meta b k (pID p) = Some p" "meta_ok p"
proof -
  have m: "map_of (btopics b) k = Some t" using assms(1,2) by (simp add: topics_ok_def go_map_map_of)
  then have tk: "topic_ok k t" by (rule topics_okD [OF assms(1)])
  then show "meta_ok p" using assms(3) by (simp add: topic_ok_def list_all_iff)
  have "find (\<lambda>x. pID x = pID p) (tPartitions t) \<noteq> None" using assms(3) by (auto simp: find_None_iff)
  then obtain x where x: "find (\<lambda>x. pID x = pID p) (tPartitions t) = Some x" by blast
  then have "x \<in> set (tPartitions t)" "pID x = pID p" by (auto simp: find_Some_iff)
  then have "x = p" using assms(3) tk inj_onD [of pID "set (tPartitions t)" x p] by (simp add: topic_ok_def distinct_map)
  then show "partition_meta b k (pID p) = Some p" using x m by (simp add: partition_meta_def)
qed

text \<open>The flags of a tick say exactly whether it changes anything.\<close>

lemma tick_partition_flag:
  assumes "meta_ok p"
  shows "tick_partition alive p = Some (ticked alive p, \<not> quiet alive p)"
proof -
  obtain d where d: "tick_partition alive p = Some (ticked alive p, d)"
      "d \<longleftrightarrow> (\<exists>i\<in>set (pISR p). \<not> alive i) \<or> elected alive p \<noteq> pLeader p \<or> \<not> alive (pLeader p)"
    using tick_partition_ticked [OF assms] by blast
  have "ticked alive p = p" if "\<not> d"
    using that d(2) assms by (simp add: ticked_def meta_ok_def)
  then show ?thesis using d(1) by (auto simp: quiet_def)
qed

lemma tick_partitions_flag:
  "list_all meta_ok ps \<Longrightarrow> tick_partitions alive ps = Some (map (ticked alive) ps, \<not> list_all (quiet alive) ps)"
  by (induction ps) (auto simp: tick_partition_flag)

definition all_quiet :: "(int \<Rightarrow> bool) \<Rightarrow> Broker \<Rightarrow> bool" where
  "all_quiet alive b \<longleftrightarrow> list_all (\<lambda>(k, t). list_all (quiet alive) (tPartitions t)) (btopics b)"

lemma tick_topics_flag:
  "list_all (\<lambda>(k, t). topic_ok k t) ts \<Longrightarrow>
    tick_topics alive ts = Some (map (\<lambda>(k, t). (k, tick_topic alive t)) ts, \<not> list_all (\<lambda>(k, t). list_all (quiet alive) (tPartitions t)) ts)"
  by (induction ts) (auto simp: tick_partitions_flag topic_ok_def tick_topic_def)

lemma controllerTick_flag:
  fixes b :: Broker and now :: int
  assumes "topics_ok b"
  defines "b1 \<equiv> b\<lparr>btopics := map (\<lambda>(k, t). (k, tick_topic (IsAlive now (bcluster b)) t)) (btopics b)\<rparr>"
  shows "controllerTick now w b =
    Some (if all_quiet (IsAlive now (bcluster b)) b then b1 else broadcastMetadata now (persistTopicsLocked w b1))"
  using assms(1) tick_topics_flag [of "btopics b" "IsAlive now (bcluster b)"]
  by (simp add: controllerTick_def topics_ok_def b1_def all_quiet_def)

text \<open>A partition whose replicas are all dead: its first replica leads it alone, at every tick again.\<close>

lemma ticked_dead:
  assumes "meta_ok p" "\<not> some_alive alive p"
  shows "ticked alive p = p\<lparr>pLeader := hd (pReplicas p), pISR := [hd (pReplicas p)]\<rparr>" "\<not> quiet alive p"
proof -
  have dead: "\<not> alive i" if "i \<in> set (pReplicas p)" for i using assms(2) that by (auto simp: some_alive_def)
  have r: "pReplicas p \<noteq> []" "pLeader p \<in> set (pReplicas p)" "set (pISR p) \<subseteq> set (pReplicas p)" using assms(1) by (auto simp: meta_ok_def)
  have l: "\<not> alive (pLeader p)" using dead r(2) by blast
  have "find alive (pReplicas p) = None" using dead by (simp add: find_None_iff)
  then have "firstAlive (pReplicas p) alive = Some (hd (pReplicas p))" using r(1) by (cases "pReplicas p") (simp_all add: firstAlive_def)
  moreover have "filter alive (pISR p) = []" using dead r(3) by (auto simp: filter_empty_conv)
  ultimately show "ticked alive p = p\<lparr>pLeader := hd (pReplicas p), pISR := [hd (pReplicas p)]\<rparr>"
    using l by (simp add: ticked_def elected_def Let_def)
  show "\<not> quiet alive p" using tick_partition_ticked [OF assms(1), of alive] l by (auto simp: quiet_def)
qed

lemma ticked_twice:
  assumes "meta_ok p"
  shows "ticked alive (ticked alive p) = ticked alive p" "quiet alive (ticked alive p) \<longleftrightarrow> some_alive alive p"
proof -
  have sa: "some_alive alive (ticked alive p) \<longleftrightarrow> some_alive alive p" using ticked_ok(3) [OF assms] by (simp add: some_alive_def)
  have "ticked alive (ticked alive p) = ticked alive p \<and> (quiet alive (ticked alive p) \<longleftrightarrow> some_alive alive p)"
  proof (cases "some_alive alive p")
    case True
    then show ?thesis using ticked_idem [OF assms True] tick_partition_flag [OF ticked_ok(1) [OF assms], of alive alive] by simp
  next
    case False
    have nl: "\<not> some_alive alive (ticked alive p)" using False sa by blast
    note d = ticked_dead [OF assms False] and d2 = ticked_dead [OF ticked_ok(1) [OF assms] nl]
    have "ticked alive (ticked alive p) = ticked alive p"
      unfolding d2(1) ticked_ok(3) [OF assms] by (subst (1 2) d(1)) simp
    then show ?thesis using False d2(2) by blast
  qed
  then show "ticked alive (ticked alive p) = ticked alive p" "quiet alive (ticked alive p) \<longleftrightarrow> some_alive alive p" by auto
qed

text \<open>
  C26.  The metadata settles, and when the controller falls silent: a second tick under the same
  view of the cluster leaves all metadata as the first one left it.  If every partition has a
  live replica, it changes nothing at all, so it writes no file and sends no push; if there is a
  partition whose replicas are all dead, it pushes the same metadata to all other brokers once more.
\<close>

theorem controller_settles:
  assumes "topics_ok b"
  shows "\<exists>b' b''. controllerTick now w b = Some b' \<and> controllerTick now w b' = Some b'' \<and> btopics b'' = btopics b'
    \<and> ((\<forall>tn i p. partition_meta b tn i = Some p \<longrightarrow> some_alive (IsAlive now (bcluster b)) p) \<longrightarrow> b'' = b')
    \<and> ((\<exists>tn i p. partition_meta b tn i = Some p \<and> \<not> some_alive (IsAlive now (bcluster b)) p) \<longrightarrow>
         outbox b'' = outbox b' @ map (\<lambda>p. MsgPush (peerAddr p) (metadataPush now b')) (OtherPeers (bcluster b)))"
proof -
  let ?al = "IsAlive now (bcluster b)"
  obtain b' where b': "controllerTick now w b = Some b'" "topics_ok b'" "bcluster b' = bcluster b"
      "btopics b' = map (\<lambda>(k, t). (k, tick_topic ?al t)) (btopics b)"
    using controllerTick_ok [OF assms, of now w] by blast
  note tw = ticked_twice [OF partition_listed(2) [OF assms]]
  have "tick_topic ?al (tick_topic ?al t) = tick_topic ?al t" if "(k, t) \<in> set (btopics b)" for k t
    using tw(1) [OF that] by (simp add: tick_topic_def)
  then have "map (\<lambda>(k, t). (k, tick_topic ?al t)) (btopics b') = btopics b'"
    unfolding b'(4) by auto
  then have same: "b'\<lparr>btopics := map (\<lambda>(k, t). (k, tick_topic ?al t)) (btopics b')\<rparr> = b'" by simp
  have quiet: "all_quiet ?al b' \<longleftrightarrow> (\<forall>tn i p. partition_meta b tn i = Some p \<longrightarrow> some_alive ?al p)"
  proof -
    have q: "list_all (quiet ?al) (tPartitions (tick_topic ?al t)) \<longleftrightarrow> (\<forall>p\<in>set (tPartitions t). some_alive ?al p)"
      if "(k, t) \<in> set (btopics b)" for k t
      using tw(2) [OF that] by (simp add: tick_topic_def list_all_iff)
    have "all_quiet ?al b' \<longleftrightarrow> (\<forall>x\<in>set (btopics b). list_all (quiet ?al) (tPartitions (tick_topic ?al (snd x))))"
      by (simp add: all_quiet_def b'(4) list_all_iff split_def)
    also have "\<dots> \<longleftrightarrow> (\<forall>x\<in>set (btopics b). \<forall>p\<in>set (tPartitions (snd x)). some_alive ?al p)"
      using q by (metis prod.collapse)
    also have "\<dots> \<longleftrightarrow> (\<forall>tn i p. partition_meta b tn i = Some p \<longrightarrow> some_alive ?al p)"
    proof (intro iffI allI impI ballI)
      fix tn i p assume a: "\<forall>x\<in>set (btopics b). \<forall>p\<in>set (tPartitions (snd x)). some_alive ?al p" "partition_meta b tn i = Some p"
      from a(2) obtain t where "(tn, t) \<in> set (btopics b)" "p \<in> set (tPartitions t)" by (metis map_of_SomeD partition_metaE)
      then show "some_alive ?al p" using a(1) by fastforce
    next
      fix x p assume a: "\<forall>tn i p. partition_meta b tn i = Some p \<longrightarrow> some_alive ?al p" "x \<in> set (btopics b)" "p \<in> set (tPartitions (snd x))"
      then show "some_alive ?al p" using partition_listed(1) [OF assms, of "fst x" "snd x" p] by simp
    qed
    finally show ?thesis .
  qed
  define b'' where "b'' = (if all_quiet ?al b' then b' else broadcastMetadata now (persistTopicsLocked w b'))"
  have tick2: "controllerTick now w b' = Some b''"
    using controllerTick_flag [OF b'(2), of now w] b'(3) same by (simp add: b''_def)
  have "btopics b'' = btopics b'" by (simp add: b''_def broadcastMetadata_def persistTopicsLocked_def Let_def)
  moreover have "outbox b'' = outbox b' @ map (\<lambda>p. MsgPush (peerAddr p) (metadataPush now b')) (OtherPeers (bcluster b))" if "\<not> all_quiet ?al b'"
    using that b'(3) by (simp add: b''_def broadcastMetadata_def persistTopicsLocked_def metadataPush_def snapshotTopics_def Let_def)
  moreover have "b'' = b'" if "all_quiet ?al b'" using that by (simp add: b''_def)
  ultimately show ?thesis using b'(1) tick2 quiet by blast
qed

text \<open>The file is written again as well: it then holds the metadata, whatever it held before.\<close>

lemma dead_partition_rewrites:
  assumes "topics_ok b" "partition_meta b tn i = Some p" "\<not> some_alive (IsAlive now (bcluster b)) p"
  shows "\<exists>b'. controllerTick now True b = Some b' \<and> topicsFile b' = JSON (snapshotTopics b')"
proof -
  obtain t where "(tn, t) \<in> set (btopics b)" "p \<in> set (tPartitions t)"
    using assms(2) by (metis map_of_SomeD partition_metaE)
  then have "\<not> all_quiet (IsAlive now (bcluster b)) b"
    using ticked_dead(2) [OF _ assms(3)] partition_listed(2) [OF assms(1)] by (fastforce simp: all_quiet_def list_all_iff)
  then show ?thesis
    using controllerTick_flag [OF assms(1), of now True]
    by (simp add: broadcastMetadata_def persistTopicsLocked_def snapshotTopics_def Let_def)
qed

theorem controller_settles_witness:
  "\<exists>l b'. Log_Open no_fault small_cfg [] = Inr l \<and> controllerTick 5000000000 True (example_broker 2 l) = Some b'
    \<and> controllerTick 5000000000 True b' = Some b'"
proof -
  obtain l where l: "Log_Open no_fault small_cfg [] = Inr l" using Log_Open_empty [of small_cfg] by auto
  have "some_alive (IsAlive 5000000000 (bcluster (example_broker 2 l))) p" if "partition_meta (example_broker 2 l) tn i = Some p" for tn i p
    using that by (auto simp: partition_meta_def example_broker_def Let_def some_alive_def IsAlive_def MarkSeen_def
        Cluster_New_def find_Some_iff split: if_splits option.splits)
  then show ?thesis using controller_settles [OF example_topics_ok [of 2 l], of 5000000000 True] l by blast
qed

text \<open>
  The election does not look at the in-sync set: with replicas 1, 2, 3, the in-sync set
  1, 3 and broker 1 dead, the tick makes broker 2 the leader although broker 3 is alive and in
  sync, and puts broker 2 into the in-sync set.  Records that only 1 and 3 hold are lost.
\<close>

theorem unclean_election:
  "tick_partition (\<lambda>i. i \<noteq> 1) \<lparr>pID = 0, pLeader = 1, pReplicas = [1, 2, 3], pISR = [1, 3]\<rparr> =
     Some (\<lparr>pID = 0, pLeader = 2, pReplicas = [1, 2, 3], pISR = [2, 3]\<rparr>, True)"
  by (simp add: tick_partition_def firstAlive_def Let_def)

section \<open>Replica assignment\<close>

lemma mod_window_inj:
  fixes i r s n :: int
  assumes "(i + r) mod n = (i + s) mod n" "0 \<le> r" "r < n" "0 \<le> s" "s < n"
  shows "r = s"
proof -
  have "(i + r - (i + s)) mod n = 0" using assms(1) by (simp add: mod_eq_dvd_iff)
  then have "n dvd r - s" by (simp add: mod_eq_0_iff_dvd)
  moreover have "\<bar>r - s\<bar> < n" using assms by linarith
  ultimately show ?thesis using dvd_imp_le_int [of "r - s" n] assms by auto
qed

definition replica_row :: "int list \<Rightarrow> int \<Rightarrow> int \<Rightarrow> int list" where
  "replica_row ids rf i = map (\<lambda>r. ids ! nat ((i + r) mod int (length ids))) [0..rf - 1]"

lemma replica_row_facts:
  assumes "distinct ids" "ids \<noteq> []" "1 \<le> rf" "rf \<le> int (length ids)" "0 \<le> i"
  shows "distinct (replica_row ids rf i)" "set (replica_row ids rf i) \<subseteq> set ids" "length (replica_row ids rf i) = nat rf"
    "replica_row ids rf i \<noteq> []" "hd (replica_row ids rf i) = ids ! nat (i mod int (length ids))"
proof -
  let ?n = "int (length ids)"
  have pos: "0 < ?n" using assms(2) by simp
  then have lt: "nat (x mod ?n) < length ids" for x by (simp add: nat_less_iff)
  have inj: "r = s" if "r \<in> {0..rf - 1}" "s \<in> {0..rf - 1}" "ids ! nat ((i + r) mod ?n) = ids ! nat ((i + s) mod ?n)" for r s
  proof -
    have "nat ((i + r) mod ?n) = nat ((i + s) mod ?n)" using that(3) assms(1) lt nth_eq_iff_index_eq by blast
    then have "(i + r) mod ?n = (i + s) mod ?n" using pos by (simp add: nat_eq_iff)
    then show ?thesis using mod_window_inj [of i r ?n s] that(1,2) assms(4) by simp
  qed
  then show "distinct (replica_row ids rf i)" by (auto simp: replica_row_def distinct_map inj_on_def)
  show "set (replica_row ids rf i) \<subseteq> set ids" using lt by (auto simp: replica_row_def)
  show "length (replica_row ids rf i) = nat rf" by (simp add: replica_row_def)
  then show "replica_row ids rf i \<noteq> []" using assms(3) by auto
  have "[0..rf - 1] = 0 # [1..rf - 1]" using assms(3) upto_rec1 [of 0 "rf - 1"] by simp
  then show "hd (replica_row ids rf i) = ids ! nat (i mod ?n)" by (simp add: replica_row_def)
qed

definition clamp_rf :: "int \<Rightarrow> int \<Rightarrow> int" where
  "clamp_rf rf n = min (max rf 1) n"

lemma assignReplicas_rows:
  assumes "ids \<noteq> []" "0 \<le> npart"
  shows "assignReplicas npart rf (int (length ids)) ids =
    Some (map (\<lambda>i. let row = replica_row ids (clamp_rf rf (int (length ids))) i
               in \<lparr>pID = i, pLeader = hd row, pReplicas = row, pISR = [hd row]\<rparr>) [0..npart - 1])"
proof -
  have "int (length ids) \<ge> 1" using assms(1) by (simp add: Suc_le_eq)
  then have "(if (if rf < 1 then 1 else rf) > int (length ids) then int (length ids) else (if rf < 1 then 1 else rf))
      = clamp_rf rf (int (length ids))"
    by (auto simp: clamp_rf_def)
  then show ?thesis using assms by (simp add: assignReplicas_def replica_row_def Let_def)
qed

lemma assigned_topic_ok:
  assumes "distinct ids" "ids \<noteq> []"
    "parts = map (\<lambda>i. let row = replica_row ids (clamp_rf rf (int (length ids))) i
               in \<lparr>pID = i, pLeader = hd row, pReplicas = row, pISR = [hd row]\<rparr>) [0..npart - 1]"
  shows "topic_ok k \<lparr>tName = k, tPartitions = parts\<rparr>"
proof -
  have rf: "1 \<le> clamp_rf rf (int (length ids))" "clamp_rf rf (int (length ids)) \<le> int (length ids)"
    using assms(2) by (auto simp: clamp_rf_def Suc_le_eq)
  have ids: "map pID parts = [0..npart - 1]" by (simp add: assms(3) Let_def comp_def)
  have "meta_ok p" if "p \<in> set parts" for p
  proof -
    from that obtain i where i: "0 \<le> i" and p: "p = (let row = replica_row ids (clamp_rf rf (int (length ids))) i
        in \<lparr>pID = i, pLeader = hd row, pReplicas = row, pISR = [hd row]\<rparr>)"
      by (auto simp: assms(3))
    note f = replica_row_facts [OF assms(1,2) rf i]
    then show ?thesis using hd_in_set [OF f(4)] by (simp add: p meta_ok_def Let_def)
  qed
  then show ?thesis using ids by (simp add: topic_ok_def list_all_iff)
qed

section \<open>Creating a topic\<close>

lemma mput_new: "map_of m k = None \<Longrightarrow> mput k v m = m @ [(k, v)]"
  by (induction m) (auto split: if_splits)

lemma cluster_ids:
  assumes "cluster_ok c"
  shows "distinct (map peerID (All c))" "map peerID (All c) \<noteq> []"
proof -
  note pl = peers_listed [OF assms]
  then show "distinct (map peerID (All c))" by simp
  have "set (map peerID (All c)) = set (mkeys (Peers c))" using pl by simp
  moreover have "peerID (Self c) \<in> set (mkeys (Peers c))" using assms by (auto simp: cluster_ok_def set_mkeys)
  ultimately show "map peerID (All c) \<noteq> []" by auto
qed

definition new_topic :: "int list \<Rightarrow> string \<Rightarrow> int \<Rightarrow> int \<Rightarrow> topicMeta" where
  "new_topic ids name npart rf = \<lparr>tName = name, tPartitions =
     map (\<lambda>i. let row = replica_row ids (clamp_rf rf (int (length ids))) i
         in \<lparr>pID = i, pLeader = hd row, pReplicas = row, pISR = [hd row]\<rparr>) [0..max npart 1 - 1]\<rparr>"

lemma createTopicLocked_new:
  assumes "cluster_ok (bcluster b)" "map_of (btopics b) name = None"
  shows "createTopicLocked now w b name npart rf =
    Some (broadcastMetadata now (persistTopicsLocked w
      (b\<lparr>btopics := btopics b @ [(name, new_topic (map peerID (All (bcluster b))) name npart rf)]\<rparr>)))"
proof -
  let ?ids = "map peerID (All (bcluster b))"
  have np: "(if npart \<le> 0 then 1 else npart) = max npart 1" by auto
  have "assignReplicas (max npart 1) rf (int (length ?ids)) ?ids = Some (tPartitions (new_topic ?ids name npart rf))"
    using assignReplicas_rows [OF cluster_ids(2) [OF assms(1)], of "max npart 1" rf] by (simp add: new_topic_def)
  then show ?thesis
    using assms(2) unfolding createTopicLocked_def np Let_def by (simp add: mput_new new_topic_def)
qed

lemma topics_ok_cong: "btopics b = btopics b' \<Longrightarrow> topics_ok b = topics_ok b'"
  by (simp add: topics_ok_def)

lemma btopics_simps [simp]:
  "btopics (persistTopicsLocked w b) = btopics b" "btopics (broadcastMetadata now b) = btopics b"
  "bcluster (persistTopicsLocked w b) = bcluster b" "bcluster (broadcastMetadata now b) = bcluster b"
  "outbox (persistTopicsLocked w b) = outbox b"
  by (simp_all add: persistTopicsLocked_def broadcastMetadata_def Let_def)

lemma topics_ok_new:
  assumes "topics_ok b" "cluster_ok (bcluster b)" "map_of (btopics b) name = None"
    "btopics b' = btopics b @ [(name, new_topic (map peerID (All (bcluster b))) name npart rf)]"
  shows "topics_ok b'"
  using assms assigned_topic_ok [OF cluster_ids [OF assms(2)] refl]
  by (auto simp: topics_ok_def go_map_def mkeys_def map_of_eq_None_iff new_topic_def)

text \<open>
  Topic creation: on a well-formed broker it succeeds.  A new topic gets the requested
  number of partitions, numbered from zero and at least one; partition \<open>i\<close> is led by broker
  number \<open>i mod n\<close> of the \<open>n\<close> configured brokers in id order and replicated on as many
  different brokers as asked for within \<open>1..n\<close>.  The other topics are unchanged, the metadata
  stays well-formed and is pushed to every other broker.
\<close>

theorem topic_creation:
  fixes b :: Broker
  assumes "topics_ok b" "cluster_ok (bcluster b)" "map_of (btopics b) name = None"
  defines "ids \<equiv> map peerID (All (bcluster b))"
  shows "\<exists>b' t. createTopicLocked now w b name npart rf = Some b' \<and> topics_ok b'
    \<and> btopics b' = btopics b @ [(name, t)] \<and> map pID (tPartitions t) = [0..max npart 1 - 1]
    \<and> (\<forall>p\<in>set (tPartitions t). pLeader p = ids ! nat (pID p mod int (length ids)) \<and> pISR p = [pLeader p]
         \<and> pLeader p = hd (pReplicas p) \<and> length (pReplicas p) = nat (min (max rf 1) (int (length ids)))
         \<and> distinct (pReplicas p) \<and> set (pReplicas p) \<subseteq> set ids)
    \<and> outbox b' = outbox b @ map (\<lambda>p. MsgPush (peerAddr p) (metadataPush now b')) (OtherPeers (bcluster b))"
proof -
  note ids = cluster_ids [OF assms(2), folded ids_def]
  let ?k = "clamp_rf rf (int (length ids))"
  have k: "1 \<le> ?k" "?k \<le> int (length ids)" using ids(2) by (auto simp: clamp_rf_def Suc_le_eq)
  let ?t = "new_topic ids name npart rf"
  define b1 where "b1 = persistTopicsLocked w (b\<lparr>btopics := btopics b @ [(name, ?t)]\<rparr>)"
  have cr: "createTopicLocked now w b name npart rf = Some (broadcastMetadata now b1)"
    using createTopicLocked_new [OF assms(2,3)] by (simp add: b1_def ids_def)
  have ok: "topics_ok (broadcastMetadata now b1)"
    by (rule topics_ok_new [OF assms(1-3)]) (simp add: b1_def ids_def)
  have parts: "\<forall>p\<in>set (tPartitions ?t). pLeader p = ids ! nat (pID p mod int (length ids)) \<and> pISR p = [pLeader p]
         \<and> pLeader p = hd (pReplicas p) \<and> length (pReplicas p) = nat (min (max rf 1) (int (length ids)))
         \<and> distinct (pReplicas p) \<and> set (pReplicas p) \<subseteq> set ids"
    using replica_row_facts [OF ids k] by (auto simp: new_topic_def Let_def clamp_rf_def)
  have num: "map pID (tPartitions ?t) = [0..max npart 1 - 1]" by (simp add: new_topic_def Let_def comp_def)
  have push: "outbox (broadcastMetadata now b1) =
      outbox b @ map (\<lambda>p. MsgPush (peerAddr p) (metadataPush now (broadcastMetadata now b1))) (OtherPeers (bcluster b))"
    by (simp add: broadcastMetadata_def Let_def b1_def metadataPush_def snapshotTopics_def persistTopicsLocked_def)
  moreover have "btopics (broadcastMetadata now b1) = btopics b @ [(name, ?t)]" by (simp add: b1_def)
  ultimately show ?thesis using cr ok parts num by blast
qed

theorem topic_creation_witness:
  "\<exists>l b'. Log_Open no_fault small_cfg [] = Inr l \<and> createTopicLocked 7 True (example_broker 1 l) ''u'' 4 3 = Some b' \<and> topics_ok b'"
proof -
  obtain l where l: "Log_Open no_fault small_cfg [] = Inr l" using Log_Open_empty [of small_cfg] by auto
  have "cluster_ok (bcluster (example_broker 1 l))"
    by (simp add: example_broker_def Let_def cluster_ok_MarkSeen cluster_ok_New)
  moreover have "map_of (btopics (example_broker 1 l)) ''u'' = None" by (simp add: example_broker_def Let_def)
  ultimately show ?thesis using topic_creation [OF example_topics_ok [of 1 l]] l by blast
qed

end
