(* ===== verification/LS_MetaInv.thy ===== *)
theory LS_MetaInv
  imports LS_Controller
begin

text \<open>
  The metadata invariant over every operation of a broker that reads or writes topic metadata
  (\<^verbatim>\<open>src/internal/broker/broker.go\<close>, \<^verbatim>\<open>metadata.go\<close>, \<^verbatim>\<open>replica.go\<close>): a step relation, one preservation
  lemma for each operation, and the invariant for every reachable broker.
\<close>

section \<open>Every operation keeps the metadata well-formed\<close>

text \<open>
  A push from another broker that keeps the invariant itself: its topics are well-formed and
  it has the replicas that were assigned when the topic was created, which never change.
\<close>

definition push_agrees :: "Broker \<Rightarrow> topicMeta list \<Rightarrow> bool" where
  "push_agrees b ts \<longleftrightarrow> distinct (map tName ts) \<and>
     (\<forall>t\<in>set ts. topic_ok (tName t) t \<and>
        (\<forall>u. map_of (btopics b) (tName t) = Some u \<longrightarrow>
           (\<forall>p\<in>set (tPartitions t). \<forall>q\<in>set (tPartitions u). pID p = pID q \<longrightarrow> pReplicas p = pReplicas q)))"

lemma meta_ok_filter:
  "meta_ok p \<Longrightarrow> meta_ok (p\<lparr>pISR := (if filter P (pISR p) = [] then [pLeader p] else filter P (pISR p))\<rparr>)"
  by (cases "filter P (pISR p) = []") (simp_all add: meta_ok_def subset_iff)

lemma apply_partition_ok:
  assumes "meta_ok inp"
    "\<And>t q. prev = Some t \<Longrightarrow> q \<in> set (tPartitions t) \<Longrightarrow> pID q = pID inp \<Longrightarrow> meta_ok q \<and> pReplicas q = pReplicas inp"
  shows "meta_ok (apply_partition self ctl alive prev inp)" "pID (apply_partition self ctl alive prev inp) = pID inp"
    "pReplicas (apply_partition self ctl alive prev inp) = pReplicas inp"
proof -
  define local where "local = (case prev of None \<Rightarrow> None | Some t \<Rightarrow> find (\<lambda>p. pID p = pID inp) (tPartitions t))"
  have "meta_ok (apply_partition self ctl alive prev inp) \<and> pID (apply_partition self ctl alive prev inp) = pID inp
      \<and> pReplicas (apply_partition self ctl alive prev inp) = pReplicas inp"
  proof (cases local)
    case None
    then show ?thesis using meta_ok_filter [OF assms(1)]
      by (simp add: apply_partition_def local_def [symmetric] filterAlive_def Let_def)
  next
    case (Some lp)
    then have lp: "meta_ok lp" "pReplicas lp = pReplicas inp"
      using assms(2) by (auto simp: local_def find_Some_iff split: option.splits)
    define in1 where "in1 = (if ctl \<and> \<not> alive (pLeader inp) then inp\<lparr>pLeader := pLeader lp\<rparr> else inp)"
    have in1: "meta_ok in1" "pID in1 = pID inp" "pReplicas in1 = pReplicas inp"
      using assms(1) lp by (auto simp: in1_def meta_ok_def)
    have "meta_ok (inp\<lparr>pISR := pISR lp\<rparr>)" using assms(1) lp by (simp add: meta_ok_def)
    then show ?thesis using meta_ok_filter [OF in1(1)] in1(2,3) Some
      by (simp add: apply_partition_def local_def [symmetric] in1_def [symmetric] filterAlive_def Let_def)
  qed
  then show "meta_ok (apply_partition self ctl alive prev inp)" "pID (apply_partition self ctl alive prev inp) = pID inp"
    "pReplicas (apply_partition self ctl alive prev inp) = pReplicas inp" by auto
qed

lemma topics_ok_mput: "topics_ok b \<Longrightarrow> topic_ok k t \<Longrightarrow> btopics b' = mput k t (btopics b) \<Longrightarrow> topics_ok b'"
  by (auto simp: topics_ok_def list_all_values split: if_splits)

lemma apply_topic_ok:
  assumes "topics_ok b" "push_agrees b (t # ts)"
  shows "topics_ok (apply_topic now b t)" "push_agrees (apply_topic now b t) ts"
    "bcluster (apply_topic now b t) = bcluster b"
proof -
  define f where "f = apply_partition (self_id b) (IsController now (bcluster b)) (IsAlive now (bcluster b)) (map_of (btopics b) (tName t))"
  have tk: "topic_ok (tName t) t" using assms(2) by (simp add: push_agrees_def)
  have f: "meta_ok (f p)" "pID (f p) = pID p" if p: "p \<in> set (tPartitions t)" for p
  proof -
    have "meta_ok p" using tk p by (simp add: topic_ok_def list_all_iff)
    moreover have "meta_ok q \<and> pReplicas q = pReplicas p"
      if u: "map_of (btopics b) (tName t) = Some u" "q \<in> set (tPartitions u)" "pID q = pID p" for u q
    proof -
      have "meta_ok q" using topics_okD [OF assms(1) u(1)] u(2) by (simp add: topic_ok_def list_all_iff)
      moreover have "pReplicas p = pReplicas q" using assms(2) u p by (auto simp: push_agrees_def)
      ultimately show ?thesis by simp
    qed
    ultimately show "meta_ok (f p)" "pID (f p) = pID p"
      using apply_partition_ok(1,2) [of p "map_of (btopics b) (tName t)"] by (simp_all add: f_def)
  qed
  let ?cp = "t\<lparr>tPartitions := map f (tPartitions t)\<rparr>"
  have ap: "apply_topic now b t = b\<lparr>btopics := mput (tName t) ?cp (btopics b)\<rparr>" by (simp add: apply_topic_def f_def Let_def)
  have "map pID (map f (tPartitions t)) = map pID (tPartitions t)" using f(2) by simp
  then have "topic_ok (tName t) ?cp" using tk f(1) by (simp add: topic_ok_def list_all_iff del: map_map)
  then show "topics_ok (apply_topic now b t)" by (rule topics_ok_mput [OF assms(1)]) (simp add: ap)
  have "map_of (btopics (apply_topic now b t)) (tName x) = map_of (btopics b) (tName x)" if "x \<in> set ts" for x
  proof -
    have "tName x \<noteq> tName t"
    proof
      assume "tName x = tName t"
      then have "tName t \<in> tName ` set ts" using that by (metis imageI)
      with assms(2) show False by (simp add: push_agrees_def)
    qed
    then show ?thesis by (simp add: ap)
  qed
  then show "push_agrees (apply_topic now b t) ts" using assms(2) by (auto simp: push_agrees_def)
  show "bcluster (apply_topic now b t) = bcluster b" by (simp add: ap)
qed

lemma applyTopics_ok:
  assumes "topics_ok b" "push_agrees b ts"
  shows "topics_ok (applyTopics now w b ts) \<and> bcluster (applyTopics now w b ts) = bcluster b"
proof -
  have "topics_ok (foldl (apply_topic now) b ts) \<and> bcluster (foldl (apply_topic now) b ts) = bcluster b"
    using assms by (induction ts arbitrary: b) (simp_all add: apply_topic_ok)
  then show ?thesis by (simp add: applyTopics_def topics_ok_def)
qed

lemma set_isr_ok:
  assumes "topics_ok b" "partition_meta b tn part = Some pm" "isr \<noteq> []" "distinct isr" "set isr \<subseteq> set (pReplicas pm)"
  shows "topics_ok (set_isr b tn part isr)"
proof -
  obtain t where t: "map_of (btopics b) tn = Some t" "pm \<in> set (tPartitions t)" "pID pm = part"
    using assms(2) by (rule partition_metaE)
  define g :: "partitionMeta \<Rightarrow> partitionMeta" where "g = (\<lambda>p. if pID p = part then p\<lparr>pISR := isr\<rparr> else p)"
  have g: "pID (g p) = pID p" for p by (simp add: g_def)
  have "topic_ok k (u\<lparr>tPartitions := map g (tPartitions u)\<rparr>)" if u: "map_of (btopics b) k = Some u" "k = tn" for k u
  proof -
    note tk = topics_okD [OF assms(1) u(1)]
    have "u = t" using u t(1) by simp
    have "p = pm" if "p \<in> set (tPartitions u)" "pID p = part" for p
      using that t(2,3) tk \<open>u = t\<close> inj_onD [of pID "set (tPartitions t)" p pm] by (simp add: topic_ok_def distinct_map)
    then have "meta_ok (g p)" if "p \<in> set (tPartitions u)" for p
      using that tk assms(3-5) by (auto simp: g_def topic_ok_def list_all_iff meta_ok_def)
    moreover have "map pID (map g (tPartitions u)) = map pID (tPartitions u)" using g by simp
    ultimately show ?thesis using tk by (simp add: topic_ok_def list_all_iff del: map_map)
  qed
  then show ?thesis using assms(1)
    by (auto simp: topics_ok_def set_isr_def g_def [symmetric] list_all_values)
qed

lemma compute_isr_facts:
  assumes "meta_ok pm" "pLeader pm = self_id b"
  shows "compute_isr now b tn pm \<noteq> []" "distinct (compute_isr now b tn pm)" "set (compute_isr now b tn pm) \<subseteq> set (pReplicas pm)"
  using assms by (auto simp: compute_isr_def meta_ok_def)

lemma recomputeHW_ok:
  assumes "topics_ok b"
  shows "topics_ok (recomputeHW flt now w b tn part) \<and> bcluster (recomputeHW flt now w b tn part) = bcluster b"
proof (cases "partition_meta b tn part")
  case None
  then show ?thesis using assms by (simp add: recomputeHW_def)
next
  case (Some pm)
  obtain r st where op: "Store_Open flt (bstore b) tn part = (r, st)" by fastforce
  show ?thesis
  proof (cases "pLeader pm = self_id b \<and> (\<exists>lg. r = Inr lg)")
    case False
    then show ?thesis using Some op assms
      by (cases r) (auto simp: recomputeHW_def topics_ok_def)
  next
    case True
    then obtain lg where lg: "pLeader pm = self_id b" "r = Inr lg" by blast
    let ?b1 = "b\<lparr>bstore := Store_put st tn part (SetHighWatermark lg (compute_hw b tn part (LEO lg) (compute_isr now b tn pm)))\<rparr>"
    have "topics_ok ?b1" "partition_meta ?b1 tn part = Some pm" using assms Some by (simp_all add: topics_ok_def partition_meta_def)
    note si = set_isr_ok [OF this compute_isr_facts [OF topics_ok_meta [OF assms Some] lg(1), of now tn]]
    have "bcluster (set_isr ?b1 tn part isr) = bcluster b" for isr by (simp add: set_isr_def)
    then show ?thesis using Some op lg assms si
      by (auto simp: recomputeHW_def Let_def topics_ok_def)
  qed
qed

lemma ensureOffsetsTopic_ok:
  assumes "topics_ok b" "cluster_ok (bcluster b)"
  shows "\<exists>b'. ensureOffsetsTopic now w b = Some b' \<and> topics_ok b' \<and> bcluster b' = bcluster b"
proof (cases "topic b offsetsTopic")
  case None
  then have n: "map_of (btopics b) offsetsTopic = None" by (simp add: topic_def)
  show ?thesis
    using None createTopicLocked_new [OF assms(2) n] topics_ok_new [OF assms n] by (simp add: ensureOffsetsTopic_def)
qed (simp add: ensureOffsetsTopic_def assms)

lemma createTopicLocked_ok:
  assumes "topics_ok b" "cluster_ok (bcluster b)"
  shows "\<exists>b'. createTopicLocked now w b name npart rf = Some b' \<and> topics_ok b' \<and> bcluster b' = bcluster b"
proof (cases "map_of (btopics b) name")
  case None
  then show ?thesis using createTopicLocked_new [OF assms(2) None] topics_ok_new [OF assms None] by simp
qed (simp add: createTopicLocked_def assms)

definition broker_ok :: "Broker \<Rightarrow> bool" where
  "broker_ok b \<longleftrightarrow> topics_ok b \<and> cluster_ok (bcluster b)"

lemma broker_ok_fold:
  assumes "\<And>b x. broker_ok b \<Longrightarrow> broker_ok (f b x)"
  shows "broker_ok b \<Longrightarrow> broker_ok (foldl f b xs)"
  using assms by (induction xs arbitrary: b) auto

lemma recomputeAllHW_ok: "broker_ok b \<Longrightarrow> broker_ok (recomputeAllHW flt now w b)"
  unfolding recomputeAllHW_def by (intro broker_ok_fold) (auto simp: broker_ok_def recomputeHW_ok)

lemma tick_ok:
  assumes "broker_ok b"
  shows "\<exists>b'. tick flt now w b = Some b' \<and> broker_ok b'"
proof -
  define b3 where "b3 = (let b1 = b\<lparr>bcluster := MarkSeen now (bcluster b) (self_id b)\<rparr>;
      b2 = b1\<lparr>outbox := outbox b1 @ map (\<lambda>p. MsgHeartbeat (peerAddr p) (self_id b1)) (OtherPeers (bcluster b1))\<rparr>
    in b2\<lparr>bgroups := Expire (Some (topicPartitions b2)) now (bgroups b2)\<rparr>)"
  have b3: "topics_ok b3" "cluster_ok (bcluster b3)"
    using assms by (simp_all add: b3_def broker_ok_def topics_ok_def Let_def cluster_ok_MarkSeen)
  define r where "r = (if IsController now (bcluster b3)
      then (case controllerTick now w b3 of None \<Rightarrow> None | Some b \<Rightarrow> ensureOffsetsTopic now w b) else Some b3)"
  have "\<exists>b4. r = Some b4 \<and> broker_ok b4"
  proof (cases "IsController now (bcluster b3)")
    case True
    obtain c where c: "controllerTick now w b3 = Some c" "topics_ok c" "bcluster c = bcluster b3"
      using controllerTick_ok [OF b3(1), of now w] by blast
    then show ?thesis using True ensureOffsetsTopic_ok [of c now w] b3(2) by (auto simp: r_def broker_ok_def)
  qed (simp add: r_def b3 broker_ok_def)
  then obtain b4 where b4: "r = Some b4" "broker_ok b4" by blast
  have "tick flt now w b = (case r of None \<Rightarrow> None | Some b \<Rightarrow> Some (syncFollowers (recomputeAllHW flt now w b)))"
    by (simp only: tick_def b3_def r_def Let_def)
  then have "tick flt now w b = Some (syncFollowers (recomputeAllHW flt now w b4))" using b4(1) by simp
  moreover have "broker_ok (syncFollowers b')" if "broker_ok b'" for b'
    using that by (simp add: broker_ok_def syncFollowers_def topics_ok_def Let_def)
  ultimately show ?thesis using recomputeAllHW_ok [OF b4(2)] by blast
qed

text \<open>The operations of a broker that read or write metadata, in any order.\<close>

inductive meta_step :: "Broker \<Rightarrow> Broker \<Rightarrow> bool" where
  step_tick: "tick flt now w b = Some b' \<Longrightarrow> meta_step b b'"
| step_create: "createTopicLocked now w b name npart rf = Some b' \<Longrightarrow> meta_step b b'"
| step_push: "push_agrees b ts \<Longrightarrow> meta_step b (syncFollowers (applyTopics now w b ts))"
| step_ack: "meta_step b (recomputeHW flt now w (noteReplica now b tn part i leo) tn part)"
| step_seen: "meta_step b (b\<lparr>bcluster := MarkSeen now (bcluster b) i\<rparr>)"
| step_follow: "follow_pass flt now net b tn part = (res, b') \<Longrightarrow> meta_step b b'"

lemma follow_pass_meta:
  "follow_pass flt now net b tn part = (res, b') \<Longrightarrow> btopics b' = btopics b \<and> bcluster b' = bcluster b"
  by (auto simp: follow_pass_def Let_def split: prod.splits sum.splits option.splits if_splits)

lemma meta_step_ok: "meta_step b b' \<Longrightarrow> broker_ok b \<Longrightarrow> broker_ok b'"
proof (induction rule: meta_step.induct)
  case (step_tick flt now w b b')
  then show ?case using tick_ok [of b flt now w] by auto
next
  case (step_create now w b name npart rf b')
  then show ?case using createTopicLocked_ok [of b now w name npart rf] by (auto simp: broker_ok_def)
next
  case (step_push b ts now w)
  then show ?case using applyTopics_ok [of b ts now w] by (auto simp: broker_ok_def syncFollowers_def Let_def topics_ok_def)
next
  case (step_ack b flt now w tn part i leo)
  then have "topics_ok (noteReplica now b tn part i leo)" "bcluster (noteReplica now b tn part i leo) = bcluster b"
    by (simp_all add: broker_ok_def noteReplica_def Let_def topics_ok_def)
  then show ?case using step_ack recomputeHW_ok [of "noteReplica now b tn part i leo" flt now w tn part]
    by (simp add: broker_ok_def)
next
  case (step_seen b now i)
  then show ?case by (simp add: broker_ok_def topics_ok_def cluster_ok_MarkSeen)
next
  case (step_follow flt now net b tn part res b')
  then show ?case using follow_pass_meta [of flt now net b tn part res b'] by (simp add: broker_ok_def topics_ok_def)
qed

lemma loaded_topics_ok:
  assumes "\<forall>t\<in>set ts. topic_ok (tName t) t" "topics_ok b"
  shows "topics_ok (b\<lparr>btopics := foldl (\<lambda>m t. mput (tName t) t m) (btopics b) ts\<rparr>)"
  using assms
proof (induction ts arbitrary: b)
  case (Cons t ts)
  have "topics_ok (b\<lparr>btopics := mput (tName t) t (btopics b)\<rparr>)"
    by (rule topics_ok_mput [OF Cons.prems(2)]) (use Cons.prems(1) in auto)
  from Cons.IH [OF _ this] Cons.prems(1) show ?case by simp
qed simp

lemma Broker_New_ok:
  assumes "Broker_New flt now cfg disk offs tops = Some b" "\<forall>ts. tops = JSON ts \<longrightarrow> (\<forall>t\<in>set ts. topic_ok (tName t) t)"
  shows "broker_ok b"
proof -
  define b0 where "b0 = \<lparr>bcfg = default_cfg cfg, bcluster = Cluster_New now \<lparr>peerID = cID (default_cfg cfg), peerAddr = cAdvertise (default_cfg cfg)\<rparr>
        (cPeers (default_cfg cfg)) (cSessionTimeout (default_cfg cfg)),
      bstore = snd (LoadExisting flt (Store_New (cDataDir (default_cfg cfg)) (cFsyncEvery (default_cfg cfg)) (cMaxSegmentBytes (default_cfg cfg))
                        (cIndexInterval (default_cfg cfg)) disk)),
      bgroups = SetOffsetHook (Coordinator_New offs (cGroupSession (default_cfg cfg)) (cRebalanceWait (default_cfg cfg))) True,
      bpartitioner = \<lparr>rr = 0\<rparr>, btopics = [], topicsFile = tops, replicaLEO = [], followCancel = [], outbox = []\<rparr>"
  have ld: "loadTopics b0 = Some b" using assms(1) by (auto simp: Broker_New_def b0_def Let_def split: prod.splits if_splits)
  have b0: "topics_ok b0" "cluster_ok (bcluster b0)" by (simp_all add: b0_def topics_ok_def cluster_ok_New)
  show ?thesis
  proof (cases tops)
    case NoFile
    then show ?thesis using ld b0 by (simp add: loadTopics_def b0_def broker_ok_def)
  next
    case BadFile
    then show ?thesis using ld by (simp add: loadTopics_def b0_def)
  next
    case (JSON ts)
    then have "b = b0\<lparr>btopics := foldl (\<lambda>m t. mput (tName t) t m) (btopics b0) ts\<rparr>"
      using ld by (simp add: loadTopics_def b0_def)
    then show ?thesis using loaded_topics_ok [of ts b0] b0 JSON assms(2) by (simp add: broker_ok_def)
  qed
qed

lemma meta_steps_ok: "meta_step\<^sup>*\<^sup>* b b' \<Longrightarrow> broker_ok b \<Longrightarrow> broker_ok b'"
  by (induction rule: rtranclp_induct) (auto intro: meta_step_ok)

text \<open>
  The metadata invariant: however ticks, topic creations, pushes from agreeing brokers,
  acknowledgements, heartbeats and follower passes interleave after the start of a broker,
  every partition has at least one replica and no replica twice, its leader is one of them,
  and the in-sync set is a nonempty set of them; and the tick never panics.
\<close>

theorem metadata_invariant:
  assumes "Broker_New flt now cfg disk offs tops = Some b0" "\<forall>ts. tops = JSON ts \<longrightarrow> (\<forall>t\<in>set ts. topic_ok (tName t) t)"
    "meta_step\<^sup>*\<^sup>* b0 b" "partition_meta b tn i = Some p"
  shows "pReplicas p \<noteq> [] \<and> distinct (pReplicas p) \<and> pLeader p \<in> set (pReplicas p)
    \<and> pISR p \<noteq> [] \<and> distinct (pISR p) \<and> set (pISR p) \<subseteq> set (pReplicas p) \<and> tick flt' now' w b \<noteq> None"
proof -
  have ok: "broker_ok b" using meta_steps_ok [OF assms(3) Broker_New_ok [OF assms(1,2)]] .
  then have "meta_ok p" using topics_ok_meta [OF _ assms(4)] by (simp add: broker_ok_def)
  then show ?thesis using tick_ok [OF ok, of flt' now' w] by (auto simp: meta_ok_def)
qed

definition start_cfg :: BConfig where
  "start_cfg = \<lparr>cID = 1, cBind = '''', cAdvertise = ''h'', cDataDir = [], cPeers = [\<lparr>peerID = 2, peerAddr = ''b''\<rparr>], cSessionTimeout = 0,
     cGroupSession = 0, cRebalanceWait = 0, cReplicaLagTime = 0, cFsyncEvery = 0, cMaxSegmentBytes = 0,
     cIndexInterval = 0, cMinISR = 0, cProduceTimeout = 0\<rparr>"

lemma Broker_New_example: "\<exists>b. Broker_New no_fault 0 start_cfg [] NoFile NoFile = Some b"
  by (simp add: Broker_New_def LoadExisting_def read_dir_def Store_New_def no_fault_def loadTopics_def map_filter_def Let_def)

theorem metadata_invariant_witness:
  "\<exists>b0 b p. Broker_New no_fault 0 start_cfg [] NoFile NoFile = Some b0 \<and> createTopicLocked 7 True b0 ''t'' 2 2 = Some b
    \<and> partition_meta b ''t'' 1 = Some p \<and> pLeader p \<in> set (pReplicas p) \<and> tick no_fault 8 True b \<noteq> None"
proof -
  obtain b0 where b0: "Broker_New no_fault 0 start_cfg [] NoFile NoFile = Some b0" using Broker_New_example by blast
  have ok: "broker_ok b0" by (rule Broker_New_ok [OF b0]) simp
  have e: "btopics b0 = []" using b0
    by (auto simp: Broker_New_def LoadExisting_def read_dir_def Store_New_def no_fault_def loadTopics_def map_filter_def Let_def)
  define t where "t = new_topic (map peerID (All (bcluster b0))) ''t'' 2 2"
  define b where "b = broadcastMetadata 7 (persistTopicsLocked True (b0\<lparr>btopics := [(''t'', t)]\<rparr>))"
  have cr: "createTopicLocked 7 True b0 ''t'' 2 2 = Some b"
    using createTopicLocked_new [of b0 "''t''" 7 True 2 2] ok e by (simp add: broker_ok_def b_def t_def)
  have "[0..1::int] = [0, 1]" by code_simp
  then have "\<exists>p. partition_meta b ''t'' 1 = Some p"
    by (simp add: b_def partition_meta_def t_def new_topic_def Let_def)
  then obtain p where p: "partition_meta b ''t'' 1 = Some p" by blast
  have "meta_step\<^sup>*\<^sup>* b0 b" using step_create [OF cr] by blast
  from metadata_invariant [OF b0 _ this p, of no_fault 8 True] show ?thesis using b0 cr p by blast
qed

end
