(* ===== verification/LS_Serve.thy ===== *)
theory LS_Serve
  imports LS_Handlers LS_MetaInv
begin

text \<open>
  What the handlers of \<^verbatim>\<open>src/internal/broker/handlers.go\<close> guarantee: consumers see committed records
  only, a replica fetch answers what the follower loop relies on, a produce request appends on
  the leader and waits for the in-sync replicas when asked to, and what goes wrong when a
  batch spans leaders.
\<close>

section \<open>Fetching\<close>

lemma parse_lenient_ParseInt: "ParseInt s = Some v \<Longrightarrow> parse_lenient s = v"
  by (auto simp: ParseInt_def parse_lenient_def in_i64_def Let_def split: if_splits list.splits)

lemma parse_lenient_Itoa [simp]: "in_i64 n \<Longrightarrow> parse_lenient (Itoa n) = n"
  by (rule parse_lenient_ParseInt [OF ParseInt_Itoa])

lemma Store_Open_get: "Store_Get st tn part = Some lg \<Longrightarrow> Store_Open flt st tn part = (Inr lg, st)"
  by (simp add: Store_Open_def Store_Get_def)

lemma Read_committed:
  assumes "log_inv l" "start l \<le> off" "0 \<le> m" "m \<le> LEO l"
  obtains recs where "Read l off mb m = Inr recs" "subseq recs (contents l)" "\<forall>x\<in>set recs. off \<le> Offset x \<and> Offset x < m"
    "off < m \<Longrightarrow> recs \<noteq> [] \<and> Offset (hd recs) = off"
proof (cases "off < m")
  case True
  then obtain r new where r: "Read l off mb m = Inr (r # new)" "Offset r = off"
      "subseq (r # new) (visible off (read_limit l m) (contents l))"
    using Read_sound [OF assms(1,2), of m mb] assms(3,4) by auto
  have lim: "read_limit l m = m" using assms(3) by simp
  have "subseq (r # new) (contents l)" using r(3) by (rule subseq_order.trans) (simp add: subseq_filter_left)
  moreover have "\<forall>x\<in>set (r # new). off \<le> Offset x \<and> Offset x < m" using r(3) lim by (auto dest: list_emb_set)
  ultimately show ?thesis using that [of "r # new"] r by simp
next
  case False
  then have "Read l off mb m = Inr []" using assms(3,4) by (simp add: Read_def LEO_def Let_def)
  then show ?thesis using that False by simp
qed

lemma serveFetch_leader:
  assumes "partition_meta b tn part = Some pm" "pLeader pm = self_id b" "Store_Get (bstore b) tn part = Some lg"
    "in_i64 part" "in_i64 off" "Read lg off mb (if replica then LEO lg else HighWatermark lg) = Inr recs"
    "mb = (if parse_lenient ms \<le> 0 then 1048576 else parse_lenient ms)"
  shows "serveFetch e b \<lparr>fqTopic = tn, fqPartition = Itoa part, fqOffset = Itoa off, fqMaxBytes = ms, fqReplica = r\<rparr> replica =
    (Done (Ret (200, BFetch \<lparr>fTopic = tn, fPartition = part, fHighWatermark = HighWatermark lg, fLogEndOffset = LEO lg,
       fRecords = map json_wire (toWire recs)\<rparr>)), b)"
  using assms by (simp add: serveFetch_def Store_Open_get writeJSON_def json_answer_def Let_def)

text \<open>
  C10.  Consumers see committed records only: a fetch on the leader answers records of the log in
  log order, all at or after the requested offset and below the high watermark, starting
  with the requested one if it is committed; the broker does not change.
\<close>

theorem consumer_reads_committed:
  assumes "partition_meta b tn part = Some pm" "pLeader pm = self_id b" "Store_Get (bstore b) tn part = Some lg" "log_inv lg"
    "in_i64 part" "in_i64 off" "start lg \<le> off" "r \<noteq> ''1''"
  shows "\<exists>recs. handleFetch e b \<lparr>fqTopic = tn, fqPartition = Itoa part, fqOffset = Itoa off, fqMaxBytes = ms, fqReplica = r\<rparr> =
      (Done (Ret (200, BFetch \<lparr>fTopic = tn, fPartition = part, fHighWatermark = HighWatermark lg, fLogEndOffset = LEO lg,
         fRecords = map json_wire (toWire recs)\<rparr>)), b)
    \<and> subseq recs (contents lg) \<and> (\<forall>x\<in>set recs. off \<le> Offset x \<and> Offset x < HighWatermark lg)
    \<and> (off < HighWatermark lg \<longrightarrow> recs \<noteq> [] \<and> Offset (hd recs) = off)"
proof -
  define mb where "mb = (if parse_lenient ms \<le> 0 then 1048576 else parse_lenient ms)"
  have h: "0 \<le> HighWatermark lg" "HighWatermark lg \<le> LEO lg" using log_inv_facts [OF assms(4)] by (simp_all add: HighWatermark_def)
  obtain recs where recs: "Read lg off mb (HighWatermark lg) = Inr recs" "subseq recs (contents lg)"
      "\<forall>x\<in>set recs. off \<le> Offset x \<and> Offset x < HighWatermark lg" "off < HighWatermark lg \<Longrightarrow> recs \<noteq> [] \<and> Offset (hd recs) = off"
    using Read_committed [OF assms(4,7) h, where mb = mb] by blast
  show ?thesis
    using serveFetch_leader [OF assms(1-3,5,6), where replica = False and mb = mb and recs = recs and ms = ms and e = e and r = r]
      recs assms(8) by (auto simp: handleFetch_def mb_def)
qed

text \<open>The network of a single broker: a request that would have to be sent on gets no answer.\<close>

definition ask :: "henv \<Rightarrow> Broker \<Rightarrow> string \<Rightarrow> request \<Rightarrow> answer \<times> Broker" where
  "ask e b addr q =
     (case serve e b q of
        (Done (Ret r), b') \<Rightarrow> (Some r, b')
      | (_, b') \<Rightarrow> (None, b'))"

definition example_env :: henv where
  "example_env = \<lparr>eflt = no_fault, enow = 7, ewr = True, enewID = ''m'', etext = (\<lambda>x. ''error''), ewaits = (\<lambda>i. (7, []))\<rparr>"

lemma append_empty_hw: "hw (append_empty n l) = hw l"
  by (induction n) (auto simp: Log_Append_def appendLocked_hw [OF surjective_pairing])

text \<open>A leader's log with six records, the first four of them committed.\<close>

lemma example_leader:
  obtains l where "Log_Open no_fault small_cfg [] = Inr l" "log_inv (append_empty 6 l)" "LEO (append_empty 6 l) = 6"
    "start (append_empty 6 l) = 0" "hw (append_empty 6 l) = 0" "log_inv l" "LEO l = 0" "contents l = []"
proof -
  obtain l a b c where l: "Log_Open no_fault small_cfg [] = Inr l" "log_inv (append_empty 6 l)"
      "LEO (append_empty 6 l) = 6" "start (append_empty 6 l) = 0"
    by (rule six_records) blast
  obtain l0 where l0: "Log_Open no_fault small_cfg [] = Inr l0" "log_ok l0 [[]]" "start l0 = 0"
    using Log_Open_empty [of small_cfg] by auto
  have eq: "l0 = l" using l(1) l0(1) by simp
  have f: "log_inv l" "contents l = []" "LEO l = 0"
    using l0(2,3) contents_eq [OF l0(2)] log_ok_facts(2) [OF l0(2)] by (auto simp: log_inv_def eq)
  then have "hw l = 0" using log_inv_facts(5,6) [OF f(1)] by simp
  then show ?thesis using that l f append_empty_hw [of 6 l] by metis
qed

theorem consumer_reads_committed_witness:
  "\<exists>l recs. Log_Open no_fault small_cfg [] = Inr l
    \<and> handleFetch example_env (example_broker 1 (SetHighWatermark (append_empty 6 l) 4))
       \<lparr>fqTopic = ''t'', fqPartition = Itoa 0, fqOffset = Itoa 2, fqMaxBytes = ''0'', fqReplica = ''''\<rparr> =
      (Done (Ret (200, BFetch \<lparr>fTopic = ''t'', fPartition = 0, fHighWatermark = 4, fLogEndOffset = 6,
         fRecords = map json_wire (toWire recs)\<rparr>)), example_broker 1 (SetHighWatermark (append_empty 6 l) 4))
    \<and> recs \<noteq> [] \<and> Offset (hd recs) = 2"
proof -
  obtain l where l: "Log_Open no_fault small_cfg [] = Inr l" "log_inv (append_empty 6 l)" "LEO (append_empty 6 l) = 6"
    "start (append_empty 6 l) = 0" "hw (append_empty 6 l) = 0"
    by (rule example_leader)
  let ?lg = "SetHighWatermark (append_empty 6 l) 4"
  have v: "log_inv ?lg" "HighWatermark ?lg = 4" "LEO ?lg = 6" "start ?lg = 0"
    using SetHighWatermark_value [OF l(2), of 4] l by (simp_all add: HighWatermark_def del: append_empty.simps)
  show ?thesis
    using consumer_reads_committed [OF example_broker_simps(3) _ example_broker_simps(2) v(1), of 1 2 _ example_env "''0''"] l v
    by (fastforce simp: in_i64_def simp del: append_empty.simps)
qed

text \<open>The answer the follower loop gets when the leader's handler serves its fetch.\<close>

definition served_net :: "henv \<Rightarrow> Broker \<Rightarrow> string \<Rightarrow> string \<Rightarrow> int \<Rightarrow> int \<Rightarrow> FetchResponse option" where
  "served_net e lb addr tn part off =
     (case fst (exec (ask e) (ReplicaFetch addr tn part off) lb) of Inl err \<Rightarrow> None | Inr fr \<Rightarrow> Some fr)"

lemma served_is_leader_net:
  assumes "partition_meta lb tn part = Some pm" "pLeader pm = self_id lb" "Store_Get (bstore lb) tn part = Some lead" "log_inv lead"
    "in_i64 part" "in_i64 off" "start lead \<le> off" "addr \<noteq> ''''"
  shows "served_net e lb addr tn part off = leader_net lead addr tn part off"
proof -
  obtain rs where rs: "Read lead off 1048576 (LEO lead) = Inr rs" by (rule Read_from_end [OF assms(4,7)])
  have "parse_lenient (Itoa 1048576) = 1048576" by (simp add: in_i64_def)
  then have "serveFetch e lb \<lparr>fqTopic = tn, fqPartition = Itoa part, fqOffset = Itoa off, fqMaxBytes = Itoa 1048576, fqReplica = ''1''\<rparr> True =
    (Done (Ret (200, BFetch \<lparr>fTopic = tn, fPartition = part, fHighWatermark = HighWatermark lead, fLogEndOffset = LEO lead,
       fRecords = map json_wire (toWire rs)\<rparr>)), lb)"
    using serveFetch_leader [OF assms(1-3,5,6), where replica = True and mb = 1048576 and recs = rs and ms = "Itoa 1048576"] rs by simp
  then show ?thesis using assms(8) rs
    by (simp add: served_net_def ReplicaFetch_def Client_Fetch_def ask_def serve_def handleFetch_def leader_net_def as_fetch_def Let_def)
qed

lemma replicaLEO_recomputeHW: "replicaLEO (recomputeHW flt now w b tn part) = replicaLEO b"
  by (simp add: recomputeHW_def broadcastMetadata_def persistTopicsLocked_def set_isr_def Let_def
      split: option.splits prod.splits sum.splits)

lemma states_of_recomputeHW: "states_of (recomputeHW flt now w b tn part) = states_of b"
  by (intro ext) (simp add: states_of_def replicaLEO_recomputeHW)

text \<open>
  C17.  Leader and follower together: a pass of the follower loop whose fetch is served by the
  handler of a leader with a well-formed log keeps the follower's log a prefix of the
  leader's and acknowledges its log end; when the leader then handles this acknowledgement,
  it has the follower's new log end on record.
\<close>

theorem replication_round:
  assumes "partition_meta lb tn part = Some pm" "pLeader pm = self_id lb" "Store_Get (bstore lb) tn part = Some lead" "log_inv lead"
    "\<forall>r\<in>set (contents lead). storable r \<and> text_rec r" "follower_of fb tn part addr lead foll" "in_i64 part"
  shows "\<exists>fb' foll' ack lb'. follow_pass no_fault now (served_net e lb) fb tn part = (FollowDone, fb')
    \<and> Store_Get (bstore fb') tn part = Some foll' \<and> prefix (contents foll') (contents lead)
    \<and> (LEO foll < LEO lead \<longrightarrow> LEO foll < LEO foll')
    \<and> outbox fb' = outbox fb @ [MsgAck addr ack] \<and> exec (ask e) (ReplicaAck addr ack) lb = (Inr (), lb')
    \<and> (\<exists>st. map_of (states_of lb' tn part) (self_id fb) = Some st \<and> rleo st = LEO foll' \<and> rlastSeen st = enow e)"
proof -
  have f: "log_inv foll" "start foll = start lead" "addr \<noteq> ''''" using assms(6) by (simp_all add: follower_of_def)
  have off: "start lead \<le> LEO foll" "in_i64 (LEO foll)" using log_inv_facts [OF f(1)] f(2) by (simp_all add: in_i64_def)
  note net = served_is_leader_net [OF assms(1-4,7) off(2,1) f(3), of e]
  obtain fb' foll' where fb': "follow_pass no_fault now (served_net e lb) fb tn part = (FollowDone, fb')"
      "follower_of fb' tn part addr lead foll'" "LEO foll < LEO lead \<longrightarrow> LEO foll < LEO foll'"
      "outbox fb' = outbox fb @ [MsgAck addr \<lparr>aBrokerID = self_id fb, aTopic = tn, aPartition = part, aLEO = LEO foll'\<rparr>]"
    using follow_pass_copy [OF assms(4-6), of "served_net e lb" now] net by blast
  let ?ack = "\<lparr>aBrokerID = self_id fb, aTopic = tn, aPartition = part, aLEO = LEO foll'\<rparr>"
  let ?n = "noteReplica (enow e) lb tn part (self_id fb) (LEO foll')"
  let ?lb' = "recomputeHW (eflt e) (enow e) (ewr e) ?n tn part"
  have ex: "exec (ask e) (ReplicaAck addr ?ack) lb = (Inr (), ?lb')"
    by (simp add: ReplicaAck_def one_call_def ask_def serve_def handleReplicaAck_def writeJSON_def json_answer_def)
  have "map_of (states_of ?n tn part) (self_id fb) = Some \<lparr>rleo = LEO foll', rlastSeen = enow e\<rparr>"
    by (simp add: states_of_def noteReplica_def Let_def)
  then have "map_of (states_of ?lb' tn part) (self_id fb) = Some \<lparr>rleo = LEO foll', rlastSeen = enow e\<rparr>"
    by (simp add: states_of_recomputeHW)
  then show ?thesis using fb' ex by (intro exI [of _ fb'] exI [of _ foll'] exI [of _ ?ack] exI [of _ ?lb']) (simp add: follower_of_def)
qed

theorem replication_round_witness:
  "\<exists>l fb' foll' ack lb'. Log_Open no_fault small_cfg [] = Inr l
    \<and> follow_pass no_fault 9 (served_net example_env (example_broker 1 (append_empty 6 l))) (example_broker 2 l) ''t'' 0 = (FollowDone, fb')
    \<and> Store_Get (bstore fb') ''t'' 0 = Some foll' \<and> 0 < LEO foll' \<and> outbox fb' = [MsgAck ''a'' ack]
    \<and> exec (ask example_env) (ReplicaAck ''a'' ack) (example_broker 1 (append_empty 6 l)) = (Inr (), lb')"
proof -
  obtain l where l: "Log_Open no_fault small_cfg [] = Inr l" "log_inv (append_empty 6 l)"
      "contents (append_empty 6 l) = map empty_rec [0, 1, 2, 3, 4, 5]" "LEO (append_empty 6 l) = 6"
      "follower_of (example_broker 2 l) ''t'' 0 ''a'' (append_empty 6 l) l" "LEO l = 0"
    by (rule example_follower)
  have "outbox (example_broker 2 l) = []" by (simp add: example_broker_def Let_def)
  then show ?thesis
    using replication_round [OF example_broker_simps(3) _ example_broker_simps(2) l(2) _ l(5), where now = 9 and e = example_env] l empty_recs_text
    by (fastforce simp: in_i64_def simp del: append_empty.simps list.map)
qed

section \<open>Producing\<close>

lemma Store_Get_put_same [simp]: "Store_Get (Store_put st tn part l) tn part = Some l"
  by (simp add: Store_Get_def Store_put_def)

lemma partition_meta_simps [simp]:
  "partition_meta (b\<lparr>bstore := st\<rparr>) = partition_meta b" "partition_meta (b\<lparr>bpartitioner := p\<rparr>) = partition_meta b"
  "partition_meta (noteSelfLEO now b tn i leo) = partition_meta b"
  by (intro ext; simp add: partition_meta_def noteSelfLEO_def noteReplica_def Let_def)+

lemma noteSelfLEO_simps [simp]: "self_id (noteSelfLEO now b tn i leo) = self_id b" "bstore (noteSelfLEO now b tn i leo) = bstore b"
  by (simp_all add: noteSelfLEO_def noteReplica_def Let_def)

text \<open>The append on the leader, with the high watermark that follows from it.\<close>

lemma produce_append_leader:
  assumes "partition_meta b tn pid = Some pm" "pLeader pm = self_id b" "Store_Get (bstore b) tn pid = Some lg" "log_inv lg"
    "LEO lg < max_i64" "in_i64 now" "25 + length (prKey rec) + length (prValue rec) \<le> 67108864" "eflt e = no_fault"
  shows "\<exists>b' lg'. produce_append e now b tn pid rec = (Inr (LEO lg), b') \<and> Store_Get (bstore b') tn pid = Some lg' \<and> log_inv lg'
    \<and> contents lg' = contents lg @ [\<lparr>Offset = LEO lg, Timestamp = now, Key = prKey rec, Value = prValue rec\<rparr>]
    \<and> LEO lg' = LEO lg + 1 \<and> HighWatermark lg \<le> HighWatermark lg' \<and> (replicaLEO b = [] \<longrightarrow> HighWatermark lg' = LEO lg')"
proof -
  obtain l1 where l1: "Log_Append no_fault now lg (prKey rec) (prValue rec) = (Inr (LEO lg), l1)" "log_inv l1"
      "contents l1 = contents lg @ [\<lparr>Offset = LEO lg, Timestamp = now, Key = prKey rec, Value = prValue rec\<rparr>]"
      "LEO l1 = LEO lg + 1" "HighWatermark l1 = HighWatermark lg"
    using Log_Append_inv [OF assms(4-7)] by blast
  define c where "c = noteSelfLEO now (b\<lparr>bstore := Store_put (bstore b) tn pid l1\<rparr>) tn pid (LEO l1)"
  have pa: "produce_append e now b tn pid rec = (Inr (LEO lg), recomputeHW no_fault now (ewr e) c tn pid)"
    using assms(1,2,8) l1(1) Store_Open_get [OF assms(3)] by (simp add: produce_append_def c_def)
  have c: "partition_meta c tn pid = Some pm" "pLeader pm = self_id c" "Store_Get (bstore c) tn pid = Some l1"
    using assms(1,2) by (simp_all add: c_def)
  define h where "h = compute_hw c tn pid (LEO l1) (compute_isr now c tn pm)"
  have "Store_Get (bstore (recomputeHW no_fault now (ewr e) c tn pid)) tn pid = Some (SetHighWatermark l1 h)"
    using recomputeHW_leader(1) [OF c, of now "ewr e"] by (simp add: h_def)
  moreover have "h = LEO l1" if "replicaLEO b = []"
  proof -
    have "states_of c tn i = (if replicaKey tn i = replicaKey tn pid then [(self_id b, \<lparr>rleo = LEO l1, rlastSeen = now\<rparr>)] else [])" for i
      using that by (simp add: states_of_def c_def noteSelfLEO_def noteReplica_def Let_def)
    then have "compute_isr now c tn pm = [self_id c]"
      using c(2) by (auto simp: compute_isr_def filter_empty_conv c_def)
    then show ?thesis by (simp add: h_def compute_hw_def)
  qed
  ultimately show ?thesis using pa l1 SetHighWatermark_value [OF l1(2), of h] log_inv_facts(6) [OF l1(2)] by (auto simp: HighWatermark_def)
qed

lemma wait_hw_True: "wait_hw tn pid off timeout deadline ps b = (Some True, b') \<Longrightarrow> off < log_hw b' tn pid"
proof (induction tn pid off timeout deadline ps b rule: wait_hw.induct)
  case (1 tn pid off timeout deadline ps b)
  from 1(2) show ?case
    by (subst (asm) wait_hw.simps) (auto split: if_splits list.splits prod.splits dest: 1(1))
qed

lemma produce_one_acks_all:
  assumes "produce_one e req acks n now ps rec b = (OneOk res, b')" "acks = ''all'' \<or> acks = ''-1''"
  shows "resOffset res < log_hw b' (rqTopic req) (resPartition res)"
  using assms
  by (auto simp: produce_one_def Let_def dest: wait_hw_True split: prod.splits option.splits sum.splits bool.splits)

lemma produce_loop_acks_all:
  assumes "produce_loop e req acks n i recs out b = (POk resp, b')" "acks = ''all'' \<or> acks = ''-1''"
  shows "length (rsResults resp) = length out + length recs
    \<and> (recs \<noteq> [] \<longrightarrow> resOffset (last (rsResults resp)) < log_hw b' (rqTopic req) (resPartition (last (rsResults resp))))"
  using assms(1)
proof (induction recs arbitrary: i out b)
  case (Cons rec recs)
  then obtain res b1 where r: "produce_one e req acks n (fst (ewaits e i)) (snd (ewaits e i)) rec b = (OneOk res, b1)"
      "produce_loop e req acks n (i + 1) recs (out @ [res]) b1 = (POk resp, b')"
    by (auto split: prod.splits one_result.splits)
  have "recs = [] \<Longrightarrow> resp = \<lparr>rsTopic = rqTopic req, rsResults = out @ [res]\<rparr> \<and> b' = b1" using r(2) by simp
  then show ?case using Cons.IH [OF r(2)] produce_one_acks_all [OF r(1) assms(2)] by (cases "recs = []") auto
qed auto

text \<open>
  C3.  \<open>acks=all\<close> means committed: when a produce request with these acknowledgements succeeds,
  every record of it has a result, and the high watermark of the partition of the last one is
  beyond its offset, whatever other requests did while the handler waited.
\<close>

theorem acks_all_committed:
  assumes "produceLocal e b req = (POk resp, b')" "rqAcks req = ''all'' \<or> rqAcks req = ''-1''"
  shows "length (rsResults resp) = max 1 (length (rqRecords req))
    \<and> resOffset (last (rsResults resp)) < log_hw b' (rqTopic req) (resPartition (last (rsResults resp)))"
proof -
  define recs where "recs = (if rqRecords req = []
      then [\<lparr>prKey = rqKey req, prValue = rqValue req, prPartition = rqPartition req\<rparr>] else rqRecords req)"
  have ne: "recs \<noteq> []" "length recs = max 1 (length (rqRecords req))"
    by (auto simp: recs_def max_def Suc_le_eq)
  have "rqAcks req \<noteq> ''''" using assms(2) by auto
  then obtain n where "produce_loop e req (rqAcks req) n 0 recs [] b = (POk resp, b')"
    using assms(1) by (auto simp: produceLocal_def recs_def Let_def split: option.splits)
  from produce_loop_acks_all [OF this assms(2)] ne show ?thesis by simp
qed

text \<open>The requests of the examples: one record to partition 0 of topic \<open>t\<close> by round robin.\<close>

definition example_request :: "string \<Rightarrow> ProduceRequest" where
  "example_request acks = \<lparr>rqTopic = ''t'', rqPartition = 0, rqKey = [], rqValue = [118], rqAcks = acks, rqRecords = []\<rparr>"

lemma example_pid:
  "produce_pid (example_request acks) \<lparr>prKey = [], prValue = [118], prPartition = 0\<rparr> 1 (bpartitioner (example_broker 1 l)) =
     (Some 0, \<lparr>rr = 1\<rparr>)"
  by (simp add: produce_pid_def example_request_def example_broker_def Partition_def Let_def)

lemma example_append:
  assumes "log_inv l" "LEO l = 0" "contents l = []"
  shows "\<exists>b' lg'. produce_append example_env 7 ((example_broker 1 l)\<lparr>bpartitioner := \<lparr>rr = 1\<rparr>\<rparr>) ''t'' 0 \<lparr>prKey = [], prValue = [118], prPartition = 0\<rparr>
      = (Inr 0, b') \<and> Store_Get (bstore b') ''t'' 0 = Some lg' \<and> HighWatermark lg' = 1"
proof -
  let ?b = "(example_broker 1 l)\<lparr>bpartitioner := \<lparr>rr = 1\<rparr>\<rparr>"
  have "replicaLEO ?b = []" by (simp add: example_broker_def Let_def)
  moreover have "Store_Get (bstore ?b) ''t'' 0 = Some l" "self_id ?b = 1"
      "partition_meta ?b ''t'' 0 = Some \<lparr>pID = 0, pLeader = 1, pReplicas = [1, 2], pISR = [1]\<rparr>"
    by simp_all
  ultimately show ?thesis
    using produce_append_leader [of ?b "''t''" 0 _ l 7 "\<lparr>prKey = [], prValue = [118], prPartition = 0\<rparr>" example_env] assms
    by (fastforce simp: example_env_def in_i64_def)
qed

theorem acks_all_committed_witness:
  "\<exists>l resp b'. Log_Open no_fault small_cfg [] = Inr l \<and> produceLocal example_env (example_broker 1 l) (example_request ''all'') = (POk resp, b')
    \<and> resOffset (last (rsResults resp)) < log_hw b' ''t'' (resPartition (last (rsResults resp)))"
proof -
  obtain l where l: "Log_Open no_fault small_cfg [] = Inr l" "log_inv l" "LEO l = 0" "contents l = []" by (rule example_leader)
  obtain b' lg' where b': "produce_append example_env 7 ((example_broker 1 l)\<lparr>bpartitioner := \<lparr>rr = 1\<rparr>\<rparr>) ''t'' 0
      \<lparr>prKey = [], prValue = [118], prPartition = 0\<rparr> = (Inr 0, b')" "Store_Get (bstore b') ''t'' 0 = Some lg'" "HighWatermark lg' = 1"
    using example_append [OF l(2-4)] by blast
  have w: "wait_hw ''t'' 0 0 tm d ps b' = (Some True, b')" for tm d ps
    using b'(2,3) by (subst wait_hw.simps) (simp add: log_hw_def)
  have "topic (example_broker 1 l) ''t'' = Some \<lparr>tName = ''t'', tPartitions = [\<lparr>pID = 0, pLeader = 1, pReplicas = [1, 2], pISR = [1]\<rparr>]\<rparr>"
    by (simp add: topic_def example_broker_def Let_def)
  then have "produceLocal example_env (example_broker 1 l) (example_request ''all'') =
      (POk \<lparr>rsTopic = ''t'', rsResults = [\<lparr>resPartition = 0, resOffset = 0\<rparr>]\<rparr>, b')"
    using b'(1) w example_pid [of "''all''" l]
    by (simp add: produceLocal_def example_request_def produce_one_def example_env_def Let_def)
  from acks_all_committed [OF this] this l(1) show ?thesis by (auto simp: example_request_def)
qed

lemma recomputeHW_partitioner [simp]: "bpartitioner (recomputeHW flt now w b tn part) = bpartitioner b"
  by (simp add: recomputeHW_def broadcastMetadata_def persistTopicsLocked_def set_isr_def Let_def
      split: option.splits prod.splits sum.splits)

lemma produce_append_partitioner:
  "produce_append e now b tn pid rec = (r, b') \<Longrightarrow> bpartitioner b' = bpartitioner b"
  by (auto simp: produce_append_def noteSelfLEO_def noteReplica_def Let_def split: option.splits prod.splits sum.splits if_splits)

lemma maybeSoloHW_log:
  assumes "Store_Get (bstore b) tn pid = Some lg" "log_inv lg"
  shows "\<exists>lg'. Store_Get (bstore (maybeSoloHW b tn pid)) tn pid = Some lg' \<and> log_inv lg' \<and> contents lg' = contents lg
    \<and> LEO lg' = LEO lg \<and> HighWatermark lg \<le> HighWatermark lg' \<and> bpartitioner (maybeSoloHW b tn pid) = bpartitioner b"
  using assms SetHighWatermark_value [OF assms(2), of "LEO lg"]
  by (auto simp: maybeSoloHW_def HighWatermark_def split: option.splits)

lemma set_isr_leader:
  "map_option pLeader (partition_meta (set_isr b tn part isr) t i) = map_option pLeader (partition_meta b t i)"
proof -
  have "map_option pLeader (find (\<lambda>p. pID p = i) (map (\<lambda>p. if pID p = part then p\<lparr>pISR := isr\<rparr> else p) ps)) =
      map_option pLeader (find (\<lambda>p. pID p = i) ps)" for ps :: "partitionMeta list"
    by (induction ps) auto
  then show ?thesis by (auto simp: partition_meta_def set_isr_def split: option.splits)
qed

lemma partition_meta_cong2: "btopics b = btopics c \<Longrightarrow> partition_meta b = partition_meta c"
  by (intro ext) (simp add: partition_meta_def)

lemma recomputeHW_keeps_leader:
  "map_option pLeader (partition_meta (recomputeHW flt now w b tn part) t i) = map_option pLeader (partition_meta b t i)"
proof -
  have "map_option pLeader (partition_meta (broadcastMetadata now (persistTopicsLocked w (set_isr (b\<lparr>bstore := st\<rparr>) tn part isr))) t i) =
      map_option pLeader (partition_meta b t i)" for st isr
    using partition_meta_cong2 [of "broadcastMetadata now (persistTopicsLocked w (set_isr (b\<lparr>bstore := st\<rparr>) tn part isr))"
        "set_isr (b\<lparr>bstore := st\<rparr>) tn part isr"] set_isr_leader [of "b\<lparr>bstore := st\<rparr>"] by simp
  then show ?thesis by (auto simp: recomputeHW_def Let_def split: option.splits prod.splits sum.splits)
qed

text \<open>
  \<open>leads b tn p l\<close>: the metadata of \<open>b\<close> names \<open>l\<close> as the leader of the partition.
\<close>

definition leads :: "Broker \<Rightarrow> string \<Rightarrow> int \<Rightarrow> int \<Rightarrow> bool" where
  "leads b tn i l \<longleftrightarrow> map_option pLeader (partition_meta b tn i) = Some l"

lemma leads_simps [simp]:
  "leads (recomputeHW flt now w b tn part) = leads b" "leads (b\<lparr>bstore := st\<rparr>) = leads b"
  "leads (noteSelfLEO now b tn part leo) = leads b" "leads (b\<lparr>bpartitioner := p\<rparr>) = leads b"
  by (intro ext; simp only: leads_def recomputeHW_keeps_leader partition_meta_simps)+

lemma produce_append_env:
  assumes "produce_append e now b tn pid rec = (r, b')"
  shows "bcfg b' = bcfg b" "bcluster b' = bcluster b" "leads b' t i l = leads b t i l"
proof -
  have rc: "bcfg (recomputeHW flt now w c tn part) = bcfg c" "bcluster (recomputeHW flt now w c tn part) = bcluster c" for flt w c part
    by (simp_all add: recomputeHW_def broadcastMetadata_def persistTopicsLocked_def set_isr_def Let_def
        split: option.splits prod.splits sum.splits)
  have n: "bcfg (noteSelfLEO now c tn pid leo) = bcfg c" "bcluster (noteSelfLEO now c tn pid leo) = bcluster c" for c leo
    by (simp_all add: noteSelfLEO_def noteReplica_def Let_def)
  show "bcfg b' = bcfg b" "bcluster b' = bcluster b" "leads b' t i l = leads b t i l"
    using assms by (auto simp: produce_append_def rc n
        split: option.splits prod.splits sum.splits if_splits)
qed

lemma maybeSoloHW_env:
  "bcfg (maybeSoloHW b tn pid) = bcfg b" "bcluster (maybeSoloHW b tn pid) = bcluster b" "leads (maybeSoloHW b tn pid) t i l = leads b t i l"
  by (simp_all add: maybeSoloHW_def split: option.splits)

lemma produce_on_leader:
  assumes "topic b (rqTopic req) = Some t" "rqRecords req = []" "rqAcks req = ''1'' \<or> rqAcks req = ''''"
    "produce_pid req \<lparr>prKey = rqKey req, prValue = rqValue req, prPartition = rqPartition req\<rparr> (int (length (tPartitions t)))
       (bpartitioner b) = (Some pid, p)"
    "partition_meta b (rqTopic req) pid = Some pm" "pLeader pm = self_id b"
    "Store_Get (bstore b) (rqTopic req) pid = Some lg" "log_inv lg" "LEO lg < max_i64" "in_i64 (fst (ewaits e 0))"
    "25 + length (rqKey req) + length (rqValue req) \<le> 67108864" "eflt e = no_fault"
  shows "\<exists>b' lg'. handleProduce e b (Good req) q =
      (Done (Ret (200, BProduce \<lparr>rsTopic = rqTopic req, rsResults = [\<lparr>resPartition = pid, resOffset = LEO lg\<rparr>]\<rparr>)), b')
    \<and> Store_Get (bstore b') (rqTopic req) pid = Some lg' \<and> log_inv lg'
    \<and> contents lg' = contents lg @ [\<lparr>Offset = LEO lg, Timestamp = fst (ewaits e 0), Key = rqKey req, Value = rqValue req\<rparr>]
    \<and> HighWatermark lg \<le> HighWatermark lg' \<and> bpartitioner b' = p \<and> (replicaLEO b = [] \<longrightarrow> HighWatermark lg' = LEO lg + 1)
    \<and> bcfg b' = bcfg b \<and> leads b' (rqTopic req) pid (self_id b)"
proof -
  let ?rec = "\<lparr>prKey = rqKey req, prValue = rqValue req, prPartition = rqPartition req\<rparr>" and ?now = "fst (ewaits e 0)"
  let ?b0 = "b\<lparr>bpartitioner := p\<rparr>"
  obtain b1 lg1 where b1: "produce_append e ?now ?b0 (rqTopic req) pid ?rec = (Inr (LEO lg), b1)"
      "Store_Get (bstore b1) (rqTopic req) pid = Some lg1" "log_inv lg1"
      "contents lg1 = contents lg @ [\<lparr>Offset = LEO lg, Timestamp = ?now, Key = rqKey req, Value = rqValue req\<rparr>]"
      "HighWatermark lg \<le> HighWatermark lg1" "LEO lg1 = LEO lg + 1" "replicaLEO b = [] \<longrightarrow> HighWatermark lg1 = LEO lg1"
    using produce_append_leader [of ?b0 "rqTopic req" pid pm lg ?now ?rec e] assms by auto
  have ptr: "bpartitioner b1 = p"
    using produce_append_partitioner [OF b1(1)] by simp
  obtain b' lg' where b': "maybeSoloHW b1 (rqTopic req) pid = b'" "Store_Get (bstore b') (rqTopic req) pid = Some lg'" "log_inv lg'"
      "contents lg' = contents lg1" "HighWatermark lg1 \<le> HighWatermark lg'" "bpartitioner b' = bpartitioner b1" "LEO lg' = LEO lg1"
    using maybeSoloHW_log [OF b1(2,3)] by blast
  have "produce_one e req ''1'' (int (length (tPartitions t))) ?now (snd (ewaits e 0)) ?rec b =
      (OneOk \<lparr>resPartition = pid, resOffset = LEO lg\<rparr>, b')"
    using assms(4) b1(1) b'(1) by (simp add: produce_one_def Let_def)
  moreover have "(if rqAcks req = '''' then ''1'' else rqAcks req) = ''1''" using assms(3) by auto
  ultimately have "produceLocal e b req = (POk \<lparr>rsTopic = rqTopic req, rsResults = [\<lparr>resPartition = pid, resOffset = LEO lg\<rparr>]\<rparr>, b')"
    using assms(1,2) by (simp add: produceLocal_def Let_def)
  then have "handleProduce e b (Good req) q =
      (Done (Ret (200, BProduce \<lparr>rsTopic = rqTopic req, rsResults = [\<lparr>resPartition = pid, resOffset = LEO lg\<rparr>]\<rparr>)), b')"
    by (simp add: handleProduce_def writeJSON_def json_answer_def)
  moreover have "bcfg b' = bcfg b" "leads b' (rqTopic req) pid (self_id b)"
    using produce_append_env(1,3) [OF b1(1)] maybeSoloHW_env(1,3) [of b1 "rqTopic req" pid] b'(1) assms(5,6)
    by (auto simp: leads_def partition_meta_def)
  moreover have "HighWatermark lg' \<le> LEO lg'" using log_inv_facts(6) [OF b'(3)] by (simp add: HighWatermark_def)
  ultimately show ?thesis using b1(4-7) b'(2-5,7) b'(6) ptr by (intro exI [of _ b'] exI [of _ lg']) auto
qed

text \<open>
  Producing on the leader: with no acknowledgement from replicas asked for, one record for a
  partition that this broker leads is appended once, at the log end, with its key and value;
  the answer is its partition and offset; the log stays well-formed and its high watermark
  does not retreat.
\<close>

theorem produce_appends_once:
  assumes "topic b (rqTopic req) = Some t" "rqRecords req = []" "rqAcks req = ''1'' \<or> rqAcks req = ''''"
    "produce_pid req \<lparr>prKey = rqKey req, prValue = rqValue req, prPartition = rqPartition req\<rparr> (int (length (tPartitions t)))
       (bpartitioner b) = (Some pid, p)"
    "partition_meta b (rqTopic req) pid = Some pm" "pLeader pm = self_id b"
    "Store_Get (bstore b) (rqTopic req) pid = Some lg" "log_inv lg" "LEO lg < max_i64" "in_i64 (fst (ewaits e 0))"
    "25 + length (rqKey req) + length (rqValue req) \<le> 67108864" "eflt e = no_fault"
  shows "\<exists>b' lg'. handleProduce e b (Good req) q =
      (Done (Ret (200, BProduce \<lparr>rsTopic = rqTopic req, rsResults = [\<lparr>resPartition = pid, resOffset = LEO lg\<rparr>]\<rparr>)), b')
    \<and> Store_Get (bstore b') (rqTopic req) pid = Some lg' \<and> log_inv lg'
    \<and> contents lg' = contents lg @ [\<lparr>Offset = LEO lg, Timestamp = fst (ewaits e 0), Key = rqKey req, Value = rqValue req\<rparr>]
    \<and> HighWatermark lg \<le> HighWatermark lg' \<and> bpartitioner b' = p"
  using produce_on_leader [OF assms, of q] by blast

theorem produce_appends_once_witness:
  "\<exists>l b' lg'. Log_Open no_fault small_cfg [] = Inr l
    \<and> handleProduce example_env (example_broker 1 l) (Good (example_request ''1'')) no_query =
      (Done (Ret (200, BProduce \<lparr>rsTopic = ''t'', rsResults = [\<lparr>resPartition = 0, resOffset = 0\<rparr>]\<rparr>)), b')
    \<and> Store_Get (bstore b') ''t'' 0 = Some lg' \<and> contents lg' = [\<lparr>Offset = 0, Timestamp = 7, Key = [], Value = [118]\<rparr>]"
proof -
  obtain l where l: "Log_Open no_fault small_cfg [] = Inr l" "log_inv l" "LEO l = 0" "contents l = []" by (rule example_leader)
  let ?req = "example_request ''1''" and ?t = "\<lparr>tName = ''t'', tPartitions = [\<lparr>pID = 0, pLeader = 1, pReplicas = [1, 2], pISR = [1 :: int]\<rparr>]\<rparr>"
  have "topic (example_broker 1 l) (rqTopic ?req) = Some ?t"
    by (simp add: topic_def example_broker_def example_request_def Let_def)
  note p = produce_appends_once [OF this, where pid = 0 and p = "\<lparr>rr = 1\<rparr>" and lg = l and e = example_env and q = no_query]
  show ?thesis using p l example_pid [of "''1''" l] by (fastforce simp: example_request_def example_env_def in_i64_def)
qed

section \<open>A batch across leaders\<close>

definition two_records :: "string \<Rightarrow> ProduceRecord \<Rightarrow> ProduceRecord \<Rightarrow> ProduceRequest" where
  "two_records tn r1 r2 = \<lparr>rqTopic = tn, rqPartition = 0, rqKey = [], rqValue = [], rqAcks = ''1'', rqRecords = [r1, r2]\<rparr>"

lemma explicit_pid:
  assumes "0 < prPartition r" "prPartition r < n"
  shows "produce_pid (two_records tn r1 r2) r n p = (Some (prPartition r), p)"
  using assms by (simp add: produce_pid_def two_records_def)

lemma produce_reply_forward:
  assumes "Addr (bcluster b) l \<notin> {'''', cAdvertise (bcfg b)}"
  shows "\<exists>k. produce_reply e b req (NotLeader l) = bind (Client_Produce \<lparr>Brokers = []\<rparr> (Addr (bcluster b) l) req) k"
  using assms by (auto simp: produce_reply_def Let_def)

text \<open>The number of partitions of a topic; no operation on a partition changes it.\<close>

definition nparts :: "Broker \<Rightarrow> string \<Rightarrow> int" where
  "nparts b tn = (case topic b tn of None \<Rightarrow> 0 | Some t \<Rightarrow> int (length (tPartitions t)))"

lemma nparts_cong: "btopics b = btopics c \<Longrightarrow> nparts b tn = nparts c tn"
  by (simp add: nparts_def topic_def)

lemma nparts_simps [simp]: "nparts (b\<lparr>bstore := st\<rparr>) t = nparts b t" "nparts (noteSelfLEO now b tn part leo) t = nparts b t"
  by (simp_all add: nparts_def topic_def noteSelfLEO_def noteReplica_def Let_def)

lemma nparts_set_isr: "nparts (set_isr b tn part isr) t = nparts b t"
  by (auto simp: nparts_def topic_def set_isr_def split: option.splits)

lemma nparts_recomputeHW: "nparts (recomputeHW flt now w b tn part) t = nparts b t"
proof -
  have "nparts (broadcastMetadata now (persistTopicsLocked w (set_isr (b\<lparr>bstore := st\<rparr>) tn part isr))) t = nparts b t" for st isr
    using nparts_cong [of "broadcastMetadata now (persistTopicsLocked w (set_isr (b\<lparr>bstore := st\<rparr>) tn part isr))"
        "set_isr (b\<lparr>bstore := st\<rparr>) tn part isr"] nparts_set_isr [of "b\<lparr>bstore := st\<rparr>"] nparts_cong [of "b\<lparr>bstore := st\<rparr>" b] by simp
  then show ?thesis
    by (auto simp: recomputeHW_def Let_def split: option.splits prod.splits sum.splits intro: nparts_cong)
qed

lemma nparts_produce_append: "produce_append e now b tn pid rec = (r, b') \<Longrightarrow> nparts b' t = nparts b t"
  by (auto simp: produce_append_def nparts_recomputeHW
      split: option.splits prod.splits sum.splits if_splits)

lemma nparts_maybeSoloHW: "nparts (maybeSoloHW b tn pid) t = nparts b t"
  by (auto simp: maybeSoloHW_def split: option.splits intro: nparts_cong)

definition arrivals :: "henv \<Rightarrow> ProduceRequest \<Rightarrow> nat \<Rightarrow> Broker \<Rightarrow> Broker" where
  "arrivals e req n a = ((\<lambda>x. snd (handleProduce e x (Good req) no_query)) ^^ n) a"

definition split_batch :: "Broker \<Rightarrow> Broker \<Rightarrow> string \<Rightarrow> ProduceRecord \<Rightarrow> ProduceRecord \<Rightarrow> bool" where
  "split_batch a b tn r1 r2 \<longleftrightarrow>
     leads a tn (prPartition r1) (self_id a) \<and> leads a tn (prPartition r2) (self_id b) \<and> leads b tn (prPartition r1) (self_id a)
     \<and> self_id a \<noteq> self_id b \<and> 0 < prPartition r1 \<and> 0 < prPartition r2
     \<and> prPartition r1 < nparts a tn \<and> prPartition r2 < nparts a tn \<and> prPartition r1 < nparts b tn
     \<and> Addr (bcluster a) (self_id b) \<noteq> '''' \<and> Addr (bcluster a) (self_id b) \<noteq> cAdvertise (bcfg a)
     \<and> Addr (bcluster b) (self_id a) \<noteq> '''' \<and> Addr (bcluster b) (self_id a) \<noteq> cAdvertise (bcfg b)
     \<and> 25 + length (prKey r1) + length (prValue r1) \<le> 67108864"

lemma not_leader_append:
  "leads b tn pid l \<Longrightarrow> l \<noteq> self_id b \<Longrightarrow> produce_append e now b tn pid rec = (Inl (NotLeader l), b)"
  by (auto simp: produce_append_def leads_def)

lemma produceLocal_two:
  "0 < nparts b tn \<Longrightarrow> produceLocal e b (two_records tn r1 r2) =
     produce_loop e (two_records tn r1 r2) ''1'' (nparts b tn) 0 [r1, r2] [] b"
  by (auto simp: produceLocal_def nparts_def two_records_def split: option.splits)

lemma rqTopic_two [simp]: "rqTopic (two_records tn r1 r2) = tn"
  by (simp add: two_records_def)

lemma a_arrival:
  assumes sp: "split_batch a b tn r1 r2" and lg: "Store_Get (bstore a) tn (prPartition r1) = Some lg" "log_inv lg" "LEO lg < max_i64"
    and e: "eflt e = no_fault" "in_i64 (fst (ewaits e 0))"
  shows "\<exists>a' k lg'. handleProduce e a (Good (two_records tn r1 r2)) no_query =
      (Done (bind (Client_Produce \<lparr>Brokers = []\<rparr> (Addr (bcluster a) (self_id b)) (two_records tn r1 r2)) k), a')
    \<and> split_batch a' b tn r1 r2 \<and> Store_Get (bstore a') tn (prPartition r1) = Some lg' \<and> log_inv lg' \<and> LEO lg' = LEO lg + 1
    \<and> contents lg' = contents lg @ [\<lparr>Offset = LEO lg, Timestamp = fst (ewaits e 0), Key = prKey r1, Value = prValue r1\<rparr>]"
proof -
  note s = sp [unfolded split_batch_def]
  obtain pm where pm: "partition_meta a tn (prPartition r1) = Some pm" "pLeader pm = self_id a"
    using s by (auto simp: leads_def)
  obtain a1 l1 where a1: "produce_append e (fst (ewaits e 0)) a tn (prPartition r1) r1 = (Inr (LEO lg), a1)"
      "Store_Get (bstore a1) tn (prPartition r1) = Some l1" "log_inv l1" "LEO l1 = LEO lg + 1"
      "contents l1 = contents lg @ [\<lparr>Offset = LEO lg, Timestamp = fst (ewaits e 0), Key = prKey r1, Value = prValue r1\<rparr>]"
    using produce_append_leader [OF pm lg e(2) _ e(1), of r1] s by auto
  define a2 where "a2 = maybeSoloHW a1 tn (prPartition r1)"
  obtain l2 where l2: "Store_Get (bstore a2) tn (prPartition r1) = Some l2" "log_inv l2" "contents l2 = contents l1" "LEO l2 = LEO l1"
    using maybeSoloHW_log [OF a1(2,3)] by (auto simp: a2_def)
  note env = produce_append_env [OF a1(1)] maybeSoloHW_env [of a1 tn "prPartition r1", folded a2_def]
      nparts_produce_append [OF a1(1)] nparts_maybeSoloHW [of a1 tn "prPartition r1", folded a2_def]
  have sp2: "split_batch a2 b tn r1 r2" using s env by (simp add: split_batch_def)
  let ?req = "two_records tn r1 r2"
  have bp [simp]: "x\<lparr>bpartitioner := bpartitioner x\<rparr> = x" for x :: Broker by simp
  have one1: "produce_one e ?req ''1'' (nparts a tn) (fst (ewaits e 0)) (snd (ewaits e 0)) r1 a =
      (OneOk \<lparr>resPartition = prPartition r1, resOffset = LEO lg\<rparr>, a2)"
    using s a1(1) by (simp add: produce_one_def explicit_pid a2_def)
  have "leads a2 tn (prPartition r2) (self_id b)" "self_id b \<noteq> self_id a2" using s env by auto
  then have one2: "produce_one e ?req ''1'' (nparts a tn) (fst (ewaits e 1)) (snd (ewaits e 1)) r2 a2 =
      (OneErr (NotLeader (self_id b)), a2)"
    using s not_leader_append by (simp add: produce_one_def explicit_pid)
  have "produceLocal e a ?req = (PErr \<lparr>rsTopic = tn, rsResults = [\<lparr>resPartition = prPartition r1, resOffset = LEO lg\<rparr>]\<rparr> (NotLeader (self_id b)), a2)"
    using produceLocal_two [of a tn e r1 r2] s one1 one2 by simp
  moreover obtain k where "produce_reply e a2 ?req (NotLeader (self_id b)) =
      bind (Client_Produce \<lparr>Brokers = []\<rparr> (Addr (bcluster a2) (self_id b)) ?req) k"
    using produce_reply_forward [of a2 "self_id b" e ?req] s env by auto
  ultimately have "handleProduce e a (Good ?req) no_query =
      (Done (bind (Client_Produce \<lparr>Brokers = []\<rparr> (Addr (bcluster a) (self_id b)) ?req) k), a2)"
    using env by (simp add: handleProduce_def Let_def)
  then show ?thesis using sp2 l2 a1(4,5) by (intro exI [of _ a2] exI [of _ k] exI [of _ l2]) simp
qed

lemma arrivals_copies:
  assumes "split_batch a b tn r1 r2" "Store_Get (bstore a) tn (prPartition r1) = Some lg" "log_inv lg" "LEO lg + int n \<le> max_i64"
    "eflt e = no_fault" "in_i64 (fst (ewaits e 0))"
  shows "\<exists>lg'. split_batch (arrivals e (two_records tn r1 r2) n a) b tn r1 r2
    \<and> Store_Get (bstore (arrivals e (two_records tn r1 r2) n a)) tn (prPartition r1) = Some lg' \<and> log_inv lg' \<and> LEO lg' = LEO lg + int n
    \<and> contents lg' = contents lg @ map (\<lambda>i. \<lparr>Offset = LEO lg + int i, Timestamp = fst (ewaits e 0), Key = prKey r1, Value = prValue r1\<rparr>) [0..<n]"
  using assms(4)
proof (induction n)
  case 0
  then show ?case using assms(1-3) by (simp add: arrivals_def)
next
  case (Suc n)
  let ?x = "arrivals e (two_records tn r1 r2) n a"
  obtain l where l: "split_batch ?x b tn r1 r2" "Store_Get (bstore ?x) tn (prPartition r1) = Some l" "log_inv l" "LEO l = LEO lg + int n"
      "contents l = contents lg @ map (\<lambda>i. \<lparr>Offset = LEO lg + int i, Timestamp = fst (ewaits e 0), Key = prKey r1, Value = prValue r1\<rparr>) [0..<n]"
    using Suc by auto
  obtain a' k l' where a': "handleProduce e ?x (Good (two_records tn r1 r2)) no_query = (Done k, a')"
      "split_batch a' b tn r1 r2" "Store_Get (bstore a') tn (prPartition r1) = Some l'" "log_inv l'" "LEO l' = LEO l + 1"
      "contents l' = contents l @ [\<lparr>Offset = LEO l, Timestamp = fst (ewaits e 0), Key = prKey r1, Value = prValue r1\<rparr>]"
    using a_arrival [OF l(1-3) _ assms(5,6)] l(4) Suc.prems by fastforce
  have "arrivals e (two_records tn r1 r2) (Suc n) a = a'" using a'(1) by (simp add: arrivals_def)
  then show ?case using a' l(4,5) by (intro exI [of _ l']) simp
qed

text \<open>
  C37.  A batch whose records belong to two leaders goes round in circles: let broker \<open>a\<close> lead the
  partition of the first record and broker \<open>b\<close> that of the second.  When the request reaches \<open>b\<close>,
  that broker sends it to \<open>a\<close> and stays as it is; when it reaches \<open>a\<close>, that broker appends the
  first record and sends the whole request back to \<open>b\<close>, however often it has been there.  After
  \<open>n\<close> arrivals \<open>a\<close> holds \<open>n\<close> copies of the first record.
\<close>

theorem batch_goes_round:
  assumes "split_batch a b tn r1 r2" "Store_Get (bstore a) tn (prPartition r1) = Some lg" "log_inv lg" "LEO lg + int n < max_i64"
    "eflt e = no_fault" "in_i64 (fst (ewaits e 0))"
  shows "(\<exists>k. handleProduce e b (Good (two_records tn r1 r2)) no_query =
        (Done (bind (Client_Produce \<lparr>Brokers = []\<rparr> (Addr (bcluster b) (self_id a)) (two_records tn r1 r2)) k), b))
    \<and> (\<exists>k. fst (handleProduce e (arrivals e (two_records tn r1 r2) n a) (Good (two_records tn r1 r2)) no_query) =
        Done (bind (Client_Produce \<lparr>Brokers = []\<rparr>
          (Addr (bcluster (arrivals e (two_records tn r1 r2) n a)) (self_id b)) (two_records tn r1 r2)) k))
    \<and> (\<exists>lg'. Store_Get (bstore (arrivals e (two_records tn r1 r2) n a)) tn (prPartition r1) = Some lg'
        \<and> contents lg' = contents lg @ map (\<lambda>i. \<lparr>Offset = LEO lg + int i, Timestamp = fst (ewaits e 0), Key = prKey r1, Value = prValue r1\<rparr>) [0..<n])"
proof -
  let ?req = "two_records tn r1 r2" and ?x = "arrivals e (two_records tn r1 r2) n a"
  note s = assms(1) [unfolded split_batch_def]
  have bp: "b\<lparr>bpartitioner := bpartitioner b\<rparr> = b" by simp
  have "produce_one e ?req ''1'' (nparts b tn) (fst (ewaits e 0)) (snd (ewaits e 0)) r1 b = (OneErr (NotLeader (self_id a)), b)"
    using s not_leader_append [of b tn "prPartition r1" "self_id a"] by (simp add: produce_one_def explicit_pid bp)
  then have "produceLocal e b ?req = (PErr \<lparr>rsTopic = tn, rsResults = []\<rparr> (NotLeader (self_id a)), b)"
    using produceLocal_two [of b tn e r1 r2] s by simp
  then have b: "\<exists>k. handleProduce e b (Good ?req) no_query = (Done (bind (Client_Produce \<lparr>Brokers = []\<rparr> (Addr (bcluster b) (self_id a)) ?req) k), b)"
    using produce_reply_forward [of b "self_id a" e ?req] s by (auto simp: handleProduce_def Let_def)
  obtain l where l: "split_batch ?x b tn r1 r2" "Store_Get (bstore ?x) tn (prPartition r1) = Some l" "log_inv l" "LEO l = LEO lg + int n"
      "contents l = contents lg @ map (\<lambda>i. \<lparr>Offset = LEO lg + int i, Timestamp = fst (ewaits e 0), Key = prKey r1, Value = prValue r1\<rparr>) [0..<n]"
    using arrivals_copies [OF assms(1-3) _ assms(5,6), of n] assms(4) by auto
  have "\<exists>k. fst (handleProduce e ?x (Good ?req) no_query) = Done (bind (Client_Produce \<lparr>Brokers = []\<rparr> (Addr (bcluster ?x) (self_id b)) ?req) k)"
    using a_arrival [OF l(1-3) _ assms(5,6)] l(4) assms(4) by fastforce
  then show ?thesis using b l(2,5) by blast
qed

text \<open>Two brokers that lead partitions 1 and 2 of the topic \<open>u\<close>.\<close>

definition split_broker :: "int \<Rightarrow> Log \<Rightarrow> Broker" where
  "split_broker i l = (example_broker i l)\<lparr>
     bcfg := (bcfg (example_broker i l))\<lparr>cAdvertise := (if i = 1 then ''a'' else ''b'')\<rparr>,
     bcluster := Cluster_New 0 \<lparr>peerID = i, peerAddr = (if i = 1 then ''a'' else ''b'')\<rparr>
       [\<lparr>peerID = 1, peerAddr = ''a''\<rparr>, \<lparr>peerID = 2, peerAddr = ''b''\<rparr>] 0,
     bstore := \<lparr>sroot = [''data''], logCfg = example_cfg, slogs = [(key ''u'' 1, l)], sdisk = []\<rparr>,
     btopics := [(''u'', \<lparr>tName = ''u'', tPartitions = map (\<lambda>(i, l). \<lparr>pID = i, pLeader = l, pReplicas = [1, 2], pISR = [l]\<rparr>) [(0, 1), (1, 1), (2, 2)]\<rparr>)]\<rparr>"

theorem batch_goes_round_witness:
  "let r = (\<lambda>i. \<lparr>prKey = [], prValue = [118], prPartition = i\<rparr>) in
   \<exists>l lg'. Log_Open no_fault small_cfg [] = Inr l
     \<and> Store_Get (bstore (arrivals example_env (two_records ''u'' (r 1) (r 2)) 3 (split_broker 1 l))) ''u'' 1 = Some lg'
     \<and> length (contents lg') = 3"
proof -
  let ?r = "\<lambda>i. \<lparr>prKey = [], prValue = [118 :: byte], prPartition = i\<rparr>"
  obtain l where l: "Log_Open no_fault small_cfg [] = Inr l" "log_inv l" "LEO l = 0" "contents l = []" by (rule example_leader)
  have "split_batch (split_broker 1 l) (split_broker 2 l) ''u'' (?r 1) (?r 2)"
    by (simp add: split_batch_def split_broker_def leads_def partition_meta_def nparts_def topic_def Addr_def Cluster_New_def example_broker_def default_cfg_def Let_def)
  moreover have "Store_Get (bstore (split_broker 1 l)) ''u'' 1 = Some l" by (simp add: split_broker_def Store_Get_def)
  ultimately show ?thesis
    using batch_goes_round [of "split_broker 1 l" "split_broker 2 l" "''u''" "?r 1" "?r 2" l 3 example_env] l
    by (auto simp: Let_def example_env_def in_i64_def)
qed

end
