(* ===== verification/LS_Api.thy ===== *)
theory LS_Api
  imports LS_Serve
begin

text \<open>
  Properties of the HTTP interface as a whole: every answer has the shape that its client
  decodes, and a metadata push carries the metadata over to another broker.
\<close>

section \<open>The shapes of answers\<close>

definition shape :: "request \<Rightarrow> answer_body \<Rightarrow> bool" where
  "shape q body =
     (case q of
        ReqHealth \<Rightarrow> (case body of BHealth i c \<Rightarrow> True | _ \<Rightarrow> False)
      | ReqMetadata \<Rightarrow> as_metadata body \<noteq> None
      | ReqTopics r \<Rightarrow> (case body of BStatus s \<Rightarrow> True | BCreated s \<Rightarrow> True | _ \<Rightarrow> False)
      | ReqProduce r pq \<Rightarrow> as_produce body \<noteq> None
      | ReqFetch fq \<Rightarrow> as_fetch body \<noteq> None
      | ReqJoin g r \<Rightarrow> as_join body \<noteq> None
      | ReqSync g r \<Rightarrow> as_sync body \<noteq> None
      | ReqHeartbeat g r \<Rightarrow> as_heartbeat body \<noteq> None
      | ReqLeave g r \<Rightarrow> (case body of BStatus s \<Rightarrow> True | _ \<Rightarrow> False)
      | ReqCommit g r \<Rightarrow> (case body of BStatus s \<Rightarrow> True | _ \<Rightarrow> False)
      | ReqOffsets g t \<Rightarrow> as_offsets body \<noteq> None
      | ReqPeer r \<Rightarrow> (case body of BPeer i c \<Rightarrow> True | _ \<Rightarrow> False)
      | ReqPush r \<Rightarrow> (case body of BStatus s \<Rightarrow> True | _ \<Rightarrow> False)
      | ReqReplicaFetch fq \<Rightarrow> as_fetch body \<noteq> None
      | ReqAck r \<Rightarrow> (case body of BStatus s \<Rightarrow> True | _ \<Rightarrow> False))"

text \<open>Success with the right shape, or an error status with a body that has an error field.\<close>

definition well_typed :: "request \<Rightarrow> response \<Rightarrow> bool" where
  "well_typed q r \<longleftrightarrow>
     (if fst r \<ge> 400 then (case snd r of BError e \<Rightarrow> True | BHeartbeat h \<Rightarrow> True | _ \<Rightarrow> False) else shape q (snd r))"

primrec returns :: "(request \<Rightarrow> response \<Rightarrow> bool) \<Rightarrow> ('r \<Rightarrow> bool) \<Rightarrow> 'r prog \<Rightarrow> bool" where
  "returns T P (Ret x) \<longleftrightarrow> P x"
| "returns T P (Call a q k) \<longleftrightarrow> (\<forall>ans. (\<forall>r. ans = Some r \<longrightarrow> T q r) \<longrightarrow> returns T P (k ans))"

lemma returns_bind: "(\<And>x. returns T P (f x)) \<Longrightarrow> returns T P (bind p f)"
  by (induction p) auto

lemmas reply_shapes = well_typed_def shape_def writeJSON_def writeErr_def json_answer_def as_metadata_def as_produce_def as_fetch_def
  as_join_def as_sync_def as_heartbeat_def as_offsets_def

lemma forwardGroup_typed: "forwardGroup e b q = Some p \<Longrightarrow> returns well_typed (well_typed q) p"
  by (auto simp: forwardGroup_def Let_def reply_shapes split: if_splits option.splits)

lemma on_controller_typed:
  assumes "on_controller e b q (r, b1) = (Done p, b')" "well_typed q r"
  shows "returns well_typed (well_typed q) p"
  using assms forwardGroup_typed by (auto simp: on_controller_def split: option.splits)

lemma produce_reply_typed: "returns well_typed (well_typed (ReqProduce body pq)) (produce_reply e b req err)"
  by (cases err) (auto simp: produce_reply_def Let_def reply_shapes intro!: returns_bind split: sum.splits)

lemma handleProduce_typed:
  "handleProduce e b body pq = (Done p, b') \<Longrightarrow> returns well_typed (well_typed (ReqProduce body pq)) p"
  by (auto simp: handleProduce_def Let_def produce_reply_typed reply_shapes split: if_splits prod.splits presult.splits)

lemma serveFetch_typed:
  assumes "serveFetch e b fq replica = (Done p, b')" "\<And>r. shape q (BFetch r)"
  shows "returns well_typed (well_typed q) p"
  using assms by (auto simp: serveFetch_def Let_def well_typed_def writeJSON_def writeErr_def json_answer_def intro!: returns_bind
      split: if_splits prod.splits sum.splits option.splits)

lemma handleCreateTopic_typed:
  "handleCreateTopic e b body = (Done p, b') \<Longrightarrow> returns well_typed (well_typed (ReqTopics body)) p"
  by (auto simp: handleCreateTopic_def Let_def reply_shapes intro!: returns_bind
      split: body.splits if_splits option.splits sum.splits)

text \<open>
  C28.  The interface is typed: whatever the request and the state of the broker, every answer of
  the routes is either a success with the body that the client of this request decodes, or an
  error status with an error body, given that the brokers called on the way answer so too.
\<close>

theorem answers_well_typed:
  assumes "serve e b q = (Done p, b')"
  shows "returns well_typed (well_typed q) p"
proof (cases q)
  case (ReqJoin g r)
  then show ?thesis using assms by (auto simp: serve_def handleJoin_def Let_def reply_shapes split: prod.splits elim!: on_controller_typed)
next
  case (ReqSync g r)
  then show ?thesis using assms
    by (auto simp: serve_def handleSync_def Let_def reply_shapes split: prod.splits option.splits elim!: on_controller_typed)
next
  case (ReqHeartbeat g r)
  then show ?thesis using assms
    by (auto simp: serve_def handleHeartbeat_def Let_def reply_shapes split: prod.splits option.splits elim!: on_controller_typed)
next
  case (ReqLeave g r)
  then show ?thesis using assms by (auto simp: serve_def handleLeave_def reply_shapes elim!: on_controller_typed)
next
  case (ReqCommit g r)
  then show ?thesis using assms
    by (auto simp: serve_def handleCommitOffsets_def Let_def reply_shapes split: prod.splits option.splits body.splits elim!: on_controller_typed)
next
  case (ReqOffsets g t)
  then show ?thesis using assms by (auto simp: serve_def handleFetchOffsets_def reply_shapes elim!: on_controller_typed)
next
  case (ReqProduce r pq)
  then show ?thesis using assms handleProduce_typed by (simp add: serve_def)
next
  case (ReqTopics r)
  then show ?thesis using assms handleCreateTopic_typed by (simp add: serve_def)
next
  case (ReqFetch fq)
  then show ?thesis using assms serveFetch_typed by (auto simp: serve_def handleFetch_def shape_def as_fetch_def)
next
  case (ReqReplicaFetch fq)
  then show ?thesis using assms serveFetch_typed by (auto simp: serve_def handleReplicaFetch_def shape_def as_fetch_def)
qed (use assms in \<open>auto simp: serve_def handleHealth_def handleMetadata_def handlePeerHeartbeat_def handleMetadataPush_def
    handleReplicaAck_def Let_def reply_shapes split: body.splits\<close>)

theorem answers_well_typed_witness:
  "\<exists>l p b'. Log_Open no_fault small_cfg [] = Inr l
    \<and> serve example_env (example_broker 1 l) (ReqLeave ''g'' (Good \<lparr>lqMemberID = ''m''\<rparr>)) = (Done p, b')
    \<and> returns well_typed (well_typed (ReqLeave ''g'' (Good \<lparr>lqMemberID = ''m''\<rparr>))) p"
proof -
  obtain l where l: "Log_Open no_fault small_cfg [] = Inr l" using example_leader by metis
  obtain p b' where s: "serve example_env (example_broker 1 l) (ReqLeave ''g'' (Good \<lparr>lqMemberID = ''m''\<rparr>)) = (Done p, b')"
    by (cases "forwardGroup example_env (example_broker 1 l) (ReqLeave ''g'' (Good \<lparr>lqMemberID = ''m''\<rparr>))")
      (auto simp: serve_def handleLeave_def on_controller_def)
  from answers_well_typed [OF s] s l show ?thesis by blast
qed

section \<open>Pushing and reloading metadata\<close>

lemma map_of_same_set:
  assumes "go_map m" "go_map m'" "set m = set m'"
  shows "map_of m = map_of m'"
proof
  fix k
  have "map_of m k = Some v \<longleftrightarrow> map_of m' k = Some v" for v using assms by (metis go_map_map_of map_of_SomeD)
  then show "map_of m k = map_of m' k" by (metis not_Some_eq)
qed

definition by_name :: "topicMeta list \<Rightarrow> (string \<times> topicMeta) list" where
  "by_name ts = map (\<lambda>t. (tName t, t)) ts"

lemma snapshot_by_name:
  assumes "topics_ok b"
  shows "distinct (map tName (snapshotTopics b))" "map_of (by_name (snapshotTopics b)) = map_of (btopics b)"
    "\<forall>t\<in>set (snapshotTopics b). map_of (btopics b) (tName t) = Some t"
proof -
  have nm: "tName t = k" if "(k, t) \<in> set (btopics b)" for k t
    using assms that by (auto simp: topics_ok_def topic_ok_def list_all_iff)
  have "map tName (map snd (btopics b)) = mkeys (btopics b)" using nm by (auto simp: mkeys_def)
  then have "distinct (map tName (map snd (btopics b)))" using assms by (simp add: topics_ok_def go_map_def)
  moreover have "mset (map tName (snapshotTopics b)) = mset (map tName (map snd (btopics b)))"
    by (simp only: snapshotTopics_def mset_map mset_sort)
  ultimately show d: "distinct (map tName (snapshotTopics b))" by (metis mset_eq_imp_distinct_iff)
  have "set (by_name (snapshotTopics b)) = set (btopics b)"
  proof (rule set_eqI, clarify)
    fix k t
    show "(k, t) \<in> set (by_name (snapshotTopics b)) \<longleftrightarrow> (k, t) \<in> set (btopics b)"
      using nm by (auto simp: by_name_def snapshotTopics_def) force
  qed
  moreover have "go_map (by_name (snapshotTopics b))" using d by (simp add: go_map_def mkeys_def by_name_def comp_def)
  ultimately show "map_of (by_name (snapshotTopics b)) = map_of (btopics b)"
    using assms by (intro map_of_same_set) (simp_all add: topics_ok_def)
  show "\<forall>t\<in>set (snapshotTopics b). map_of (btopics b) (tName t) = Some t"
    using assms nm by (auto simp: snapshotTopics_def topics_ok_def intro: go_map_map_of)
qed

lemma partition_meta_in:
  assumes "topic_ok k t" "p \<in> set (tPartitions t)"
  shows "find (\<lambda>x. pID x = pID p) (tPartitions t) = Some p"
proof -
  have "find (\<lambda>x. pID x = pID p) (tPartitions t) \<noteq> None" using assms(2) by (auto simp: find_None_iff)
  then obtain x where x: "find (\<lambda>x. pID x = pID p) (tPartitions t) = Some x" by blast
  then have "x \<in> set (tPartitions t)" "pID x = pID p" by (auto simp: find_Some_iff)
  then have "x = p" using assms inj_onD [of pID "set (tPartitions t)" x p] by (simp add: topic_ok_def distinct_map)
  then show ?thesis using x by simp
qed

lemma push_topics_push: "push_topics (metadataPush now b) = snapshotTopics b"
  by (simp add: push_topics_def metadataPush_def toPartitionInfo_def comp_def map_idI)

lemma fresh_name: "distinct (map tName (t # ts)) \<Longrightarrow> u \<in> set ts \<Longrightarrow> tName u \<noteq> tName t" for t u :: topicMeta
  by simp (metis image_eqI)

lemma fold_mput_new:
  assumes "distinct (map tName ts)" "\<forall>t\<in>set ts. map_of m (tName t) = None"
  shows "foldl (\<lambda>m t. mput (tName t) t m) m ts = m @ by_name ts"
  using assms
proof (induction ts arbitrary: m)
  case (Cons t ts)
  have "\<forall>u\<in>set ts. map_of (m @ [(tName t, t)]) (tName u) = None"
    using Cons.prems fresh_name [OF Cons.prems(1)] by (simp add: map_add_def)
  then show ?case using Cons.IH [of "m @ [(tName t, t)]"] Cons.prems by (simp add: mput_new by_name_def)
qed (simp add: by_name_def)

lemma fold_apply_topic_new:
  assumes "distinct (map tName ts)" "\<forall>t\<in>set ts. map_of (btopics c) (tName t) = None"
    "\<forall>t\<in>set ts. \<forall>p\<in>set (tPartitions t). pISR p \<noteq> [] \<and> (\<forall>r\<in>set (pISR p). r = self_id c \<or> IsAlive now (bcluster c) r)"
  shows "btopics (foldl (apply_topic now) c ts) = btopics c @ by_name ts"
  using assms
proof (induction ts arbitrary: c)
  case (Cons t ts)
  have "apply_partition (self_id c) ctl (IsAlive now (bcluster c)) None p = p" if "p \<in> set (tPartitions t)" for ctl p
  proof -
    have "filter (\<lambda>i. i = self_id c \<or> IsAlive now (bcluster c) i) (pISR p) = pISR p" "pISR p \<noteq> []"
      using Cons.prems(3) that by (auto simp: filter_id_conv)
    then show ?thesis by (simp add: apply_partition_def filterAlive_def Let_def)
  qed
  then have "apply_topic now c t = c\<lparr>btopics := btopics c @ [(tName t, t)]\<rparr>"
    using Cons.prems(2) by (simp add: apply_topic_def mput_new map_idI Let_def)
  then show ?case using Cons.IH [of "c\<lparr>btopics := btopics c @ [(tName t, t)]\<rparr>"] Cons.prems fresh_name [OF Cons.prems(1)]
    by (simp add: by_name_def map_add_def)
qed (simp add: by_name_def)

text \<open>
  A metadata push carries the metadata over: a broker without topics that handles the push
  of a well-formed broker, all of whose in-sync replicas it takes to be alive, has the same
  metadata for every partition; and if its metadata file could be written, so has the broker
  after a restart from that file.
\<close>

theorem push_carries_metadata:
  assumes "topics_ok b" "btopics c = []"
    "\<forall>tn i p. partition_meta b tn i = Some p \<longrightarrow> (\<forall>r\<in>set (pISR p). r = self_id c \<or> IsAlive (enow e) (bcluster c) r)"
  shows "\<exists>c'. handleMetadataPush e c (Good (metadataPush now b)) = (Done (Ret (200, BStatus ''ok'')), c')
    \<and> partition_meta c' = partition_meta b
    \<and> (ewr e \<longrightarrow> (\<exists>d'. loadTopics (d\<lparr>btopics := [], topicsFile := topicsFile c'\<rparr>) = Some d' \<and> partition_meta d' = partition_meta b))"
proof -
  let ?ts = "snapshotTopics b"
  note sn = snapshot_by_name [OF assms(1)]
  have al: "\<forall>t\<in>set ?ts. \<forall>p\<in>set (tPartitions t). pISR p \<noteq> [] \<and> (\<forall>r\<in>set (pISR p). r = self_id c \<or> IsAlive (enow e) (bcluster c) r)"
  proof (intro ballI)
    fix t p assume t: "t \<in> set ?ts" and p: "p \<in> set (tPartitions t)"
    have m: "map_of (btopics b) (tName t) = Some t" using sn(3) t by blast
    note tk = topics_okD [OF assms(1) m]
    have "partition_meta b (tName t) (pID p) = Some p" using partition_meta_in [OF tk p] m by (simp add: partition_meta_def)
    then show "pISR p \<noteq> [] \<and> (\<forall>r\<in>set (pISR p). r = self_id c \<or> IsAlive (enow e) (bcluster c) r)"
      using assms(3) tk p by (auto simp: topic_ok_def list_all_iff meta_ok_def)
  qed
  define c1 where "c1 = applyTopics (enow e) (ewr e) c ?ts"
  have bt: "btopics c1 = by_name ?ts"
    using fold_apply_topic_new [OF sn(1) _ al] assms(2) by (simp add: c1_def applyTopics_def)
  have pm: "partition_meta x = partition_meta b" if "map_of (btopics x) = map_of (btopics b)" for x
    using that by (intro ext) (simp add: partition_meta_def)
  have "partition_meta (syncFollowers c1) = partition_meta b"
    by (rule pm) (simp add: syncFollowers_def Let_def bt sn(2))
  moreover have "topicsFile (syncFollowers c1) = JSON (sort_key tName ?ts)" if "ewr e"
    using that bt by (simp add: c1_def applyTopics_def persistTopicsLocked_def syncFollowers_def Let_def by_name_def comp_def)
  moreover have "sort_key tName ?ts = ?ts" by (simp add: snapshotTopics_def sort_key_id_if_sorted)
  moreover have "foldl (\<lambda>m t. mput (tName t) t m) [] ?ts = by_name ?ts" using fold_mput_new [OF sn(1), of "[]"] by simp
  ultimately have "ewr e \<longrightarrow> (\<exists>d'. loadTopics (d\<lparr>btopics := [], topicsFile := topicsFile (syncFollowers c1)\<rparr>) = Some d' \<and> partition_meta d' = partition_meta b)"
    using sn(2) by (auto simp: loadTopics_def intro!: pm)
  then show ?thesis using \<open>partition_meta (syncFollowers c1) = partition_meta b\<close>
    by (intro exI [of _ "syncFollowers c1"]) (simp add: handleMetadataPush_def push_topics_push c1_def writeJSON_def json_answer_def)
qed

theorem push_carries_metadata_witness:
  "\<exists>l c c'. Log_Open no_fault small_cfg [] = Inr l
    \<and> handleMetadataPush example_env c (Good (metadataPush 7 (example_broker 1 l))) = (Done (Ret (200, BStatus ''ok'')), c')
    \<and> partition_meta c' ''t'' 0 = Some \<lparr>pID = 0, pLeader = 1, pReplicas = [1, 2], pISR = [1]\<rparr>"
proof -
  obtain l where l: "Log_Open no_fault small_cfg [] = Inr l" using example_leader by metis
  let ?c = "(example_broker 2 l)\<lparr>btopics := []\<rparr>"
  have "IsAlive 7 (bcluster ?c) 1" by (simp add: example_broker_def IsAlive_def MarkSeen_def Cluster_New_def Let_def)
  then have "\<forall>tn i p. partition_meta (example_broker 1 l) tn i = Some p \<longrightarrow>
      (\<forall>r\<in>set (pISR p). r = self_id ?c \<or> IsAlive (enow example_env) (bcluster ?c) r)"
    by (auto simp: partition_meta_def example_broker_def example_env_def Let_def split: if_splits option.splits)
  from push_carries_metadata [OF example_topics_ok _ this, of 7 ?c] obtain c' where
    c': "handleMetadataPush example_env ?c (Good (metadataPush 7 (example_broker 1 l))) = (Done (Ret (200, BStatus ''ok'')), c')"
      "partition_meta c' = partition_meta (example_broker 1 l)" by auto
  then have "partition_meta c' ''t'' 0 = Some \<lparr>pID = 0, pLeader = 1, pReplicas = [1, 2], pISR = [1]\<rparr>" by simp
  then show ?thesis using c'(1) l by blast
qed

end
