(* ===== verification/LS_Durable.thy ===== *)
theory LS_Durable
  imports LS_Serve
begin

text \<open>
  One partition on all its brokers: the leader serves produce requests, fetches and
  acknowledgements while the followers copy, in any order (\<^verbatim>\<open>src/internal/broker/handlers.go\<close>,
  \<^verbatim>\<open>replica.go\<close>).  Shown are the durability of committed records on the replicas that were in
  sync, and how a replica that is behind becomes in sync again.
\<close>

section \<open>The system\<close>

record repl =
  rLead :: Broker
  rFol :: "int \<Rightarrow> Broker"

definition lead_log :: "string \<Rightarrow> int \<Rightarrow> repl \<Rightarrow> Log" where
  "lead_log tn part c = the (Store_Get (bstore (rLead c)) tn part)"

definition fol_log :: "string \<Rightarrow> int \<Rightarrow> repl \<Rightarrow> int \<Rightarrow> Log" where
  "fol_log tn part c i = the (Store_Get (bstore (rFol c i)) tn part)"

definition isr_of :: "string \<Rightarrow> int \<Rightarrow> repl \<Rightarrow> int list" where
  "isr_of tn part c = pISR (the (partition_meta (rLead c) tn part))"

text \<open>
  The steps: the append of a produce request, the bump of the mark after it, a follower's pass
  served by the leader, an acknowledgement that arrives (late, repeatedly or never), the
  recomputation in the leader's tick, and any change of what the leader knows of the cluster.
\<close>

inductive repl_step :: "string \<Rightarrow> int \<Rightarrow> int set \<Rightarrow> repl \<Rightarrow> repl \<Rightarrow> bool" for tn part F where
  rs_append: "\<lbrakk>produce_append e now (rLead c) tn part rec = (res, lb); eflt e = no_fault; in_i64 now; now \<noteq> 0;
      LEO (lead_log tn part c) < max_i64; 25 + length (prKey rec) + length (prValue rec) \<le> 67108864;
      valid_utf8 (prKey rec); valid_utf8 (prValue rec)\<rbrakk> \<Longrightarrow> repl_step tn part F c (c\<lparr>rLead := lb\<rparr>)"
| rs_solo: "repl_step tn part F c (c\<lparr>rLead := maybeSoloHW (rLead c) tn part\<rparr>)"
| rs_pass: "\<lbrakk>i \<in> F; follow_pass no_fault now (served_net e (rLead c)) (rFol c i) tn part = (res, fb)\<rbrakk>
      \<Longrightarrow> repl_step tn part F c (c\<lparr>rFol := (rFol c)(i := fb)\<rparr>)"
| rs_ack: "\<lbrakk>i \<in> F; MsgAck addr ack \<in> set (outbox (rFol c i)); aTopic ack = tn; aPartition ack = part; eflt e = no_fault;
      handleReplicaAck e (rLead c) (Good ack) = (r, lb)\<rbrakk> \<Longrightarrow> repl_step tn part F c (c\<lparr>rLead := lb\<rparr>)"
| rs_tick: "repl_step tn part F c (c\<lparr>rLead := recomputeHW no_fault now w (rLead c) tn part\<rparr>)"
| rs_cluster: "repl_step tn part F c (c\<lparr>rLead := (rLead c)\<lparr>bcluster := cl\<rparr>\<rparr>)"

text \<open>
  A leader with a log, followers whose logs are prefixes of it, and no acknowledgement, under
  way or on record, beyond the log of the follower that sent it.
\<close>

definition lead_ok :: "string \<Rightarrow> int \<Rightarrow> int set \<Rightarrow> Broker \<Rightarrow> bool" where
  "lead_ok tn part F b \<longleftrightarrow>
     (\<exists>pm lg. partition_meta b tn part = Some pm \<and> pLeader pm = self_id b \<and> distinct (pReplicas pm)
        \<and> set (pReplicas pm) \<subseteq> insert (self_id b) F \<and> set (pISR pm) \<subseteq> insert (self_id b) F
        \<and> Store_Get (bstore b) tn part = Some lg \<and> log_inv lg \<and> (\<forall>r\<in>set (contents lg). storable r \<and> text_rec r))
     \<and> self_id b \<notin> F"

definition fol_ok :: "string \<Rightarrow> int \<Rightarrow> repl \<Rightarrow> int \<Rightarrow> bool" where
  "fol_ok tn part c i \<longleftrightarrow>
     (\<exists>addr foll. follower_of (rFol c i) tn part addr (lead_log tn part c) foll \<and> self_id (rFol c i) = i
        \<and> (\<forall>a ack. MsgAck a ack \<in> set (outbox (rFol c i)) \<and> aTopic ack = tn \<and> aPartition ack = part \<longrightarrow>
             aBrokerID ack = i \<and> aLEO ack \<le> LEO foll)
        \<and> (\<forall>st. map_of (states_of (rLead c) tn part) i = Some st \<longrightarrow> rleo st \<le> LEO foll))"

definition repl_ok :: "string \<Rightarrow> int \<Rightarrow> int set \<Rightarrow> repl \<Rightarrow> bool" where
  "repl_ok tn part F c \<longleftrightarrow> in_i64 part \<and> lead_ok tn part F (rLead c) \<and> (\<forall>i\<in>F. fol_ok tn part c i)"

section \<open>What the leader's operations do\<close>

text \<open>
  From \<open>b\<close> to \<open>b'\<close> the log of the leader only grows, an acknowledgement that is new on record
  is at most \<open>bound\<close>, and if the mark advances, the replicas in sync have acknowledged it.
\<close>

definition lead_to :: "string \<Rightarrow> int \<Rightarrow> int set \<Rightarrow> (int \<Rightarrow> int) \<Rightarrow> Broker \<Rightarrow> Broker \<Rightarrow> bool" where
  "lead_to tn part F bound b b' \<longleftrightarrow>
     lead_ok tn part F b' \<and> self_id b' = self_id b
     \<and> (\<exists>lg lg' pm'. Store_Get (bstore b) tn part = Some lg \<and> Store_Get (bstore b') tn part = Some lg'
          \<and> partition_meta b' tn part = Some pm' \<and> start lg' = start lg \<and> prefix (contents lg) (contents lg')
          \<and> HighWatermark lg \<le> HighWatermark lg'
          \<and> (HighWatermark lg < HighWatermark lg' \<longrightarrow>
               (\<forall>i\<in>set (pISR pm'). i \<noteq> self_id b \<longrightarrow>
                  (\<exists>st. map_of (states_of b' tn part) i = Some st \<and> HighWatermark lg' \<le> rleo st))))
     \<and> (\<forall>i st. i \<in> F \<and> map_of (states_of b' tn part) i = Some st \<longrightarrow>
          map_of (states_of b tn part) i = Some st \<or> rleo st \<le> bound i)"

lemma lead_to_trans:
  assumes "lead_to tn part F bound a b" "lead_to tn part F bound b c"
    "log_hw b tn part = log_hw a tn part"
  shows "lead_to tn part F bound a c"
  using assms unfolding lead_to_def log_hw_def
  by (elim conjE exE) (intro conjI; fastforce intro: prefix_order.trans)

lemma self_recomputeHW: "self_id (recomputeHW flt now w b tn part) = self_id b"
  by (simp add: recomputeHW_def broadcastMetadata_def persistTopicsLocked_def set_isr_def Let_def
      split: option.splits prod.splits sum.splits)

lemma recompute_lead_to:
  assumes "lead_ok tn part F b"
  shows "lead_to tn part F bound b (recomputeHW no_fault now w b tn part)"
proof -
  obtain pm lg where b: "partition_meta b tn part = Some pm" "pLeader pm = self_id b" "distinct (pReplicas pm)"
      "set (pReplicas pm) \<subseteq> insert (self_id b) F" "set (pISR pm) \<subseteq> insert (self_id b) F" "Store_Get (bstore b) tn part = Some lg"
      "log_inv lg" "\<forall>r\<in>set (contents lg). storable r \<and> text_rec r" "self_id b \<notin> F"
    using assms by (auto simp: lead_ok_def)
  let ?b' = "recomputeHW no_fault now w b tn part"
  let ?lg' = "SetHighWatermark lg (compute_hw b tn part (LEO lg) (compute_isr now b tn pm))"
  let ?pm' = "if sameInts (pISR pm) (compute_isr now b tn pm) then pm else pm\<lparr>pISR := compute_isr now b tn pm\<rparr>"
  note rc = recomputeHW_leader [OF b(1,2,6), of now w]
  note v = SetHighWatermark_value [OF b(7)]
  obtain lg' pm' where hw: "Store_Get (bstore ?b') tn part = Some lg'" "partition_meta ?b' tn part = Some pm'"
      "HighWatermark lg \<le> HighWatermark lg'"
      "\<forall>i\<in>set (pISR pm'). i \<noteq> self_id b \<longrightarrow> i \<in> set (pReplicas pm)
        \<and> (\<exists>st. map_of (states_of b tn part) i = Some st \<and> (HighWatermark lg < HighWatermark lg' \<longrightarrow> HighWatermark lg' \<le> rleo st))"
    using recomputeHW_mark [OF b(1,2,3,6,7), of now w] by blast
  have lg': "lg' = ?lg'" "pm' = ?pm'" using hw(1,2) rc by simp_all
  have isr: "set (pISR pm') \<subseteq> insert (self_id b) F" using hw(4) b(4) by blast
  have "lead_ok tn part F ?b'"
    using hw(1,2) b v(2) isr by (auto simp: lead_ok_def self_recomputeHW lg')
  then show ?thesis
    using hw lg' b(6) by (auto simp: lead_to_def self_recomputeHW states_of_recomputeHW)
qed


lemma append_lead_to:
  assumes ok: "lead_ok tn part F b" and pa: "produce_append e now b tn part rec = (res, b')" "eflt e = no_fault"
    and fits: "in_i64 now" "now \<noteq> 0" "LEO (the (Store_Get (bstore b) tn part)) < max_i64"
      "25 + length (prKey rec) + length (prValue rec) \<le> 67108864" "valid_utf8 (prKey rec)" "valid_utf8 (prValue rec)"
  shows "lead_to tn part F bound b b'"
proof -
  obtain pm lg where b: "partition_meta b tn part = Some pm" "pLeader pm = self_id b" "distinct (pReplicas pm)"
      "set (pReplicas pm) \<subseteq> insert (self_id b) F" "set (pISR pm) \<subseteq> insert (self_id b) F" "Store_Get (bstore b) tn part = Some lg"
      "log_inv lg" "\<forall>r\<in>set (contents lg). storable r \<and> text_rec r" "self_id b \<notin> F"
    using ok by (auto simp: lead_ok_def)
  have room: "LEO lg < max_i64" using fits(3) b(6) by simp
  obtain l1 where l1: "Log_Append no_fault now lg (prKey rec) (prValue rec) = (Inr (LEO lg), l1)" "log_inv l1"
      "contents l1 = contents lg @ [\<lparr>Offset = LEO lg, Timestamp = now, Key = prKey rec, Value = prValue rec\<rparr>]"
      "LEO l1 = LEO lg + 1" "HighWatermark l1 = HighWatermark lg"
    using Log_Append_inv [OF b(7) room fits(1,4)] by blast
  have st: "start l1 = start lg" using log_inv_facts(1) [OF l1(2)] log_inv_facts(1) [OF b(7)] l1(3,4) by simp
  have new: "\<forall>r\<in>set (contents l1). storable r \<and> text_rec r"
    using b(8) l1(3) fits room log_inv_facts [OF b(7)]
    by (auto simp: storable_def text_rec_def valid_rec_def EncodedSize_def in_i64_def)
  define c where "c = noteSelfLEO now (b\<lparr>bstore := Store_put (bstore b) tn part l1\<rparr>) tn part (LEO l1)"
  have b': "b' = recomputeHW no_fault now (ewr e) c tn part"
    using pa b(1,2) l1(1) Store_Open_get [OF b(6)] by (simp add: produce_append_def c_def)
  have c: "lead_ok tn part F c" "Store_Get (bstore c) tn part = Some l1" "self_id c = self_id b" "partition_meta c tn part = Some pm"
    using b l1(2) new by (auto simp: lead_ok_def c_def)
  have sts: "map_of (states_of c tn part) i = map_of (states_of b tn part) i" if "i \<in> F" for i
    using that b(9) by (auto simp: c_def noteSelfLEO_def noteReplica_def states_of_def Let_def split: option.splits)
  have "lead_to tn part F bound b c"
    using c b(6) st l1(3,5) sts by (auto simp: lead_to_def)
  then show ?thesis
    using lead_to_trans [OF _ recompute_lead_to [OF c(1), of bound now "ewr e"]] c(2) b(6) l1(5) by (simp add: b' log_hw_def)
qed

lemma solo_lead_to:
  assumes "lead_ok tn part F b"
  shows "lead_to tn part F bound b (maybeSoloHW b tn part)"
proof -
  obtain pm lg where b: "partition_meta b tn part = Some pm" "pLeader pm = self_id b" "distinct (pReplicas pm)"
      "set (pReplicas pm) \<subseteq> insert (self_id b) F" "set (pISR pm) \<subseteq> insert (self_id b) F" "Store_Get (bstore b) tn part = Some lg"
      "log_inv lg" "\<forall>r\<in>set (contents lg). storable r \<and> text_rec r" "self_id b \<notin> F"
    using assms by (auto simp: lead_ok_def)
  note v = SetHighWatermark_value [OF b(7), of "LEO lg"]
  have sts: "states_of (b\<lparr>bstore := st\<rparr>) = states_of b" for st by (intro ext) (simp add: states_of_def)
  show ?thesis
  proof (cases "pISR pm = [self_id b]")
    case True
    then have m: "maybeSoloHW b tn part = b\<lparr>bstore := Store_put (bstore b) tn part (SetHighWatermark lg (LEO lg))\<rparr>"
      using b(1,6) by (simp add: maybeSoloHW_def)
    have "lead_ok tn part F (maybeSoloHW b tn part)" using b v by (auto simp: lead_ok_def m)
    then show ?thesis using b v True by (auto simp: lead_to_def m sts HighWatermark_def)
  next
    case False
    then have "maybeSoloHW b tn part = b" using b(1) by (simp add: maybeSoloHW_def)
    then show ?thesis using assms b(1,6) by (simp add: lead_to_def)
  qed
qed

lemma ack_lead_to:
  assumes ok: "lead_ok tn part F b" and ack: "handleReplicaAck e b (Good ack) = (r, b')" "eflt e = no_fault"
    "aTopic ack = tn" "aPartition ack = part" "aBrokerID ack = i" "i \<in> F" "aLEO ack \<le> bound i"
  shows "lead_to tn part F bound b b'"
proof -
  define c where "c = noteReplica (enow e) b tn part i (aLEO ack)"
  have b': "b' = recomputeHW no_fault (enow e) (ewr e) c tn part" using ack by (simp add: handleReplicaAck_def c_def)
  have same: "bstore c = bstore b" "self_id c = self_id b" "partition_meta c = partition_meta b"
    by (simp_all add: c_def noteReplica_def Let_def partition_meta_def fun_eq_iff)
  then have ok': "lead_ok tn part F c" using ok by (simp add: lead_ok_def)
  have sts: "map_of (states_of c tn part) j =
      (if j = i then Some \<lparr>rleo = aLEO ack, rlastSeen = enow e\<rparr> else map_of (states_of b tn part) j)" for j
    by (auto simp: c_def noteReplica_def states_of_def Let_def split: option.splits)
  have "lead_to tn part F bound b c"
    using ok ok' same sts ack(7) by (auto simp: lead_to_def lead_ok_def)
  then show ?thesis
    using lead_to_trans [OF _ recompute_lead_to [OF ok', of bound]] same(1) by (simp add: b' log_hw_def)
qed


section \<open>Every step keeps the system consistent\<close>

lemma repl_okD:
  assumes "repl_ok tn part F c"
  shows "in_i64 part" "lead_ok tn part F (rLead c)" "i \<in> F \<Longrightarrow> fol_ok tn part c i"
  using assms by (simp_all add: repl_ok_def)

lemma fol_okD:
  assumes "fol_ok tn part c i"
  obtains addr where "follower_of (rFol c i) tn part addr (lead_log tn part c) (fol_log tn part c i)" "self_id (rFol c i) = i"
    "\<And>a ack. \<lbrakk>MsgAck a ack \<in> set (outbox (rFol c i)); aTopic ack = tn; aPartition ack = part\<rbrakk>
       \<Longrightarrow> aBrokerID ack = i \<and> aLEO ack \<le> LEO (fol_log tn part c i)"
    "\<And>st. map_of (states_of (rLead c) tn part) i = Some st \<Longrightarrow> rleo st \<le> LEO (fol_log tn part c i)"
proof -
  obtain addr foll where f: "follower_of (rFol c i) tn part addr (lead_log tn part c) foll" "self_id (rFol c i) = i"
        "\<forall>a ack. MsgAck a ack \<in> set (outbox (rFol c i)) \<and> aTopic ack = tn \<and> aPartition ack = part \<longrightarrow>
             aBrokerID ack = i \<and> aLEO ack \<le> LEO foll"
        "\<forall>st. map_of (states_of (rLead c) tn part) i = Some st \<longrightarrow> rleo st \<le> LEO foll"
    using assms by (auto simp: fol_ok_def)
  have "fol_log tn part c i = foll" using f(1) by (simp add: fol_log_def follower_of_def)
  then show ?thesis using that f by blast
qed

lemma lead_change_ok:
  assumes ok: "repl_ok tn part F c" and to: "lead_to tn part F bound (rLead c) lb"
    and bound: "\<And>i. i \<in> F \<Longrightarrow> bound i \<le> LEO (fol_log tn part c i)"
  shows "repl_ok tn part F (c\<lparr>rLead := lb\<rparr>)"
proof -
  have lb: "lead_ok tn part F lb" using to by (simp add: lead_to_def)
  have ll: "start (lead_log tn part (c\<lparr>rLead := lb\<rparr>)) = start (lead_log tn part c)"
      "prefix (contents (lead_log tn part c)) (contents (lead_log tn part (c\<lparr>rLead := lb\<rparr>)))"
    using to by (auto simp: lead_to_def lead_log_def)
  have "fol_ok tn part (c\<lparr>rLead := lb\<rparr>) i" if i: "i \<in> F" for i
  proof -
    from fol_okD [OF repl_okD(3) [OF ok i]] obtain addr where f:
        "follower_of (rFol c i) tn part addr (lead_log tn part c) (fol_log tn part c i)" "self_id (rFol c i) = i"
        "\<And>a ack. \<lbrakk>MsgAck a ack \<in> set (outbox (rFol c i)); aTopic ack = tn; aPartition ack = part\<rbrakk>
           \<Longrightarrow> aBrokerID ack = i \<and> aLEO ack \<le> LEO (fol_log tn part c i)"
        "\<And>st. map_of (states_of (rLead c) tn part) i = Some st \<Longrightarrow> rleo st \<le> LEO (fol_log tn part c i)"
      by blast
    have "follower_of (rFol c i) tn part addr (lead_log tn part (c\<lparr>rLead := lb\<rparr>)) (fol_log tn part c i)"
      using f(1) ll by (auto simp: follower_of_def intro: prefix_order.trans)
    moreover have "rleo st \<le> LEO (fol_log tn part c i)" if "map_of (states_of lb tn part) i = Some st" for st
      using to that i f(4) bound [OF i] by (fastforce simp: lead_to_def)
    ultimately show ?thesis
      using f(2,3) unfolding fol_ok_def by (intro exI [of _ addr] exI [of _ "fol_log tn part c i"]) (simp, blast)
  qed
  then show ?thesis using repl_okD(1) [OF ok] lb by (simp add: repl_ok_def)
qed

lemma pass_ok:
  assumes ok: "repl_ok tn part F c" and i: "i \<in> F"
    and pass: "follow_pass no_fault now (served_net e (rLead c)) (rFol c i) tn part = (res, fb)"
  shows "repl_ok tn part F (c\<lparr>rFol := (rFol c)(i := fb)\<rparr>)"
    and "prefix (contents (fol_log tn part c i)) (contents (fol_log tn part (c\<lparr>rFol := (rFol c)(i := fb)\<rparr>) i))"
proof -
  let ?c = "c\<lparr>rFol := (rFol c)(i := fb)\<rparr>"
  from fol_okD [OF repl_okD(3) [OF ok i]] obtain addr where f:
      "follower_of (rFol c i) tn part addr (lead_log tn part c) (fol_log tn part c i)" "self_id (rFol c i) = i"
      "\<And>a ack. \<lbrakk>MsgAck a ack \<in> set (outbox (rFol c i)); aTopic ack = tn; aPartition ack = part\<rbrakk>
         \<Longrightarrow> aBrokerID ack = i \<and> aLEO ack \<le> LEO (fol_log tn part c i)"
      "\<And>st. map_of (states_of (rLead c) tn part) i = Some st \<Longrightarrow> rleo st \<le> LEO (fol_log tn part c i)"
    by blast
  obtain pm where b: "partition_meta (rLead c) tn part = Some pm" "pLeader pm = self_id (rLead c)"
      "Store_Get (bstore (rLead c)) tn part = Some (lead_log tn part c)" "log_inv (lead_log tn part c)"
      "\<forall>r\<in>set (contents (lead_log tn part c)). storable r \<and> text_rec r"
    using repl_okD(2) [OF ok] by (auto simp: lead_ok_def lead_log_def)
  have g: "log_inv (fol_log tn part c i)" "start (fol_log tn part c i) = start (lead_log tn part c)" "addr \<noteq> ''''"
    using f(1) by (simp_all add: follower_of_def)
  have off: "start (lead_log tn part c) \<le> LEO (fol_log tn part c i)" "in_i64 (LEO (fol_log tn part c i))"
    using log_inv_facts [OF g(1)] g(2) by (simp_all add: in_i64_def)
  obtain fb' foll' where p: "follow_pass no_fault now (served_net e (rLead c)) (rFol c i) tn part = (FollowDone, fb')"
      "follower_of fb' tn part addr (lead_log tn part c) foll'" "prefix (contents (fol_log tn part c i)) (contents foll')"
      "outbox fb' = outbox (rFol c i) @
         [MsgAck addr \<lparr>aBrokerID = self_id (rFol c i), aTopic = tn, aPartition = part, aLEO = LEO foll'\<rparr>]"
    using follow_pass_copy [OF b(4,5) f(1), of "served_net e (rLead c)" now]
      served_is_leader_net [OF b(1-4) repl_okD(1) [OF ok] off(2,1) g(3), of e] by blast
  have fb: "fb' = fb" using p(1) pass by simp
  have fl: "fol_log tn part ?c i = foll'" using p(2) by (simp add: fol_log_def follower_of_def fb)
  have si: "self_id fb = i"
    using pass f(2) by (auto simp: follow_pass_def Let_def split: prod.splits sum.splits option.splits if_splits)
  have le: "LEO (fol_log tn part c i) \<le> LEO foll'"
    using log_inv_facts(1) [OF g(1)] log_inv_facts(1) [of foll'] p(2) g(2) prefix_length_le [OF p(3)]
    by (simp add: follower_of_def)
  show "prefix (contents (fol_log tn part c i)) (contents (fol_log tn part ?c i))" using p(3) fl by simp
  have out: "aBrokerID ack = i \<and> aLEO ack \<le> LEO foll'"
    if m: "MsgAck a ack \<in> set (outbox fb)" "aTopic ack = tn" "aPartition ack = part" for a ack
  proof (cases "MsgAck a ack \<in> set (outbox (rFol c i))")
    case True
    then show ?thesis using f(3) [OF True m(2,3)] le by linarith
  next
    case False
    then show ?thesis using m(1) p(4) f(2) by (simp add: fb)
  qed
  have sts: "rleo st \<le> LEO foll'" if "map_of (states_of (rLead c) tn part) i = Some st" for st
    using f(4) [OF that] le by linarith
  have "lead_log tn part ?c = lead_log tn part c" by (simp add: lead_log_def)
  then have "fol_ok tn part ?c i"
    unfolding fol_ok_def
    using p(2) fb out sts si
    by (intro exI [of _ addr] exI [of _ foll']) (simp, blast)
  moreover have "fol_ok tn part ?c j" if "j \<in> F" "j \<noteq> i" for j
    using repl_okD(3) [OF ok that(1)] that(2) by (simp add: fol_ok_def lead_log_def)
  ultimately show "repl_ok tn part F ?c"
    using repl_okD(1,2) [OF ok] unfolding repl_ok_def by (metis repl.select_convs(1) repl.update_convs(2) repl.surjective)
qed

text \<open>Every step of the leader in the form of \<open>lead_to\<close>, with the followers' log ends as the bound.\<close>

lemma repl_step_cases:
  assumes "repl_step tn part F c c'" "repl_ok tn part F c"
  obtains lb where "c' = c\<lparr>rLead := lb\<rparr>" "lead_to tn part F (\<lambda>i. LEO (fol_log tn part c i)) (rLead c) lb"
    | i now e res fb where "i \<in> F" "follow_pass no_fault now (served_net e (rLead c)) (rFol c i) tn part = (res, fb)"
        "c' = c\<lparr>rFol := (rFol c)(i := fb)\<rparr>"
  using assms(1)
proof cases
  case (rs_append e now rec res lb)
  then show ?thesis using that(1) append_lead_to [OF repl_okD(2) [OF assms(2)] rs_append(2,3,4,5) _ rs_append(7-9)]
    by (simp add: lead_log_def)
next
  case rs_solo
  then show ?thesis using that(1) solo_lead_to [OF repl_okD(2) [OF assms(2)]] by blast
next
  case (rs_pass i now e res fb)
  then show ?thesis using that(2) by blast
next
  case (rs_ack i addr ack e r lb)
  from fol_okD [OF repl_okD(3) [OF assms(2) rs_ack(2)]] rs_ack(3,4,5)
  have "aBrokerID ack = i \<and> aLEO ack \<le> LEO (fol_log tn part c i)" by blast
  then show ?thesis
    using that(1) rs_ack ack_lead_to [OF repl_okD(2) [OF assms(2)] rs_ack(7,6,4,5), of i "\<lambda>i. LEO (fol_log tn part c i)"] by blast
next
  case (rs_tick now w)
  then show ?thesis using that(1) recompute_lead_to [OF repl_okD(2) [OF assms(2)]] by blast
next
  case (rs_cluster cl)
  have st: "states_of ((rLead c)\<lparr>bcluster := cl\<rparr>) = states_of (rLead c)" by (intro ext) (simp add: states_of_def)
  have pm: "partition_meta ((rLead c)\<lparr>bcluster := cl\<rparr>) = partition_meta (rLead c)" by (intro ext) (simp add: partition_meta_def)
  have "lead_to tn part F (\<lambda>i. LEO (fol_log tn part c i)) (rLead c) ((rLead c)\<lparr>bcluster := cl\<rparr>)"
    using repl_okD(2) [OF assms(2)] by (auto simp: lead_to_def lead_ok_def st pm)
  then show ?thesis using that(1) rs_cluster by blast
qed

lemma repl_step_ok: "repl_step tn part F c c' \<Longrightarrow> repl_ok tn part F c \<Longrightarrow> repl_ok tn part F c'"
  by (erule repl_step_cases) (auto intro: lead_change_ok pass_ok(1))

lemma repl_steps_ok: "(repl_step tn part F)\<^sup>*\<^sup>* c c' \<Longrightarrow> repl_ok tn part F c \<Longrightarrow> repl_ok tn part F c'"
  by (induction rule: rtranclp_induct) (auto intro: repl_step_ok)


section \<open>Durability\<close>

text \<open>The committed records of a log.\<close>

definition committed :: "Log \<Rightarrow> Record list" where
  "committed l = filter (\<lambda>r. Offset r < HighWatermark l) (contents l)"

lemma consec_filter: "consec s xs \<Longrightarrow> filter (\<lambda>r. Offset r < h) xs = take (nat (h - s)) xs"
proof (induction xs arbitrary: s)
  case (Cons x xs)
  have x: "Offset x = s" using Cons.prems by (auto simp: consec_def)
  have xs: "consec (s + 1) xs" using Cons.prems by (fastforce simp: consec_def nth_Cons split: nat.splits)
  have "filter (\<lambda>r. Offset r < h) xs = take (nat (h - (s + 1))) xs" by (rule Cons.IH [OF xs])
  moreover have "nat (h - s) = (if s < h then Suc (nat (h - (s + 1))) else 0)" by auto
  ultimately show ?case using x by auto
qed simp

lemma committed_take: "log_inv l \<Longrightarrow> committed l = take (nat (HighWatermark l - start l)) (contents l)"
  using consec_filter [OF log_inv_facts(2)] by (simp add: committed_def)

lemma fol_log_grows:
  assumes "(repl_step tn part F)\<^sup>*\<^sup>* c c'" "repl_ok tn part F c"
  shows "prefix (contents (fol_log tn part c i)) (contents (fol_log tn part c' i))"
  using assms
proof (induction rule: rtranclp_induct)
  case (step c1 c2)
  have ok: "repl_ok tn part F c1" using repl_steps_ok [OF step.hyps(1) step.prems] .
  have "prefix (contents (fol_log tn part c1 i)) (contents (fol_log tn part c2 i))"
    using repl_step_cases [OF step.hyps(2) ok]
  proof cases
    case (1 lb)
    then show ?thesis by (simp add: fol_log_def)
  next
    case (2 j now e res fb)
    then show ?thesis using pass_ok(2) [OF ok 2(1,2)] by (cases "i = j") (simp_all add: fol_log_def)
  qed
  then show ?case using step.IH [OF step.prems] by (rule prefix_order.trans [rotated])
qed simp

text \<open>When the mark advances, the logs of the replicas in sync reach it.\<close>

lemma advance_reaches:
  assumes "repl_step tn part F c c'" "repl_ok tn part F c"
    "HighWatermark (lead_log tn part c) < HighWatermark (lead_log tn part c')"
    "i \<in> set (isr_of tn part c')" "i \<noteq> self_id (rLead c')"
  shows "i \<in> F \<and> HighWatermark (lead_log tn part c') \<le> LEO (fol_log tn part c' i)"
  using repl_step_cases [OF assms(1,2)]
proof cases
  case (1 lb)
  note ok' = repl_step_ok [OF assms(1,2)]
  have iF: "i \<in> F" using repl_okD(2) [OF ok'] assms(4,5) by (auto simp: lead_ok_def isr_of_def)
  obtain st where st: "map_of (states_of lb tn part) i = Some st" "HighWatermark (lead_log tn part c') \<le> rleo st"
    using 1 assms(3-5) by (auto simp: lead_to_def lead_log_def isr_of_def)
  from fol_okD [OF repl_okD(3) [OF ok' iF]] have "\<And>st. map_of (states_of (rLead c') tn part) i = Some st \<Longrightarrow>
      rleo st \<le> LEO (fol_log tn part c' i)" by blast
  from this [of st] st 1(1) iF show ?thesis by simp
next
  case (2 j now e res fb)
  then show ?thesis using assms(3) by (simp add: lead_log_def)
qed

lemma prefix_commits:
  assumes "repl_ok tn part F c" "i \<in> F" "HighWatermark (lead_log tn part c) \<le> LEO (fol_log tn part c i)"
  shows "prefix (committed (lead_log tn part c)) (contents (fol_log tn part c i))"
proof -
  obtain addr where f: "follower_of (rFol c i) tn part addr (lead_log tn part c) (fol_log tn part c i)"
    by (rule fol_okD [OF repl_okD(3) [OF assms(1,2)]])
  then have g: "log_inv (fol_log tn part c i)" "start (fol_log tn part c i) = start (lead_log tn part c)"
      "prefix (contents (fol_log tn part c i)) (contents (lead_log tn part c))" by (simp_all add: follower_of_def)
  have l: "log_inv (lead_log tn part c)" using repl_okD(2) [OF assms(1)] by (auto simp: lead_ok_def lead_log_def)
  define n where "n = nat (HighWatermark (lead_log tn part c) - start (lead_log tn part c))"
  have "n \<le> length (contents (fol_log tn part c i))"
    using assms(3) log_inv_facts(1) [OF g(1)] g(2) by (simp add: n_def)
  then have "take n (contents (lead_log tn part c)) = take n (contents (fol_log tn part c i))"
    using g(3) by (auto simp: prefix_def)
  then show ?thesis using committed_take [OF l] by (simp add: n_def take_is_prefix)
qed

text \<open>A partition on new, empty logs is such a system.\<close>

lemma fresh_repl_ok:
  assumes "in_i64 part" "partition_meta (rLead c) tn part = Some pm" "pLeader pm = self_id (rLead c)" "distinct (pReplicas pm)"
    "set (pReplicas pm) = insert (self_id (rLead c)) F" "set (pISR pm) \<subseteq> set (pReplicas pm)" "self_id (rLead c) \<notin> F"
    "Store_Get (bstore (rLead c)) tn part = Some lg" "log_inv lg" "contents lg = []" "states_of (rLead c) tn part = []"
    "\<forall>i\<in>F. self_id (rFol c i) = i \<and> (\<forall>a ack. MsgAck a ack \<in> set (outbox (rFol c i)) \<longrightarrow> (aTopic ack, aPartition ack) \<noteq> (tn, part))
       \<and> (\<exists>foll pm. Store_Get (bstore (rFol c i)) tn part = Some foll \<and> log_inv foll \<and> contents foll = [] \<and> start foll = start lg
            \<and> partition_meta (rFol c i) tn part = Some pm \<and> pLeader pm \<noteq> i \<and> i \<in> set (pReplicas pm)
            \<and> Addr (bcluster (rFol c i)) (pLeader pm) \<noteq> '''')"
  shows "repl_ok tn part F c"
proof -
  have lg: "lead_log tn part c = lg" using assms(8) by (simp add: lead_log_def)
  have "lead_ok tn part F (rLead c)" using assms(2-10) by (simp add: lead_ok_def)
  moreover have "fol_ok tn part c i" if i: "i \<in> F" for i
  proof -
    obtain foll pm where f: "Store_Get (bstore (rFol c i)) tn part = Some foll" "log_inv foll" "contents foll = []" "start foll = start lg"
        "partition_meta (rFol c i) tn part = Some pm" "pLeader pm \<noteq> i" "i \<in> set (pReplicas pm)" "Addr (bcluster (rFol c i)) (pLeader pm) \<noteq> ''''"
      using assms(12) i by blast
    have s: "self_id (rFol c i) = i" "\<forall>a ack. MsgAck a ack \<in> set (outbox (rFol c i)) \<longrightarrow> (aTopic ack, aPartition ack) \<noteq> (tn, part)"
      using assms(12) i by blast+
    have "follower_of (rFol c i) tn part (Addr (bcluster (rFol c i)) (pLeader pm)) lg foll"
      using f s(1) assms(10) by (simp add: follower_of_def)
    moreover have "map_of (states_of (rLead c) tn part) i = None" using assms(11) by simp
    ultimately show ?thesis using s unfolding fol_ok_def lg by (intro exI conjI) auto
  qed
  ultimately show ?thesis using assms(1) by (simp add: repl_ok_def)
qed

text \<open>
  C5.  Committed records are durable under one leader: let the log of every follower be a prefix
  of the leader's, with no acknowledgement, on record or under way, beyond the log of the
  follower that sent it (\<open>repl_ok\<close>), as on the logs of a new partition (\<open>fresh_repl_ok\<close>).  Then in everything that
  leader and followers do from there, in whatever order produce requests of UTF-8 text, passes,
  acknowledgements and changes of the cluster come: when the high watermark of the leader
  advances, every replica that is then in sync holds all records below it, and keeps them.
  A follower that starts with a different log, as an old leader that comes back can, is outside of
  this; \<open>LS_Diverge\<close> shows what happens to it.
\<close>

theorem committed_survives:
  assumes "repl_ok tn part F c0" "(repl_step tn part F)\<^sup>*\<^sup>* c0 c" "repl_step tn part F c c1" "(repl_step tn part F)\<^sup>*\<^sup>* c1 c2"
    "HighWatermark (lead_log tn part c) < HighWatermark (lead_log tn part c1)"
    "i \<in> set (isr_of tn part c1)" "i \<noteq> self_id (rLead c1)"
  shows "prefix (committed (lead_log tn part c1)) (contents (fol_log tn part c2 i))"
proof -
  have c: "repl_ok tn part F c" and c1: "repl_ok tn part F c1"
    using repl_steps_ok [OF assms(2,1)] repl_step_ok [OF assms(3)] by blast+
  have "i \<in> F \<and> HighWatermark (lead_log tn part c1) \<le> LEO (fol_log tn part c1 i)"
    by (rule advance_reaches [OF assms(3) c assms(5-7)])
  then have "prefix (committed (lead_log tn part c1)) (contents (fol_log tn part c1 i))" using prefix_commits [OF c1] by blast
  then show ?thesis using fol_log_grows [OF assms(4) c1] by (rule prefix_order.trans)
qed


text \<open>Broker 2 copies six records from broker 1 and acknowledges them, which commits them.\<close>

definition example_repl :: "Log \<Rightarrow> Log \<Rightarrow> repl" where
  "example_repl lead foll = \<lparr>rLead = example_broker 1 lead, rFol = (\<lambda>i. example_broker 2 foll)\<rparr>"

lemma example_repl_ok:
  assumes "log_inv lead" "\<forall>r\<in>set (contents lead). storable r \<and> text_rec r" "follower_of (example_broker 2 foll) ''t'' 0 ''a'' lead foll"
  shows "repl_ok ''t'' 0 {2} (example_repl lead foll)"
proof -
  have o: "outbox (example_broker 2 foll) = []" "states_of (example_broker 1 lead) ''t'' 0 = []"
    by (simp_all add: example_broker_def states_of_def Let_def)
  have "lead_log ''t'' 0 (example_repl lead foll) = lead" by (simp add: lead_log_def example_repl_def)
  then have "fol_ok ''t'' 0 (example_repl lead foll) 2"
    unfolding fol_ok_def using assms(3) o by (intro exI [of _ "''a''"] exI [of _ foll]) (simp add: example_repl_def)
  moreover have "lead_ok ''t'' 0 {2} (example_broker 1 lead)"
    using assms(1,2) by (simp add: lead_ok_def)
  ultimately show ?thesis by (simp add: repl_ok_def in_i64_def example_repl_def)
qed

lemma example_ack:
  assumes "log_inv lead" "hw lead = 0" "0 < n" "0 < LEO lead"
  shows "\<exists>lb lg. handleReplicaAck example_env (example_broker 1 lead) (Good \<lparr>aBrokerID = 2, aTopic = ''t'', aPartition = 0, aLEO = n\<rparr>) =
      (Done (Ret (200, BStatus ''ok'')), lb) \<and> Store_Get (bstore lb) ''t'' 0 = Some lg \<and> 0 < HighWatermark lg \<and> contents lg = contents lead
      \<and> self_id lb = 1 \<and> (\<exists>pm. partition_meta lb ''t'' 0 = Some pm \<and> 2 \<in> set (pISR pm))"
proof -
  define c where "c = noteReplica 7 (example_broker 1 lead) ''t'' 0 2 n"
  let ?pm = "\<lparr>pID = 0, pLeader = 1, pReplicas = [1, 2], pISR = [1]\<rparr>"
  have c: "partition_meta c ''t'' 0 = Some ?pm" "pLeader ?pm = self_id c" "Store_Get (bstore c) ''t'' 0 = Some lead" "self_id c = 1"
    using example_broker_simps [of 1 lead]
    by (simp_all add: c_def noteReplica_def Let_def partition_meta_def del: example_broker_simps)
  have s: "states_of c ''t'' 0 = [(2, \<lparr>rleo = n, rlastSeen = 7\<rparr>)]"
    by (simp add: c_def noteReplica_def states_of_def example_broker_def Let_def)
  have al: "IsAlive 7 (bcluster c) 2" "0 \<le> cReplicaLagTime (bcfg c)"
    by (simp_all add: c_def noteReplica_def example_broker_def Let_def IsAlive_def MarkSeen_def Cluster_New_def default_cfg_def)
  have isr: "compute_isr 7 c ''t'' ?pm = [1, 2]" using al s c(4) by (simp add: compute_isr_def)
  have h: "compute_hw c ''t'' 0 (LEO lead) [1, 2] = min n (LEO lead)" using s c(4) by (simp add: compute_hw_def)
  have lb: "handleReplicaAck example_env (example_broker 1 lead) (Good \<lparr>aBrokerID = 2, aTopic = ''t'', aPartition = 0, aLEO = n\<rparr>) =
      (Done (Ret (200, BStatus ''ok'')), recomputeHW no_fault 7 True c ''t'' 0)"
    by (simp add: handleReplicaAck_def example_env_def c_def writeJSON_def json_answer_def)
  have "\<not> sameInts [1] [1, 2::int]" by (simp add: sameInts_def)
  then show ?thesis
    using recomputeHW_leader [OF c(1-3), of 7 True] SetHighWatermark_value [OF assms(1), of "min n (LEO lead)"] assms(2-4) lb c(4)
    by (simp add: isr h HighWatermark_def self_recomputeHW)
qed

lemma example_pass:
  fixes l :: Log
  assumes "Log_Open no_fault small_cfg [] = Inr l" "log_inv (append_empty 6 l)"
      "contents (append_empty 6 l) = map empty_rec [0, 1, 2, 3, 4, 5]" "LEO (append_empty 6 l) = 6"
      "follower_of (example_broker 2 l) ''t'' 0 ''a'' (append_empty 6 l) l" "LEO l = 0"
  shows "\<exists>fb foll. follow_pass no_fault 9 (served_net example_env (example_broker 1 (append_empty 6 l))) (example_broker 2 l) ''t'' 0 = (FollowDone, fb)
    \<and> Store_Get (bstore fb) ''t'' 0 = Some foll \<and> 0 < LEO foll
    \<and> outbox fb = outbox (example_broker 2 l) @ [MsgAck ''a'' \<lparr>aBrokerID = 2, aTopic = ''t'', aPartition = 0, aLEO = LEO foll\<rparr>]"
proof -
  let ?L = "append_empty 6 l" and ?b = "example_broker 1 (append_empty 6 l)"
  have f: "log_inv l" "start l = start ?L" using assms(5) by (simp_all add: follower_of_def del: append_empty.simps)
  have "start ?L \<le> LEO l" using log_inv_facts(1) [OF f(1)] f(2) by simp
  then have net: "served_net example_env ?b ''a'' ''t'' 0 (LEO l) = leader_net ?L ''a'' ''t'' 0 (LEO l)"
    using served_is_leader_net [OF example_broker_simps(3) _ example_broker_simps(2) assms(2)] assms(6)
    by (simp add: in_i64_def del: append_empty.simps)
  have tx: "\<forall>r\<in>set (contents ?L). storable r \<and> text_rec r" unfolding assms(3) by (rule empty_recs_text)
  from follow_pass_copy [OF assms(2) tx assms(5), of "served_net example_env ?b" 9, OF net] assms(4,6)
  show ?thesis by (auto simp: follower_of_def simp del: append_empty.simps)
qed

theorem committed_survives_witness:
  "\<exists>c0 c c1. repl_ok ''t'' 0 {2} c0 \<and> repl_step ''t'' 0 {2} c0 c \<and> repl_step ''t'' 0 {2} c c1
    \<and> 0 < HighWatermark (lead_log ''t'' 0 c1) \<and> prefix (committed (lead_log ''t'' 0 c1)) (contents (fol_log ''t'' 0 c1 2))"
proof -
  obtain l where l: "Log_Open no_fault small_cfg [] = Inr l" "log_inv (append_empty 6 l)"
      "contents (append_empty 6 l) = map empty_rec [0, 1, 2, 3, 4, 5]" "LEO (append_empty 6 l) = 6"
      "follower_of (example_broker 2 l) ''t'' 0 ''a'' (append_empty 6 l) l" "LEO l = 0"
    by (rule example_follower)
  have h0: "hw (append_empty 6 l) = 0"
    using log_inv_facts(5,6) [of l] l(5,6) append_empty_hw [of 6 l] by (simp add: follower_of_def)
  let ?L = "append_empty 6 l"
  define c0 where "c0 = example_repl ?L l"
  have ok: "repl_ok ''t'' 0 {2} c0"
    unfolding c0_def by (rule example_repl_ok [OF l(2) _ l(5)]) (unfold l(3), rule empty_recs_text)
  obtain fb foll where fb: "follow_pass no_fault 9 (served_net example_env (example_broker 1 ?L)) (example_broker 2 l) ''t'' 0 = (FollowDone, fb)"
      "Store_Get (bstore fb) ''t'' 0 = Some foll" "0 < LEO foll"
      "outbox fb = outbox (example_broker 2 l) @ [MsgAck ''a'' \<lparr>aBrokerID = 2, aTopic = ''t'', aPartition = 0, aLEO = LEO foll\<rparr>]"
    using example_pass [OF l] by blast
  let ?ack = "\<lparr>aBrokerID = 2, aTopic = ''t'', aPartition = 0, aLEO = LEO foll\<rparr>"
  define c where "c = c0\<lparr>rFol := (rFol c0)(2 := fb)\<rparr>"
  have s1: "repl_step ''t'' 0 {2} c0 c"
    unfolding c_def by (rule rs_pass [where res = FollowDone and now = 9 and e = example_env]) (use fb(1) in \<open>simp_all add: c0_def example_repl_def\<close>)
  obtain lb lg pm where lb: "handleReplicaAck example_env (example_broker 1 ?L) (Good ?ack) = (Done (Ret (200, BStatus ''ok'')), lb)"
      "Store_Get (bstore lb) ''t'' 0 = Some lg" "0 < HighWatermark lg" "self_id lb = 1"
      "partition_meta lb ''t'' 0 = Some pm" "2 \<in> set (pISR pm)"
    using example_ack [OF l(2) h0 fb(3)] l(4) by auto
  define c1 where "c1 = c\<lparr>rLead := lb\<rparr>"
  have s2: "repl_step ''t'' 0 {2} c c1"
    unfolding c1_def
    by (rule rs_ack [where i = 2 and ack = ?ack and addr = "''a''" and e = example_env])
      (use fb(4) lb(1) in \<open>simp_all add: c_def c0_def example_repl_def example_env_def\<close>)
  have h: "HighWatermark (lead_log ''t'' 0 c) = 0" "0 < HighWatermark (lead_log ''t'' 0 c1)"
    using h0 lb(2,3) by (simp_all add: lead_log_def c1_def c_def c0_def example_repl_def HighWatermark_def del: append_empty.simps)
  have "prefix (committed (lead_log ''t'' 0 c1)) (contents (fol_log ''t'' 0 c1 2))"
    by (rule committed_survives [OF ok _ s2, where ?c2.0 = c1 and i = 2]) (use s1 h lb in \<open>simp_all add: isr_of_def c1_def r_into_rtranclp\<close>)
  then show ?thesis using ok s1 s2 h(2) by blast
qed


section \<open>A replica that is behind\<close>

lemma tick_elects:
  assumes "pReplicas p \<noteq> []" "\<not> alive (pLeader p)" "firstAlive (pReplicas p) alive = Some i" "alive i" "i \<in> set (pISR p)"
  shows "\<exists>p'. tick_partition alive p = Some (p', True) \<and> pLeader p' = i \<and> i \<in> set (pISR p')"
proof -
  obtain r rs where r: "pReplicas p = r # rs" using assms(1) by (cases "pReplicas p") auto
  have first: "alive r \<Longrightarrow> r = i" using assms(3) r by (auto simp: firstAlive_def)
  show ?thesis
    using assms r first by (auto simp: tick_partition_def Let_def)
qed

text \<open>What the leader does with an acknowledgement of a live replica, whatever its log end.\<close>

lemma ack_in_sync:
  assumes "partition_meta b tn part = Some pm" "pLeader pm = self_id b" "distinct (pReplicas pm)"
    "Store_Get (bstore b) tn part = Some lg" "log_inv lg" "eflt e = no_fault"
    "i \<in> set (pReplicas pm)" "i \<noteq> self_id b" "IsAlive (enow e) (bcluster b) i" "0 \<le> cReplicaLagTime (bcfg b)"
  shows "\<exists>b' h pm'. handleReplicaAck e b (Good \<lparr>aBrokerID = i, aTopic = tn, aPartition = part, aLEO = leo\<rparr>) =
      (Done (Ret (200, BStatus ''ok'')), b')
    \<and> Store_Get (bstore b') tn part = Some (SetHighWatermark lg h) \<and> h \<le> leo
    \<and> partition_meta b' tn part = Some pm' \<and> i \<in> set (pISR pm') \<and> pReplicas pm' = pReplicas pm \<and> pLeader pm' = pLeader pm"
proof -
  define c where "c = noteReplica (enow e) b tn part i leo"
  have same: "bstore c = bstore b" "self_id c = self_id b" "partition_meta c = partition_meta b" "bcluster c = bcluster b" "bcfg c = bcfg b"
    by (simp_all add: c_def noteReplica_def Let_def partition_meta_def fun_eq_iff)
  have pid: "pID pm = part" using assms(1) by (rule partition_metaE)
  have st: "map_of (states_of c tn part) i = Some \<lparr>rleo = leo, rlastSeen = enow e\<rparr>"
    by (simp add: c_def noteReplica_def states_of_def Let_def)
  define isr where "isr = compute_isr (enow e) c tn pm"
  have i: "i \<in> set isr" using assms(7-10) st same by (simp add: isr_def compute_isr_def pid)
  define h where "h = compute_hw c tn part (LEO lg) isr"
  have h: "h \<le> leo" using compute_hw_spec [of c tn part "LEO lg" isr] i assms(8) same(2) st by (fastforce simp: h_def)
  let ?b' = "recomputeHW no_fault (enow e) (ewr e) c tn part"
  let ?pm' = "if sameInts (pISR pm) isr then pm else pm\<lparr>pISR := isr\<rparr>"
  have rc: "Store_Get (bstore ?b') tn part = Some (SetHighWatermark lg h)" "partition_meta ?b' tn part = Some ?pm'"
    using recomputeHW_leader [of c tn part pm lg "enow e" "ewr e"] assms(1,2,4) same by (simp_all add: isr_def h_def)
  have "set (pISR ?pm') = set isr"
    using sameInts_set [of "pISR pm" isr] assms(3) by (simp add: isr_def compute_isr_def)
  moreover have "handleReplicaAck e b (Good \<lparr>aBrokerID = i, aTopic = tn, aPartition = part, aLEO = leo\<rparr>) = (Done (Ret (200, BStatus ''ok'')), ?b')"
    by (simp add: handleReplicaAck_def c_def writeJSON_def json_answer_def assms(6))
  ultimately show ?thesis
    using rc h i by (intro exI [of _ ?b'] exI [of _ h] exI [of _ ?pm']) simp
qed

text \<open>
  C35.  A replica is in sync as soon as it sends an acknowledgement, however far it is behind:
  when a live replica acknowledges a log end below the high watermark, the leader puts it into
  the in-sync set and leaves the mark where it is.  If the leader then dies and this replica is
  the first live one, the controller makes it the leader; the committed records it does not
  have are lost.
\<close>

theorem lagging_replica_elected:
  assumes "partition_meta b tn part = Some pm" "pLeader pm = self_id b" "distinct (pReplicas pm)"
    "Store_Get (bstore b) tn part = Some lg" "log_inv lg" "eflt e = no_fault"
    "i \<in> set (pReplicas pm)" "i \<noteq> self_id b" "IsAlive (enow e) (bcluster b) i" "0 \<le> cReplicaLagTime (bcfg b)"
    "leo < HighWatermark lg"
    "\<not> alive (self_id b)" "alive i" "firstAlive (pReplicas pm) alive = Some i"
  shows "\<exists>b' lg' pm' pm''. handleReplicaAck e b (Good \<lparr>aBrokerID = i, aTopic = tn, aPartition = part, aLEO = leo\<rparr>) =
      (Done (Ret (200, BStatus ''ok'')), b')
    \<and> Store_Get (bstore b') tn part = Some lg' \<and> partition_meta b' tn part = Some pm'
    \<and> HighWatermark lg' = HighWatermark lg \<and> committed lg' = committed lg \<and> i \<in> set (pISR pm')
    \<and> tick_partition alive pm' = Some (pm'', True) \<and> pLeader pm'' = i"
proof -
  obtain b' h pm' where b': "handleReplicaAck e b (Good \<lparr>aBrokerID = i, aTopic = tn, aPartition = part, aLEO = leo\<rparr>) =
      (Done (Ret (200, BStatus ''ok'')), b')" "Store_Get (bstore b') tn part = Some (SetHighWatermark lg h)" "h \<le> leo"
      "partition_meta b' tn part = Some pm'" "i \<in> set (pISR pm')" "pReplicas pm' = pReplicas pm" "pLeader pm' = pLeader pm"
    using ack_in_sync [OF assms(1-10), of leo] by blast
  have hw: "HighWatermark (SetHighWatermark lg h) = HighWatermark lg"
    using SetHighWatermark_value(1) [OF assms(5), of h] b'(3) assms(11) by (simp add: HighWatermark_def)
  have "pReplicas pm' \<noteq> []" using assms(7) b'(6) by auto
  then obtain pm'' where "tick_partition alive pm' = Some (pm'', True)" "pLeader pm'' = i"
    using tick_elects [of pm' alive i] b'(5-7) assms(2,12-14) by auto
  then show ?thesis using b' hw by (intro exI [of _ b']) (simp add: committed_def)
qed

text \<open>Broker 2 acknowledges an empty log after six records were committed by broker 1 alone.\<close>

theorem lagging_replica_elected_witness:
  "\<exists>l b' lg' pm' pm''. Log_Open no_fault small_cfg [] = Inr l
    \<and> handleReplicaAck example_env (example_broker 1 (SetHighWatermark (append_empty 6 l) 6))
        (Good \<lparr>aBrokerID = 2, aTopic = ''t'', aPartition = 0, aLEO = 0\<rparr>) = (Done (Ret (200, BStatus ''ok'')), b')
    \<and> Store_Get (bstore b') ''t'' 0 = Some lg' \<and> partition_meta b' ''t'' 0 = Some pm' \<and> HighWatermark lg' = 6
    \<and> tick_partition (\<lambda>i. i = 2) pm' = Some (pm'', True) \<and> pLeader pm'' = 2"
proof -
  obtain l where l: "Log_Open no_fault small_cfg [] = Inr l" "log_inv (append_empty 6 l)" "LEO (append_empty 6 l) = 6"
    "start (append_empty 6 l) = 0" "hw (append_empty 6 l) = 0"
    by (rule example_leader)
  let ?lg = "SetHighWatermark (append_empty 6 l) 6"
  have v: "log_inv ?lg" "HighWatermark ?lg = 6"
    using SetHighWatermark_value [OF l(2), of 6] l by (simp_all add: HighWatermark_def del: append_empty.simps)
  have al: "IsAlive (enow example_env) (bcluster (example_broker 1 ?lg)) 2" "0 \<le> cReplicaLagTime (bcfg (example_broker 1 ?lg))"
    by (simp_all add: example_broker_def Let_def IsAlive_def MarkSeen_def Cluster_New_def default_cfg_def example_env_def)
  show ?thesis
    using lagging_replica_elected [OF example_broker_simps(3) _ _ example_broker_simps(2) v(1) _ _ _ al(1) al(2),
        where leo = 0 and alive = "\<lambda>i. i = 2"] l(1) v(2)
    by (auto simp: firstAlive_def example_env_def simp del: append_empty.simps)
qed

end
