(* ===== verification/LS_Diverge.thy ===== *)
theory LS_Diverge
  imports LS_Durable
begin

text \<open>
  What becomes of a follower whose log is not a prefix of the leader's, as after a change of
  leaders (\<^verbatim>\<open>followLoop\<close> in \<^verbatim>\<open>src/internal/broker/replica.go\<close>): nothing compares the logs and
  nothing truncates one.
\<close>

text \<open>\<open>b\<close> holds \<open>foll\<close> for a partition and follows the broker at \<open>addr\<close> on it.\<close>

definition follows :: "Broker \<Rightarrow> string \<Rightarrow> int \<Rightarrow> string \<Rightarrow> Log \<Rightarrow> bool" where
  "follows b tn part addr foll \<longleftrightarrow>
     Store_Get (bstore b) tn part = Some foll \<and> log_inv foll \<and> addr \<noteq> ''''
     \<and> (\<exists>pm. partition_meta b tn part = Some pm \<and> pLeader pm \<noteq> self_id b \<and> self_id b \<in> set (pReplicas pm)
          \<and> Addr (bcluster b) (pLeader pm) = addr)"

lemma follow_pass_keeps:
  assumes L: "log_inv lead" "\<forall>r\<in>set (contents lead). storable r \<and> text_rec r"
    and F: "follows b tn part addr foll" "start foll = start lead"
    and net: "net addr tn part (LEO foll) = leader_net lead addr tn part (LEO foll)"
  shows "\<exists>b' foll'. follow_pass no_fault now net b tn part = (FollowDone, b') \<and> follows b' tn part addr foll'
    \<and> start foll' = start lead \<and> prefix (contents foll) (contents foll')
    \<and> outbox b' = outbox b @ [MsgAck addr \<lparr>aBrokerID = self_id b, aTopic = tn, aPartition = part, aLEO = LEO foll'\<rparr>]"
proof -
  have G: "Store_Get (bstore b) tn part = Some foll" "log_inv foll" "addr \<noteq> ''''" using F(1) by (simp_all add: follows_def)
  obtain pm where M: "partition_meta b tn part = Some pm" "pLeader pm \<noteq> self_id b" "self_id b \<in> set (pReplicas pm)"
      "Addr (bcluster b) (pLeader pm) = addr"
    using F(1) by (auto simp: follows_def)
  have st: "start lead \<le> LEO foll" using log_inv_facts(1) [OF G(2)] F(2) by simp
  obtain rs where rs: "Read lead (LEO foll) 1048576 (LEO lead) = Inr rs" by (rule Read_from_end [OF L(1) st])
  have sub: "set rs \<subseteq> set (contents lead)" by (rule Read_subset [OF L(1) st rs])
  then have tx: "map fromWire (map json_wire (toWire rs)) = rs" using L(2) by (intro map_fromWire_json) blast
  have sto: "\<forall>r\<in>set rs. storable r" using L(2) sub by blast
  let ?f = "apply_records LEO (AppendAt no_fault now) foll rs"
  let ?f' = "SetHighWatermark ?f (HighWatermark lead)"
  note kp = pl.apply_records_keeps [OF G(2) sto, of now]
  have v: "log_inv ?f'" using SetHighWatermark_value(2) [of ?f] kp by blast
  have opn: "Store_Open no_fault (bstore b) tn part = (Inr foll, bstore b)"
    using G(1) by (simp add: Store_Open_def Store_Get_def)
  define b' where "b' = b\<lparr>bstore := Store_put (bstore b) tn part ?f',
        outbox := outbox b @ [MsgAck addr \<lparr>aBrokerID = self_id b, aTopic = tn, aPartition = part, aLEO = LEO ?f'\<rparr>]\<rparr>"
  have pass: "follow_pass no_fault now net b tn part = (FollowDone, b')"
    using opn M G(3) net rs tx by (simp add: follow_pass_def leader_net_def b'_def Let_def del: map_map)
  have "follows b' tn part addr ?f'"
    using v M G(3) by (auto simp: follows_def b'_def Store_Get_def Store_put_def partition_meta_def)
  then show ?thesis
    using pass kp F(2) by (intro exI [of _ b'] exI [of _ ?f']) (simp add: b'_def)
qed

text \<open>
  C36.  Logs that have diverged stay so: when the log of a follower holds a different record at
  some place than the leader's, because it led the partition before and its tail was not
  replicated, then a pass of its loop changes none of its records, and the acknowledgement it
  sends all the same puts it into the in-sync set of the leader.  Consumers that read after it
  has become the leader see other records at the offsets they have already read.
\<close>

theorem diverged_log_in_sync:
  assumes "partition_meta lb tn part = Some pm" "pLeader pm = self_id lb" "Store_Get (bstore lb) tn part = Some lead" "log_inv lead"
    "\<forall>r\<in>set (contents lead). storable r \<and> text_rec r" "in_i64 part" "distinct (pReplicas pm)"
    "follows fb tn part addr foll" "start foll = start lead"
    "k < length (contents foll)" "contents foll ! k \<noteq> contents lead ! k"
    "self_id fb \<in> set (pReplicas pm)" "self_id fb \<noteq> self_id lb" "IsAlive (enow e) (bcluster lb) (self_id fb)"
    "0 \<le> cReplicaLagTime (bcfg lb)" "eflt e = no_fault"
  shows "\<exists>fb' foll' ack lb' pm'. follow_pass no_fault now (served_net e lb) fb tn part = (FollowDone, fb')
    \<and> Store_Get (bstore fb') tn part = Some foll' \<and> prefix (contents foll) (contents foll')
    \<and> contents foll' ! k \<noteq> contents lead ! k
    \<and> outbox fb' = outbox fb @ [MsgAck addr ack] \<and> exec (ask e) (ReplicaAck addr ack) lb = (Inr (), lb')
    \<and> partition_meta lb' tn part = Some pm' \<and> self_id fb \<in> set (pISR pm')"
proof -
  have f: "log_inv foll" "addr \<noteq> ''''" using assms(8) by (simp_all add: follows_def)
  have off: "start lead \<le> LEO foll" "in_i64 (LEO foll)" using log_inv_facts [OF f(1)] assms(9) by (simp_all add: in_i64_def)
  note net = served_is_leader_net [OF assms(1-4,6) off(2,1) f(2), of e]
  obtain fb' foll' where fb': "follow_pass no_fault now (served_net e lb) fb tn part = (FollowDone, fb')"
      "follows fb' tn part addr foll'" "prefix (contents foll) (contents foll')"
      "outbox fb' = outbox fb @ [MsgAck addr \<lparr>aBrokerID = self_id fb, aTopic = tn, aPartition = part, aLEO = LEO foll'\<rparr>]"
    using follow_pass_keeps [OF assms(4,5,8,9), of "served_net e lb" now] net by blast
  let ?ack = "\<lparr>aBrokerID = self_id fb, aTopic = tn, aPartition = part, aLEO = LEO foll'\<rparr>"
  obtain lb' pm' where lb': "handleReplicaAck e lb (Good ?ack) = (Done (Ret (200, BStatus ''ok'')), lb')"
      "partition_meta lb' tn part = Some pm'" "self_id fb \<in> set (pISR pm')"
    using ack_in_sync [OF assms(1,2,7,3,4,16,12-15), of "LEO foll'"] by blast
  have "contents foll' ! k = contents foll ! k" using fb'(3) assms(10) by (auto simp: prefix_def nth_append)
  moreover have "exec (ask e) (ReplicaAck addr ?ack) lb = (Inr (), lb')"
    using lb'(1) by (simp add: ReplicaAck_def one_call_def ask_def serve_def)
  ultimately show ?thesis
    using fb' lb'(2,3) assms(11)
    by (intro exI [of _ fb'] exI [of _ foll'] exI [of _ ?ack] exI [of _ lb'] exI [of _ pm']) (simp add: follows_def)
qed


text \<open>Broker 2 wrote a record of its own at offset 0 before broker 1 became the leader.\<close>

theorem diverged_log_in_sync_witness:
  "\<exists>l foll fb' foll' ack lb' pm'. Log_Open no_fault small_cfg [] = Inr l \<and> snd (Log_Append no_fault 99 l [] []) = foll
    \<and> follow_pass no_fault 9 (served_net example_env (example_broker 1 (append_empty 6 l))) (example_broker 2 foll) ''t'' 0 = (FollowDone, fb')
    \<and> Store_Get (bstore fb') ''t'' 0 = Some foll' \<and> contents foll' ! 0 \<noteq> empty_rec 0
    \<and> exec (ask example_env) (ReplicaAck ''a'' ack) (example_broker 1 (append_empty 6 l)) = (Inr (), lb')
    \<and> partition_meta lb' ''t'' 0 = Some pm' \<and> 2 \<in> set (pISR pm')"
proof -
  obtain l where l: "Log_Open no_fault small_cfg [] = Inr l" "log_inv (append_empty 6 l)"
      "contents (append_empty 6 l) = map empty_rec [0, 1, 2, 3, 4, 5]" "LEO (append_empty 6 l) = 6"
      "follower_of (example_broker 2 l) ''t'' 0 ''a'' (append_empty 6 l) l" "LEO l = 0"
    by (rule example_follower)
  let ?L = "append_empty 6 l"
  have e: "log_inv l" "start l = start ?L" "prefix (contents l) (contents ?L)"
    using l(5) by (simp_all add: follower_of_def del: append_empty.simps)
  obtain foll where foll: "Log_Append no_fault 99 l [] [] = (Inr (LEO l), foll)" "log_inv foll"
      "contents foll = contents l @ [\<lparr>Offset = LEO l, Timestamp = 99, Key = [], Value = []\<rparr>]" "LEO foll = LEO l + 1"
    using Log_Append_inv [OF e(1), of 99 "[]" "[]"] l(6) by (auto simp: in_i64_def)
  have "length (contents l) = 0" using log_inv_facts(1,3) [OF e(1)] l(6) by linarith
  then have nil: "contents l = []" by simp
  have st: "start foll = start ?L" using log_inv_facts(1) [OF foll(2)] log_inv_facts(1) [OF e(1)] foll(3,4) e(2) by simp
  have ad: "Addr (bcluster (example_broker 2 foll)) 1 = ''a''"
    by (simp add: example_broker_def Let_def Addr_def MarkSeen_def Cluster_New_def)
  have fo: "follows (example_broker 2 foll) ''t'' 0 ''a'' foll" using foll(2) ad by (simp add: follows_def)
  have al: "IsAlive (enow example_env) (bcluster (example_broker 1 ?L)) 2" "0 \<le> cReplicaLagTime (bcfg (example_broker 1 ?L))"
    by (simp_all add: example_broker_def Let_def IsAlive_def MarkSeen_def Cluster_New_def default_cfg_def example_env_def)
  have tx: "\<forall>r\<in>set (contents ?L). storable r \<and> text_rec r" unfolding l(3) by (rule empty_recs_text)
  have ne: "contents foll ! 0 \<noteq> contents ?L ! 0" "contents ?L ! 0 = empty_rec 0" unfolding l(3) by (simp_all add: foll(3) nil l(6))
  have "snd (Log_Append no_fault 99 l [] []) = foll" using foll(1) by simp
  then show ?thesis
    using diverged_log_in_sync [OF example_broker_simps(3) _ example_broker_simps(2) l(2) tx _ _ fo st _ ne(1), where now = 9 and e = example_env]
      l(1) foll(3) nil al ne(2)
    by (fastforce simp: in_i64_def example_env_def simp del: append_empty.simps)
qed

end
