(* ===== verification/LS_AcksAll.thy ===== *)
theory LS_AcksAll
  imports LS_Durable
begin

text \<open>
  The leader's wait for \<open>acks=all\<close> together with the followers that end it
  (\<^verbatim>\<open>src/internal/broker/handlers.go\<close>, \<^verbatim>\<open>replica.go\<close>): while the handler of a produce request
  waits for the high watermark, the followers fetch, append and acknowledge, and the handler
  of the last acknowledgement moves the mark past the record.
\<close>

section \<open>A follower takes its turn\<close>

text \<open>
  One pass of the follower loop of \<open>fb\<close> against the leader \<open>lb\<close>, and the delivery of the
  acknowledgement it sends.
\<close>

definition deliver :: "henv \<Rightarrow> msg \<Rightarrow> Broker \<Rightarrow> Broker" where
  "deliver e m lb = (case m of MsgAck addr ack \<Rightarrow> snd (exec (ask e) (ReplicaAck addr ack) lb) | _ \<Rightarrow> lb)"

definition replica_turn :: "henv \<Rightarrow> int \<Rightarrow> string \<Rightarrow> int \<Rightarrow> Broker \<Rightarrow> Broker \<Rightarrow> Broker \<times> Broker" where
  "replica_turn e now tn part fb lb =
     (let fb' = snd (follow_pass no_fault now (served_net e lb) fb tn part)
      in (fb', fold (deliver e) (drop (length (outbox fb)) (outbox fb')) lb))"

primrec replica_turns :: "henv \<Rightarrow> int \<Rightarrow> string \<Rightarrow> int \<Rightarrow> Broker list \<Rightarrow> Broker \<Rightarrow> Broker list \<times> Broker" where
  "replica_turns e now tn part [] lb = ([], lb)"
| "replica_turns e now tn part (fb # fbs) lb =
     (let (fb', lb1) = replica_turn e now tn part fb lb; (fbs', lb') = replica_turns e now tn part fbs lb1
      in (fb' # fbs', lb'))"

lemma compute_hw_caught:
  assumes "\<forall>i\<in>set isr. i \<noteq> self_id b \<longrightarrow> (\<forall>st. map_of (states_of b tn part) i = Some st \<longrightarrow> leo \<le> rleo st)"
  shows "compute_hw b tn part leo isr = leo"
  using assms
proof (induction isr)
  case (Cons i isr)
  then have "compute_hw b tn part leo (i # isr) = compute_hw b tn part leo isr"
    by (auto simp: compute_hw_def split: option.splits intro!: arg_cong [of _ _ "\<lambda>h. foldl _ h _"])
  then show ?case using Cons by simp
qed (simp add: compute_hw_def)

lemma recomputeHW_env:
  "bcluster (recomputeHW flt now w b tn part) = bcluster b" "bcfg (recomputeHW flt now w b tn part) = bcfg b"
  by (simp_all add: recomputeHW_def broadcastMetadata_def persistTopicsLocked_def set_isr_def Let_def
      split: option.splits prod.splits sum.splits)

lemma follower_of_mark [simp]:
  "follower_of fb tn part addr (SetHighWatermark lead h) foll \<longleftrightarrow> follower_of fb tn part addr lead foll"
  by (simp add: follower_of_def)

text \<open>
  What the leader makes of an acknowledgement: the log end is on record, and when every
  replica that is alive has reached the leader's log end then so does the high watermark.
\<close>

lemma ack_marks:
  fixes leo :: int and addr :: string
  assumes ok: "lead_ok tn part F b" and lg: "Store_Get (bstore b) tn part = Some lg" and e: "eflt e = no_fault" and i: "i \<in> F"
  defines "b' \<equiv> snd (exec (ask e) (ReplicaAck addr \<lparr>aBrokerID = i, aTopic = tn, aPartition = part, aLEO = leo\<rparr>) b)"
  shows "\<exists>h. lead_ok tn part F b' \<and> Store_Get (bstore b') tn part = Some (SetHighWatermark lg h) \<and> bcluster b' = bcluster b
    \<and> (\<forall>j. map_of (states_of b' tn part) j = (if j = i then Some \<lparr>rleo = leo, rlastSeen = enow e\<rparr> else map_of (states_of b tn part) j))
    \<and> ((\<forall>j\<in>F. IsAlive (enow e) (bcluster b) j \<longrightarrow> (\<forall>st. map_of (states_of b' tn part) j = Some st \<longrightarrow> LEO lg \<le> rleo st)) \<longrightarrow> h = LEO lg)"
proof -
  define c where "c = noteReplica (enow e) b tn part i leo"
  have same: "bstore c = bstore b" "self_id c = self_id b" "partition_meta c = partition_meta b" "bcluster c = bcluster b"
    by (simp_all add: c_def noteReplica_def Let_def partition_meta_def fun_eq_iff)
  have sts: "map_of (states_of c tn part) j =
      (if j = i then Some \<lparr>rleo = leo, rlastSeen = enow e\<rparr> else map_of (states_of b tn part) j)" for j
    by (auto simp: c_def noteReplica_def states_of_def Let_def split: option.splits)
  have b': "b' = recomputeHW no_fault (enow e) (ewr e) c tn part"
    using e by (simp add: b'_def ReplicaAck_def one_call_def ask_def serve_def handleReplicaAck_def writeJSON_def json_answer_def c_def)
  have ok': "lead_ok tn part F c" using ok same by (simp add: lead_ok_def)
  obtain pm where pm: "partition_meta c tn part = Some pm" "pLeader pm = self_id c" "set (pReplicas pm) \<subseteq> insert (self_id c) F"
    using ok' by (auto simp: lead_ok_def)
  define h where "h = compute_hw c tn part (LEO lg) (compute_isr (enow e) c tn pm)"
  have get: "Store_Get (bstore b') tn part = Some (SetHighWatermark lg h)"
    using recomputeHW_leader(1) [OF pm(1,2), of lg "enow e" "ewr e"] lg same by (simp add: b' h_def)
  have "lead_ok tn part F b'"
    using recompute_lead_to [OF ok'] by (simp add: lead_to_def b')
  moreover have "h = LEO lg"
    if "\<forall>j\<in>F. IsAlive (enow e) (bcluster b) j \<longrightarrow> (\<forall>st. map_of (states_of c tn part) j = Some st \<longrightarrow> LEO lg \<le> rleo st)"
    unfolding h_def using that pm(3) same(4) by (intro compute_hw_caught) (auto dest!: compute_isr_acked)
  ultimately show ?thesis
    using get sts same by (intro exI [of _ h]) (simp add: b' recomputeHW_env states_of_recomputeHW)
qed

lemma pass_copies:
  assumes "lead_ok tn part F lb" "Store_Get (bstore lb) tn part = Some lead" "follower_of fb tn part addr lead foll"
    "LEO lead \<le> LEO foll + 1" "in_i64 part"
  shows "\<exists>fb' foll'. follow_pass no_fault now (served_net e lb) fb tn part = (FollowDone, fb') \<and> Store_Get (bstore fb') tn part = Some foll'
    \<and> contents foll' = contents lead
    \<and> outbox fb' = outbox fb @ [MsgAck addr \<lparr>aBrokerID = self_id fb, aTopic = tn, aPartition = part, aLEO = LEO lead\<rparr>]"
proof -
  obtain pm where lb: "partition_meta lb tn part = Some pm" "pLeader pm = self_id lb" "log_inv lead"
      "\<forall>r\<in>set (contents lead). storable r \<and> text_rec r"
    using assms(1,2) by (auto simp: lead_ok_def)
  have f: "log_inv foll" "start foll = start lead" "addr \<noteq> ''''" using assms(3) by (simp_all add: follower_of_def)
  have off: "start lead \<le> LEO foll" "in_i64 (LEO foll)" using log_inv_facts [OF f(1)] f(2) by (simp_all add: in_i64_def)
  obtain fb' foll' where fb': "follow_pass no_fault now (served_net e lb) fb tn part = (FollowDone, fb')"
      "follower_of fb' tn part addr lead foll'" "prefix (contents foll) (contents foll')" "LEO foll < LEO lead \<longrightarrow> LEO foll < LEO foll'"
      "outbox fb' = outbox fb @ [MsgAck addr \<lparr>aBrokerID = self_id fb, aTopic = tn, aPartition = part, aLEO = LEO foll'\<rparr>]"
    using follow_pass_copy [OF lb(3,4) assms(3), of "served_net e lb" now]
      served_is_leader_net [OF lb(1,2) assms(2) lb(3) assms(5) off(2,1) f(3), of e] by blast
  have g: "log_inv foll'" "start foll' = start lead" "prefix (contents foll') (contents lead)" "Store_Get (bstore fb') tn part = Some foll'"
    using fb'(2) by (simp_all add: follower_of_def)
  note len = log_inv_facts(1) [OF g(1)] log_inv_facts(1) [OF lb(3)] log_inv_facts(1) [OF f(1)]
  have "length (contents foll) \<le> length (contents foll')" using fb'(3) by (rule prefix_length_le)
  then have "length (contents lead) \<le> length (contents foll')"
    using len g(2) f(2) fb'(4) assms(4) by linarith
  then have "contents foll' = contents lead" using g(3) by (auto simp: prefix_def)
  then show ?thesis using fb' g(2,4) len by (intro exI [of _ fb'] exI [of _ foll']) simp
qed

text \<open>The mark after the turns of some followers, each at most one record behind.\<close>

definition one_behind :: "string \<Rightarrow> int \<Rightarrow> int set \<Rightarrow> Log \<Rightarrow> Broker \<Rightarrow> bool" where
  "one_behind tn part F lead fb \<longleftrightarrow>
     self_id fb \<in> F \<and> (\<exists>addr foll. follower_of fb tn part addr lead foll \<and> LEO lead \<le> LEO foll + 1)"

definition holds :: "string \<Rightarrow> int \<Rightarrow> Record list \<Rightarrow> Broker \<Rightarrow> bool" where
  "holds tn part rs b \<longleftrightarrow> (\<exists>l. Store_Get (bstore b) tn part = Some l \<and> contents l = rs)"

lemma one_behind_mark [simp]: "one_behind tn part F (SetHighWatermark lead h) fb = one_behind tn part F lead fb"
  by (simp add: one_behind_def)

lemma turn_marks:
  assumes "lead_ok tn part F lb" "Store_Get (bstore lb) tn part = Some lead" "one_behind tn part F lead fb" "in_i64 part" "eflt e = no_fault"
  shows "\<exists>fb' lb' h. replica_turn e now tn part fb lb = (fb', lb') \<and> holds tn part (contents lead) fb'
    \<and> lead_ok tn part F lb' \<and> Store_Get (bstore lb') tn part = Some (SetHighWatermark lead h) \<and> bcluster lb' = bcluster lb
    \<and> (\<forall>j. map_of (states_of lb' tn part) j =
         (if j = self_id fb then Some \<lparr>rleo = LEO lead, rlastSeen = enow e\<rparr> else map_of (states_of lb tn part) j))
    \<and> ((\<forall>j\<in>F. IsAlive (enow e) (bcluster lb) j \<longrightarrow> (\<forall>st. map_of (states_of lb' tn part) j = Some st \<longrightarrow> LEO lead \<le> rleo st)) \<longrightarrow> h = LEO lead)"
proof -
  obtain addr foll where F: "self_id fb \<in> F" "follower_of fb tn part addr lead foll" "LEO lead \<le> LEO foll + 1"
    using assms(3) by (auto simp: one_behind_def)
  let ?ack = "\<lparr>aBrokerID = self_id fb, aTopic = tn, aPartition = part, aLEO = LEO lead\<rparr>"
  obtain fb' foll' where fb': "follow_pass no_fault now (served_net e lb) fb tn part = (FollowDone, fb')"
      "Store_Get (bstore fb') tn part = Some foll'" "contents foll' = contents lead" "outbox fb' = outbox fb @ [MsgAck addr ?ack]"
    using pass_copies [OF assms(1,2) F(2,3) assms(4)] by blast
  have "replica_turn e now tn part fb lb = (fb', snd (exec (ask e) (ReplicaAck addr ?ack) lb))"
    using fb'(1,4) by (simp add: replica_turn_def deliver_def)
  then show ?thesis
    using ack_marks [OF assms(1,2,5) F(1), of addr "LEO lead"] fb'(2,3) by (auto simp: holds_def)
qed

lemma turns_commit:
  assumes "fbs \<noteq> []" "lead_ok tn part F lb" "Store_Get (bstore lb) tn part = Some lead" "\<forall>fb\<in>set fbs. one_behind tn part F lead fb"
    "in_i64 part" "eflt e = no_fault"
    "\<forall>j\<in>F. IsAlive (enow e) (bcluster lb) j \<and> j \<notin> self_id ` set fbs \<longrightarrow>
       (\<forall>st. map_of (states_of lb tn part) j = Some st \<longrightarrow> LEO lead \<le> rleo st)"
  shows "\<exists>fbs' lb' lead'. replica_turns e now tn part fbs lb = (fbs', lb') \<and> length fbs' = length fbs
    \<and> (\<forall>fb\<in>set fbs'. holds tn part (contents lead) fb)
    \<and> Store_Get (bstore lb') tn part = Some lead' \<and> contents lead' = contents lead \<and> LEO lead' = LEO lead \<and> HighWatermark lead' = LEO lead"
  using assms
proof (induction fbs arbitrary: lb lead rule: list_nonempty_induct)
  case (single fb)
  obtain fb' lb' h where t: "replica_turn e now tn part fb lb = (fb', lb')" "holds tn part (contents lead) fb'"
      "Store_Get (bstore lb') tn part = Some (SetHighWatermark lead h)"
      "\<forall>j. map_of (states_of lb' tn part) j =
         (if j = self_id fb then Some \<lparr>rleo = LEO lead, rlastSeen = enow e\<rparr> else map_of (states_of lb tn part) j)"
      "(\<forall>j\<in>F. IsAlive (enow e) (bcluster lb) j \<longrightarrow> (\<forall>st. map_of (states_of lb' tn part) j = Some st \<longrightarrow> LEO lead \<le> rleo st)) \<longrightarrow> h = LEO lead"
    using turn_marks [OF single(1,2) _ single(4,5)] single(3) by force
  have "h = LEO lead" using t(4,5) single(6) by auto
  moreover have "log_inv lead" using single(1,2) by (auto simp: lead_ok_def)
  ultimately show ?case
    using t(1-3) SetHighWatermark_value(1) log_inv_facts(6) by (auto simp: HighWatermark_def)
next
  case (cons fb fbs)
  obtain fb' lb' h where t: "replica_turn e now tn part fb lb = (fb', lb')" "holds tn part (contents lead) fb'"
      "lead_ok tn part F lb'" "Store_Get (bstore lb') tn part = Some (SetHighWatermark lead h)" "bcluster lb' = bcluster lb"
      "\<forall>j. map_of (states_of lb' tn part) j =
         (if j = self_id fb then Some \<lparr>rleo = LEO lead, rlastSeen = enow e\<rparr> else map_of (states_of lb tn part) j)"
    using turn_marks [OF cons(3,4) _ cons(6,7)] cons(5) by force
  have "\<forall>j\<in>F. IsAlive (enow e) (bcluster lb') j \<and> j \<notin> self_id ` set fbs \<longrightarrow>
       (\<forall>st. map_of (states_of lb' tn part) j = Some st \<longrightarrow> LEO (SetHighWatermark lead h) \<le> rleo st)"
    using cons(8) t(5,6) by auto
  then show ?case
    using cons(2) [OF t(3,4) _ cons(6,7)] cons(5) t(1,2) by (auto split: prod.splits)
qed

section \<open>The produce request\<close>

text \<open>A leader that has a recent acknowledgement of a live replica does not commit what it appends.\<close>

lemma append_waits:
  assumes ok: "lead_ok tn part F b" and lg: "Store_Get (bstore b) tn part = Some lg"
    and fits: "in_i64 now" "now \<noteq> 0" "LEO lg < max_i64" "25 + length (prKey rec) + length (prValue rec) \<le> 67108864"
      "valid_utf8 (prKey rec)" "valid_utf8 (prValue rec)" "eflt e = no_fault"
    and pm: "partition_meta b tn part = Some pm" and i: "i \<in> set (pReplicas pm)" "i \<noteq> self_id b" "IsAlive now (bcluster b) i"
      "map_of (states_of b tn part) i = Some st" "now - rlastSeen st \<le> cReplicaLagTime (bcfg b)" "rleo st \<le> LEO lg"
  shows "\<exists>b' lg'. produce_append e now b tn part rec = (Inr (LEO lg), b') \<and> lead_ok tn part F b' \<and> bcluster b' = bcluster b
    \<and> bcfg b' = bcfg b \<and> Store_Get (bstore b') tn part = Some lg' \<and> LEO lg' = LEO lg + 1 \<and> start lg' = start lg \<and> HighWatermark lg' \<le> LEO lg
    \<and> contents lg' = contents lg @ [\<lparr>Offset = LEO lg, Timestamp = now, Key = prKey rec, Value = prValue rec\<rparr>]"
proof -
  have b: "pLeader pm = self_id b" "log_inv lg" using ok lg pm by (auto simp: lead_ok_def)
  obtain l1 where l1: "Log_Append no_fault now lg (prKey rec) (prValue rec) = (Inr (LEO lg), l1)" "log_inv l1"
      "contents l1 = contents lg @ [\<lparr>Offset = LEO lg, Timestamp = now, Key = prKey rec, Value = prValue rec\<rparr>]"
      "LEO l1 = LEO lg + 1" "start l1 = start lg" "HighWatermark l1 = HighWatermark lg"
    using Log_Append_inv [OF b(2) fits(3,1,4)] by blast
  define c where "c = noteSelfLEO now (b\<lparr>bstore := Store_put (bstore b) tn part l1\<rparr>) tn part (LEO l1)"
  have pa: "produce_append e now b tn part rec = (Inr (LEO lg), recomputeHW no_fault now (ewr e) c tn part)"
    using pm b(1) l1(1) fits(7) Store_Open_get [OF lg] by (simp add: produce_append_def c_def)
  have "partition_meta c tn part = Some pm" "pLeader pm = self_id c" "Store_Get (bstore c) tn part = Some l1"
    using pm b(1) by (simp_all add: c_def)
  moreover have "bcluster c = bcluster b" "bcfg c = bcfg b" by (simp_all add: c_def noteSelfLEO_def noteReplica_def Let_def)
  ultimately have c: "partition_meta c tn part = Some pm" "pLeader pm = self_id c" "Store_Get (bstore c) tn part = Some l1"
      "bcluster c = bcluster b" "bcfg c = bcfg b" by blast+
  have sts: "map_of (states_of c tn part) i = Some st"
    using i(2,4) by (auto simp: c_def noteSelfLEO_def noteReplica_def states_of_def Let_def split: option.splits)
  define isr where "isr = compute_isr now c tn pm"
  have "pID pm = part" using pm by (rule partition_metaE)
  then have "i \<in> set isr" using i sts c by (simp add: isr_def compute_isr_def)
  then have h: "compute_hw c tn part (LEO l1) isr \<le> LEO lg"
    using compute_hw_spec [of c tn part "LEO l1" isr] i(2,6) sts c(2) b(1) by fastforce
  define lg' where "lg' = SetHighWatermark l1 (compute_hw c tn part (LEO l1) isr)"
  have get: "Store_Get (bstore (recomputeHW no_fault now (ewr e) c tn part)) tn part = Some lg'"
    using recomputeHW_leader(1) [OF c(1-3), of now "ewr e"] by (simp add: isr_def lg'_def)
  have hw: "HighWatermark lg' \<le> LEO lg"
    using SetHighWatermark_value(1) [OF l1(2)] h l1(6) log_inv_facts(6) [OF b(2)] by (simp add: HighWatermark_def lg'_def)
  have fit3: "LEO (the (Store_Get (bstore b) tn part)) < max_i64" using fits(3) lg by simp
  have "lead_ok tn part F (recomputeHW no_fault now (ewr e) c tn part)"
    using append_lead_to [OF ok pa fits(7,1,2) fit3 fits(4-6)] by (simp add: lead_to_def)
  then show ?thesis using pa get hw l1 c(4,5) by (simp add: recomputeHW_env) (simp add: lg'_def)
qed

lemma one_behind_append:
  assumes "log_inv lg" "LEO lg' = LEO lg + 1" "start lg' = start lg" "contents lg' = contents lg @ [r]"
    "self_id fb \<in> F" "follower_of fb tn part addr lg foll" "LEO foll = LEO lg"
  shows "one_behind tn part F lg' fb"
  using assms unfolding one_behind_def follower_of_def by (intro conjI exI [of _ addr] exI [of _ foll]) auto

lemma produce_single:
  assumes "topic b (rqTopic req) = Some t" "rqRecords req = []" "rqAcks req = ''all'' \<or> rqAcks req = ''-1''"
    "produce_one e req (rqAcks req) (int (length (tPartitions t))) (fst (ewaits e 0)) (snd (ewaits e 0))
       \<lparr>prKey = rqKey req, prValue = rqValue req, prPartition = rqPartition req\<rparr> b = (OneOk res, b')"
  shows "handleProduce e b (Good req) q = (Done (Ret (200, BProduce \<lparr>rsTopic = rqTopic req, rsResults = [res]\<rparr>)), b')"
proof -
  have "(if rqAcks req = '''' then ''1'' else rqAcks req) = rqAcks req" using assms(3) by auto
  then have "produceLocal e b req = (POk \<lparr>rsTopic = rqTopic req, rsResults = [res]\<rparr>, b')"
    using assms(1,2,4) by (simp add: produceLocal_def Let_def)
  then show ?thesis by (simp add: handleProduce_def writeJSON_def json_answer_def)
qed

text \<open>
  C4.  A produce request with \<open>acks=all\<close> is answered, and then every live replica has the
  record.  Let a broker lead a partition, with followers whose logs have caught up and among
  which are all live replicas, and let one of them have acknowledged within the lag time.  If
  before the timeout each follower makes one pass of its loop and the leader's handler serves
  the fetches and takes the acknowledgements, then the request is answered with the offset
  of the record; the high watermark is behind it, and the logs of all these followers are the
  leader's log.  Replicas that are dead do not hold the request up.
\<close>

theorem acks_all_replicates:
  assumes "topic b (rqTopic req) = Some t" "rqRecords req = []" "rqAcks req = ''all'' \<or> rqAcks req = ''-1''"
    "produce_pid req \<lparr>prKey = rqKey req, prValue = rqValue req, prPartition = rqPartition req\<rparr> (int (length (tPartitions t)))
       (bpartitioner b) = (Some pid, p)"
    "lead_ok (rqTopic req) pid F b" "partition_meta b (rqTopic req) pid = Some pm" "Store_Get (bstore b) (rqTopic req) pid = Some lg"
    "in_i64 pid" "LEO lg < max_i64" "eflt e = no_fault" "eflt er = no_fault"
    "in_i64 (fst (ewaits e 0))" "fst (ewaits e 0) \<noteq> 0" "25 + length (rqKey req) + length (rqValue req) \<le> 67108864"
    "valid_utf8 (rqKey req)" "valid_utf8 (rqValue req)"
    "\<forall>fb\<in>set fbs. self_id fb \<in> F \<and> (\<exists>addr foll. follower_of fb (rqTopic req) pid addr lg foll \<and> LEO foll = LEO lg)"
    "\<forall>i\<in>F. IsAlive (enow er) (bcluster b) i \<longrightarrow> i \<in> self_id ` set fbs"
    "fb \<in> set fbs" "self_id fb \<in> set (pReplicas pm)" "IsAlive (fst (ewaits e 0)) (bcluster b) (self_id fb)"
    "map_of (states_of b (rqTopic req) pid) (self_id fb) = Some st" "rleo st \<le> LEO lg"
    "fst (ewaits e 0) - rlastSeen st \<le> cReplicaLagTime (bcfg b)"
    "snd (ewaits e 0) = (t1, t2, \<lambda>lb. snd (replica_turns er tr (rqTopic req) pid fbs lb)) # ps"
    "0 < cProduceTimeout (bcfg b)" "t1 < fst (ewaits e 0) + cProduceTimeout (bcfg b)"
  shows "\<exists>b1 fbs' b' lg'. produce_append e (fst (ewaits e 0)) (b\<lparr>bpartitioner := p\<rparr>) (rqTopic req) pid
        \<lparr>prKey = rqKey req, prValue = rqValue req, prPartition = rqPartition req\<rparr> = (Inr (LEO lg), b1)
    \<and> replica_turns er tr (rqTopic req) pid fbs b1 = (fbs', b')
    \<and> handleProduce e b (Good req) q =
        (Done (Ret (200, BProduce \<lparr>rsTopic = rqTopic req, rsResults = [\<lparr>resPartition = pid, resOffset = LEO lg\<rparr>]\<rparr>)), b')
    \<and> Store_Get (bstore b') (rqTopic req) pid = Some lg'
    \<and> contents lg' = contents lg @ [\<lparr>Offset = LEO lg, Timestamp = fst (ewaits e 0), Key = rqKey req, Value = rqValue req\<rparr>]
    \<and> HighWatermark lg' = LEO lg + 1
    \<and> length fbs' = length fbs \<and> (\<forall>fb\<in>set fbs'. holds (rqTopic req) pid (contents lg') fb)"
proof -
  let ?rec = "\<lparr>prKey = rqKey req, prValue = rqValue req, prPartition = rqPartition req\<rparr>" and ?now = "fst (ewaits e 0)"
  let ?tn = "rqTopic req" and ?b0 = "b\<lparr>bpartitioner := p\<rparr>"
  have sts: "states_of ?b0 = states_of b" by (intro ext) (simp add: states_of_def)
  have ok0: "lead_ok ?tn pid F ?b0" using assms(5) by (simp add: lead_ok_def)
  have "self_id fb \<in> F" "self_id b \<notin> F" "log_inv lg" using assms(5,7,17,19) by (auto simp: lead_ok_def)
  then have ne: "self_id fb \<noteq> self_id b" "log_inv lg" by auto
  obtain b1 l1 where b1: "produce_append e ?now ?b0 ?tn pid ?rec = (Inr (LEO lg), b1)" "lead_ok ?tn pid F b1" "bcluster b1 = bcluster b"
      "bcfg b1 = bcfg b" "Store_Get (bstore b1) ?tn pid = Some l1" "LEO l1 = LEO lg + 1" "start l1 = start lg" "HighWatermark l1 \<le> LEO lg"
      "contents l1 = contents lg @ [\<lparr>Offset = LEO lg, Timestamp = ?now, Key = rqKey req, Value = rqValue req\<rparr>]"
    using append_waits [OF ok0, of lg ?now ?rec e pm "self_id fb" st] assms(6,7,9,10,12-16,20-24) ne sts by auto
  have "\<forall>fb\<in>set fbs. one_behind ?tn pid F l1 fb"
    using assms(17) one_behind_append [OF ne(2) b1(6,7,9)] by blast
  moreover have "\<forall>j\<in>F. IsAlive (enow er) (bcluster b1) j \<and> j \<notin> self_id ` set fbs \<longrightarrow>
       (\<forall>st. map_of (states_of b1 ?tn pid) j = Some st \<longrightarrow> LEO l1 \<le> rleo st)" using assms(18) b1(3) by auto
  moreover have "fbs \<noteq> []" using assms(19) by auto
  ultimately obtain fbs' b' lg' where r: "replica_turns er tr ?tn pid fbs b1 = (fbs', b')" "length fbs' = length fbs"
      "\<forall>fb\<in>set fbs'. holds ?tn pid (contents l1) fb" "Store_Get (bstore b') ?tn pid = Some lg'" "contents lg' = contents l1"
      "HighWatermark lg' = LEO l1"
    using turns_commit [OF _ b1(2,5) _ assms(8,11)] by blast
  have w0: "wait_hw ?tn pid (LEO lg) d x ps b' = (Some True, b')" for d x
    using r(4,6) b1(6) by (subst wait_hw.simps) (simp add: log_hw_def)
  have "wait_hw ?tn pid (LEO lg) (cProduceTimeout (bcfg b1)) (?now + cProduceTimeout (bcfg b1)) (snd (ewaits e 0)) b1 = (Some True, b')"
    using assms(26,27) b1(4,5,6,8) r(1,4,6) w0 by (subst wait_hw.simps) (simp add: assms(25) log_hw_def)
  then have "produce_one e req (rqAcks req) (int (length (tPartitions t))) ?now (snd (ewaits e 0)) ?rec b =
      (OneOk \<lparr>resPartition = pid, resOffset = LEO lg\<rparr>, b')"
    using assms(3,4) b1(1) by (auto simp: produce_one_def Let_def)
  note produce_single [OF assms(1-3) this]
  then show ?thesis using b1(1,6,9) r by metis
qed

text \<open>Broker 1 waits for broker 2, which acknowledged its empty log a moment ago.\<close>

theorem acks_all_replicates_witness:
  "\<exists>l fbs' b' lg'. Log_Open no_fault small_cfg [] = Inr l
    \<and> handleProduce (example_env\<lparr>ewaits := \<lambda>i. (7, [(7, 7, \<lambda>lb. snd (replica_turns example_env 9 ''t'' 0 [example_broker 2 l] lb))])\<rparr>)
        (noteReplica 6 (example_broker 1 l) ''t'' 0 2 0) (Good (example_request ''all'')) no_query =
      (Done (Ret (200, BProduce \<lparr>rsTopic = ''t'', rsResults = [\<lparr>resPartition = 0, resOffset = 0\<rparr>]\<rparr>)), b')
    \<and> Store_Get (bstore b') ''t'' 0 = Some lg' \<and> HighWatermark lg' = 1
    \<and> contents lg' = [\<lparr>Offset = 0, Timestamp = 7, Key = [], Value = [118]\<rparr>]
    \<and> length fbs' = 1 \<and> (\<forall>fb\<in>set fbs'. holds ''t'' 0 (contents lg') fb)"
proof -
  obtain l where l: "Log_Open no_fault small_cfg [] = Inr l" "follower_of (example_broker 2 l) ''t'' 0 ''a'' (append_empty 6 l) l" "LEO l = 0"
    by (rule example_follower)
  have lg: "log_inv l" "follower_of (example_broker 2 l) ''t'' 0 ''a'' l l" using l(2) by (simp_all add: follower_of_def)
  have "length (contents l) = 0" using log_inv_facts(1,3) [OF lg(1)] l(3) by linarith
  then have nil: "contents l = []" by simp
  let ?b = "noteReplica 6 (example_broker 1 l) ''t'' 0 2 0" and ?req = "example_request ''all''"
  let ?e = "example_env\<lparr>ewaits := \<lambda>i. (7, [(7, 7, \<lambda>lb. snd (replica_turns example_env 9 ''t'' 0 [example_broker 2 l] lb))])\<rparr>"
  let ?pm = "\<lparr>pID = 0, pLeader = 1, pReplicas = [1, 2], pISR = [1]\<rparr>" and ?st = "\<lparr>rleo = 0, rlastSeen = 6\<rparr>"
  have same: "bstore ?b = bstore (example_broker 1 l)" "self_id ?b = self_id (example_broker 1 l)"
      "partition_meta ?b = partition_meta (example_broker 1 l)" "bpartitioner ?b = bpartitioner (example_broker 1 l)"
      "topic ?b = topic (example_broker 1 l)"
    by (simp_all add: noteReplica_def Let_def partition_meta_def topic_def fun_eq_iff)
  have ok: "lead_ok ''t'' 0 {2} ?b" using lg(1) nil by (simp add: lead_ok_def same)
  have al: "IsAlive 7 (bcluster ?b) 2" "cReplicaLagTime (bcfg ?b) = 5000000000" "cProduceTimeout (bcfg ?b) = 5000000000"
    by (simp_all add: noteReplica_def example_broker_def Let_def IsAlive_def MarkSeen_def Cluster_New_def default_cfg_def)
  have st: "map_of (states_of ?b ''t'' 0) 2 = Some ?st"
    by (simp add: noteReplica_def states_of_def Let_def)
  have tp: "topic ?b (rqTopic ?req) = Some \<lparr>tName = ''t'', tPartitions = [?pm]\<rparr>"
    by (simp add: same(5) example_request_def) (simp add: topic_def example_broker_def Let_def)
  let ?fb = "example_broker 2 l" and ?now = "fst (ewaits ?e 0)"
  have rq [simp]: "rqTopic ?req = ''t''" "rqRecords ?req = []" "rqAcks ?req = ''all''" "rqKey ?req = []" "rqValue ?req = [118]" "rqPartition ?req = 0"
    by (simp_all add: example_request_def)
  have h: "produce_pid ?req \<lparr>prKey = rqKey ?req, prValue = rqValue ?req, prPartition = rqPartition ?req\<rparr>
         (int (length (tPartitions \<lparr>tName = ''t'', tPartitions = [?pm]\<rparr>))) (bpartitioner ?b) = (Some 0, \<lparr>rr = 1\<rparr>)"
      "lead_ok (rqTopic ?req) 0 {2} ?b" "partition_meta ?b (rqTopic ?req) 0 = Some ?pm" "Store_Get (bstore ?b) (rqTopic ?req) 0 = Some l"
      "in_i64 0" "LEO l < max_i64" "eflt ?e = no_fault" "eflt example_env = no_fault"
    using example_pid [of "''all''" l] ok l(3) by (simp_all add: same in_i64_def example_env_def)
  have h2: "in_i64 ?now" "?now \<noteq> 0" "25 + length (rqKey ?req) + length (rqValue ?req) \<le> 67108864"
      "valid_utf8 (rqKey ?req)" "valid_utf8 (rqValue ?req)"
    by (simp_all add: in_i64_def utf8_len.simps Let_def)
  have h3: "\<forall>fb\<in>set [?fb]. self_id fb \<in> {2} \<and> (\<exists>addr foll. follower_of fb (rqTopic ?req) 0 addr l foll \<and> LEO foll = LEO l)"
      "\<forall>i\<in>{2}. IsAlive (enow example_env) (bcluster ?b) i \<longrightarrow> i \<in> self_id ` set [?fb]"
    using lg(2) by auto
  have h4: "?fb \<in> set [?fb]" "self_id ?fb \<in> set (pReplicas ?pm)" "IsAlive ?now (bcluster ?b) (self_id ?fb)"
      "map_of (states_of ?b (rqTopic ?req) 0) (self_id ?fb) = Some ?st" "rleo ?st \<le> LEO l" "?now - rlastSeen ?st \<le> cReplicaLagTime (bcfg ?b)"
    using al st l(3) by simp_all
  have h5: "snd (ewaits ?e 0) = (7, 7, \<lambda>lb. snd (replica_turns example_env 9 (rqTopic ?req) 0 [?fb] lb)) # []"
      "0 < cProduceTimeout (bcfg ?b)" "7 < ?now + cProduceTimeout (bcfg ?b)"
    using al by simp_all
  show ?thesis
    using acks_all_replicates [OF tp rq(2) disjI1 [OF rq(3)] h h2 h3 h4 h5, of no_query] l(1,3) nil by (auto simp del: example_broker_simps)
qed

text \<open>
  A leader without acknowledgements on record, as after its start or its election, waits for
  nobody: the first produce request with \<open>acks=all\<close> shrinks the in-sync set to the leader,
  whatever live replicas it named, and is answered with the only copy of the record committed.
\<close>

theorem acks_all_alone:
  assumes "topic b (rqTopic req) = Some t" "rqRecords req = []" "rqAcks req = ''all'' \<or> rqAcks req = ''-1''"
    "produce_pid req \<lparr>prKey = rqKey req, prValue = rqValue req, prPartition = rqPartition req\<rparr> (int (length (tPartitions t)))
       (bpartitioner b) = (Some pid, p)"
    "partition_meta b (rqTopic req) pid = Some pm" "pLeader pm = self_id b"
    "Store_Get (bstore b) (rqTopic req) pid = Some lg" "log_inv lg" "LEO lg < max_i64" "in_i64 (fst (ewaits e 0))"
    "25 + length (rqKey req) + length (rqValue req) \<le> 67108864" "eflt e = no_fault"
    "states_of b (rqTopic req) pid = []"
  shows "\<exists>b' lg' pm'. handleProduce e b (Good req) q =
      (Done (Ret (200, BProduce \<lparr>rsTopic = rqTopic req, rsResults = [\<lparr>resPartition = pid, resOffset = LEO lg\<rparr>]\<rparr>)), b')
    \<and> Store_Get (bstore b') (rqTopic req) pid = Some lg' \<and> HighWatermark lg' = LEO lg + 1
    \<and> partition_meta b' (rqTopic req) pid = Some pm' \<and> set (pISR pm') = {self_id b}"
proof -
  let ?rec = "\<lparr>prKey = rqKey req, prValue = rqValue req, prPartition = rqPartition req\<rparr>" and ?now = "fst (ewaits e 0)"
  let ?tn = "rqTopic req" and ?b0 = "b\<lparr>bpartitioner := p\<rparr>"
  obtain l1 where l1: "Log_Append no_fault ?now lg (rqKey req) (rqValue req) = (Inr (LEO lg), l1)" "log_inv l1" "LEO l1 = LEO lg + 1"
    using Log_Append_inv [OF assms(8-11)] by blast
  define c where "c = noteSelfLEO ?now (?b0\<lparr>bstore := Store_put (bstore ?b0) ?tn pid l1\<rparr>) ?tn pid (LEO l1)"
  let ?b' = "recomputeHW no_fault ?now (ewr e) c ?tn pid"
  have pa: "produce_append e ?now ?b0 ?tn pid ?rec = (Inr (LEO lg), ?b')"
    using assms(5,6,7,12) l1(1) Store_Open_get [OF assms(7)] by (simp add: produce_append_def c_def)
  have c: "partition_meta c ?tn pid = Some pm" "pLeader pm = self_id c" "Store_Get (bstore c) ?tn pid = Some l1" "self_id c = self_id b"
    using assms(5,6) by (simp_all add: c_def)
  have "map_of (states_of c ?tn pid) i = None" if "i \<noteq> self_id b" for i
    using assms(13) that by (auto simp: c_def noteSelfLEO_def noteReplica_def states_of_def Let_def split: option.splits)
  moreover have "pID pm = pid" using assms(5) by (rule partition_metaE)
  ultimately have isr: "compute_isr ?now c ?tn pm = [self_id b]" using c(4) by (auto simp: compute_isr_def filter_empty_conv)
  have hw: "compute_hw c ?tn pid (LEO l1) [self_id b] = LEO l1" using c(4) by (simp add: compute_hw_def)
  let ?lg' = "SetHighWatermark l1 (LEO l1)" and ?pm' = "if sameInts (pISR pm) [self_id b] then pm else pm\<lparr>pISR := [self_id b]\<rparr>"
  have r: "Store_Get (bstore ?b') ?tn pid = Some ?lg'" "partition_meta ?b' ?tn pid = Some ?pm'"
    using recomputeHW_leader [OF c(1-3), of ?now "ewr e"] by (simp_all add: isr hw)
  have m: "HighWatermark ?lg' = LEO lg + 1"
    using SetHighWatermark_value(1) [OF l1(2)] log_inv_facts(6) [OF l1(2)] l1(3) by (simp add: HighWatermark_def)
  have s: "set (pISR ?pm') = {self_id b}" using sameInts_set [of "pISR pm" "[self_id b]"] by auto
  have "wait_hw ?tn pid (LEO lg) d x ps ?b' = (Some True, ?b')" for d x ps
    using r(1) m by (subst wait_hw.simps) (simp add: log_hw_def)
  then have "produce_one e req (rqAcks req) (int (length (tPartitions t))) ?now (snd (ewaits e 0)) ?rec b =
      (OneOk \<lparr>resPartition = pid, resOffset = LEO lg\<rparr>, ?b')"
    using assms(3,4) pa by (auto simp: produce_one_def Let_def)
  from produce_single [OF assms(1-3) this] r m s show ?thesis by blast
qed

end
