(* ===== verification/LS_Proxy.thy ===== *)
theory LS_Proxy
  imports LS_Serve
begin

text \<open>
  A client and several brokers: the programs of the client (\<^verbatim>\<open>src/internal/client/client.go\<close>) run
  against the handlers of brokers that forward what they do not lead
  (\<^verbatim>\<open>src/internal/broker/handlers.go\<close>).
\<close>

section \<open>A network of brokers\<close>

text \<open>
  The brokers by their addresses.  A request to a broker runs its handler and the calls that the
  handler makes; the number bounds how deep these calls may nest.
\<close>

type_synonym network = "string \<Rightarrow> Broker option"

fun brokers_net :: "(string \<Rightarrow> henv) \<Rightarrow> nat \<Rightarrow> network \<Rightarrow> string \<Rightarrow> request \<Rightarrow> answer \<times> network" where
  "brokers_net es 0 s a q = (None, s)"
| "brokers_net es (Suc n) s a q =
     (case s a of
        None \<Rightarrow> (None, s)
      | Some b \<Rightarrow>
          (case serve (es a) b q of
             (Done p, b') \<Rightarrow> (case exec (brokers_net es n) p (s(a \<mapsto> b')) of (r, s') \<Rightarrow> (Some r, s'))
           | (_, b') \<Rightarrow> (None, s(a \<mapsto> b'))))"

lemma net_local:
  assumes "s a = Some b" "serve (es a) b q = (Done (Ret r), b')"
  shows "brokers_net es (Suc n) s a q = (Some r, s(a \<mapsto> b'))"
  using assms by simp

lemma net_forward:
  assumes "s a = Some b" "serve (es a) b q = (Done (bind p (\<lambda>x. Ret (f x))), b)" "exec (brokers_net es n) p s = (x, s')"
  shows "brokers_net es (Suc n) s a q = (Some (f x), s')"
  using assms by (simp add: exec_bind fun_upd_idem)

declare brokers_net.simps [simp del]

section \<open>Producing through another broker\<close>

lemma json_produce_text:
  assumes "rqRecords req = []" "valid_utf8 (rqKey req)" "valid_utf8 (rqValue req)"
  shows "json_produce req = req"
  using assms by (simp add: json_produce_def json_string_id)

lemma produce_forwards:
  assumes "topic b (rqTopic req) = Some t" "rqRecords req = []"
    "produce_pid req \<lparr>prKey = rqKey req, prValue = rqValue req, prPartition = rqPartition req\<rparr> (int (length (tPartitions t)))
       (bpartitioner b) = (Some pid, bpartitioner b)"
    "leads b (rqTopic req) pid l" "l \<noteq> self_id b" "Addr (bcluster b) l = al" "al \<noteq> ''''" "al \<noteq> cAdvertise (bcfg b)"
  shows "\<exists>f. handleProduce e b (Good req) q = (Done (bind (Client_Produce \<lparr>Brokers = []\<rparr> al req) (\<lambda>r. Ret (f r))), b)
    \<and> (\<forall>x. f (Inr x) = (200, BProduce x))"
proof -
  have bp: "b\<lparr>bpartitioner := bpartitioner b\<rparr> = b" by simp
  have "produce_one e req acks (int (length (tPartitions t))) now ps
      \<lparr>prKey = rqKey req, prValue = rqValue req, prPartition = rqPartition req\<rparr> b = (OneErr (NotLeader l), b)" for acks now ps
    using assms(3) not_leader_append [OF assms(4,5)] by (simp add: produce_one_def bp)
  then have "produceLocal e b req = (PErr \<lparr>rsTopic = rqTopic req, rsResults = []\<rparr> (NotLeader l), b)"
    using assms(1,2) by (simp add: produceLocal_def Let_def)
  then have h: "handleProduce e b (Good req) q = (Done (produce_reply e b req (NotLeader l)), b)"
    by (simp add: handleProduce_def)
  let ?f = "\<lambda>r. case r of Inr proxied \<Rightarrow> writeJSON 200 (BProduce proxied)
    | Inl e \<Rightarrow> writeJSON 409 (BError \<lparr>eError = ''not_leader'', eLeader = l, eLeaderAddr = al\<rparr>)"
  have "produce_reply e b req (NotLeader l) = bind (Client_Produce \<lparr>Brokers = []\<rparr> al req) (\<lambda>r. Ret (?f r))"
    using assms(6-8) by (simp add: produce_reply_def Let_def)
  then show ?thesis using h by (intro exI [of _ ?f]) (simp add: writeJSON_def json_answer_def)
qed

lemma fetch_forwards:
  assumes "leads b tn part l" "l \<noteq> self_id b" "Addr (bcluster b) l = al" "al \<noteq> ''''" "in_i64 part" "in_i64 off" "in_i64 mb" "0 < mb"
  shows "\<exists>f. handleFetch e b \<lparr>fqTopic = tn, fqPartition = Itoa part, fqOffset = Itoa off, fqMaxBytes = Itoa mb, fqReplica = ''''\<rparr>
      = (Done (bind (Client_Fetch \<lparr>Brokers = []\<rparr> al tn part off mb False) (\<lambda>r. Ret (f r))), b)
    \<and> (\<forall>x. f (Inr x) = (200, BFetch (x\<lparr>fRecords := map json_wire (fRecords x)\<rparr>)))"
  using assms by (auto simp: leads_def handleFetch_def serveFetch_def writeJSON_def json_answer_def Let_def)

text \<open>The client's two calls, by the answer of the broker they go to.\<close>

lemma produce_answered:
  assumes "net s a (ReqProduce (Good (json_produce req)) no_query) = (Some (200, BProduce r), s')" "a \<noteq> ''''"
  shows "exec net (Client_Produce c a req) s = (Inr r, s')"
  using assms by (simp add: Client_Produce_def numeral_eq_Suc as_produce_def)

lemma fetch_answered:
  assumes "net s a (ReqFetch \<lparr>fqTopic = tn, fqPartition = Itoa part, fqOffset = Itoa off, fqMaxBytes = Itoa mb, fqReplica = ''''\<rparr>)
      = (Some (200, BFetch r), s')" "a \<noteq> ''''"
  shows "exec net (Client_Fetch c a tn part off mb False) s = (Inr r, s')"
  using assms by (simp add: Client_Fetch_def as_fetch_def)

section \<open>Reading what was written\<close>

lemma consec_at: "consec s xs \<Longrightarrow> i < length xs \<Longrightarrow> Offset (xs ! i) = s + int i"
  by (simp add: consec_def)

lemma consec_distinct: "consec s xs \<Longrightarrow> distinct (map Offset xs)"
  by (auto simp: consec_def distinct_conv_nth)

lemma subseq_keeps:
  assumes "subseq xs ys"
  shows "set xs \<subseteq> set ys \<and> (distinct ys \<longrightarrow> distinct xs)"
  using assms by (induction rule: list_emb.induct) auto

lemma read_last:
  assumes "log_inv l" "contents l = rs @ [r]" "Offset r = off" "off < HighWatermark l"
  shows "Read l off mb (HighWatermark l) = Inr [r]"
proof -
  note f = log_inv_facts [OF assms(1)]
  have off: "off = LEO l - 1"
    using f(1) consec_at [OF f(2), of "length rs"] assms(2,3) by simp
  have h: "start l \<le> off" "0 \<le> HighWatermark l" "HighWatermark l \<le> LEO l"
    using f(1,5,6) assms(2) off by (simp_all add: HighWatermark_def)
  obtain xs where xs: "Read l off mb (HighWatermark l) = Inr xs" "subseq xs (contents l)"
      "\<forall>x\<in>set xs. off \<le> Offset x \<and> Offset x < HighWatermark l" "xs \<noteq> []"
    by (rule Read_committed [OF assms(1) h, of mb]) (simp add: assms(4))
  have d: "distinct (map Offset (contents l))" using consec_distinct [OF f(2)] .
  have "set xs \<subseteq> {r}"
  proof
    fix x assume x: "x \<in> set xs"
    then have "x \<in> set (contents l)" using subseq_keeps [OF xs(2)] by blast
    moreover have "Offset x = Offset r" using x xs(3) h(3) off assms(3) by fastforce
    moreover have "r \<in> set (contents l)" using assms(2) by simp
    ultimately show "x \<in> {r}" using d by (auto simp: distinct_map dest: inj_onD)
  qed
  moreover have "distinct xs" using subseq_keeps [OF xs(2)] d by (simp add: distinct_map)
  ultimately have "xs = [r]" using xs(4) by (cases xs; cases "tl xs") auto
  then show ?thesis using xs(1) by simp
qed

text \<open>What a fetch of that record at the leader answers.\<close>

lemma leader_fetch_last:
  assumes "leads b tn part (self_id b)" "Store_Get (bstore b) tn part = Some l" "log_inv l" "contents l = rs @ [r]"
    "Offset r < HighWatermark l" "text_rec r" "in_i64 part" "in_i64 (Offset r)"
  shows "\<exists>fr. serve e b (ReqFetch \<lparr>fqTopic = tn, fqPartition = Itoa part, fqOffset = Itoa (Offset r), fqMaxBytes = Itoa mb, fqReplica = ''''\<rparr>)
      = (Done (Ret (200, BFetch fr)), b) \<and> map fromWire (fRecords fr) = [r]"
proof -
  define m where "m = (if parse_lenient (Itoa mb) \<le> 0 then 1048576 else parse_lenient (Itoa mb))"
  obtain pm where pm: "partition_meta b tn part = Some pm" "pLeader pm = self_id b" using assms(1) by (auto simp: leads_def)
  have "Read l (Offset r) m (HighWatermark l) = Inr [r]" by (rule read_last [OF assms(3,4) refl assms(5)])
  then show ?thesis
    using serveFetch_leader [OF pm assms(2,7,8), of m False "[r]" "Itoa mb" e "''''"] assms(6)
    by (simp add: serve_def handleFetch_def m_def toWire_def wire_text)
qed

lemma fromWire_json: "text_rec (fromWire w) \<Longrightarrow> fromWire (json_wire w) = fromWire w"
  by (simp add: text_rec_def fromWire_def json_wire_def json_string_id)

text \<open>The same fetch from a broker that leads the partition or from one that knows the leader.\<close>

lemma fetch_anywhere:
  assumes "s ab = Some b" "s al = Some lb" "ab \<noteq> ''''" "al \<noteq> ''''" "leads b tn part (self_id lb)" "self_id lb \<noteq> self_id b"
    "Addr (bcluster b) (self_id lb) = al" "in_i64 part" "in_i64 mb" "0 < mb" "leads lb tn part (self_id lb)"
    "Store_Get (bstore lb) tn part = Some l" "log_inv l" "contents l = rs @ [r]" "Offset r < HighWatermark l" "text_rec r"
    "in_i64 (Offset r)" "a \<in> {ab, al}"
  shows "\<exists>fr. exec (brokers_net es (Suc (Suc k))) (Client_Fetch c a tn part (Offset r) mb False) s = (Inr fr, s)
    \<and> map fromWire (fRecords fr) = [r]"
proof -
  let ?q = "\<lparr>fqTopic = tn, fqPartition = Itoa part, fqOffset = Itoa (Offset r), fqMaxBytes = Itoa mb, fqReplica = ''''\<rparr>"
  obtain fr where fr: "serve (es al) lb (ReqFetch ?q) = (Done (Ret (200, BFetch fr)), lb)" "map fromWire (fRecords fr) = [r]"
    using leader_fetch_last [OF assms(11-16,8,17), of "es al" mb] by auto
  have direct: "brokers_net es (Suc m) s al (ReqFetch ?q) = (Some (200, BFetch fr), s)" for m
    using net_local [where s = s and a = al and es = es, OF assms(2) fr(1)] assms(2) by (simp add: fun_upd_idem)
  have asked: "exec (brokers_net es (Suc m)) (Client_Fetch d al tn part (Offset r) mb False) s = (Inr fr, s)" for m d
    by (rule fetch_answered [where net = "brokers_net es (Suc m)" and s = s and a = al, OF direct assms(4)])
  obtain g where g: "serve (es ab) b (ReqFetch ?q) = (Done (bind (Client_Fetch \<lparr>Brokers = []\<rparr> al tn part (Offset r) mb False) (\<lambda>r. Ret (g r))), b)"
      "\<And>x. g (Inr x) = (200, BFetch (x\<lparr>fRecords := map json_wire (fRecords x)\<rparr>))"
    using fetch_forwards [OF assms(5-7,4,8,17,9,10), of "es ab"] by (auto simp: serve_def)
  have fwd: "brokers_net es (Suc (Suc k)) s ab (ReqFetch ?q) = (Some (200, BFetch (fr\<lparr>fRecords := map json_wire (fRecords fr)\<rparr>)), s)"
    using net_forward [where s = s and a = ab and es = es, OF assms(1) g(1) asked] by (simp add: g(2))
  have "map fromWire (map json_wire (fRecords fr)) = [r]"
    using fr(2) assms(16) fromWire_json by (auto simp: map_eq_Cons_conv)
  then show ?thesis
    using fetch_answered [where net = "brokers_net es (Suc (Suc k))" and s = s and a = ab and c = c, OF fwd assms(3)]
      asked [of "Suc k" c] fr(2) assms(18) by auto
qed

text \<open>
  C8.  A producer and a consumer may use any broker.  Let a broker at \<open>ab\<close> know the leader of a
  partition, at \<open>al\<close>, without leading it.  A keyed record sent to either of them is appended
  once to the leader's log, the answer is its partition, given by the hash of the key, and
  its offset, and no other broker changes.  As soon as the high watermark is beyond it, and at
  once if no follower is in sync, a fetch of that offset from either of them returns the record.
\<close>

theorem any_broker_serves:
  assumes "s ab = Some b" "s al = Some lb" "ab \<noteq> al" "ab \<noteq> ''''" "al \<noteq> ''''"
    "topic b (rqTopic req) = Some t" "leads b (rqTopic req) pid (self_id lb)" "self_id lb \<noteq> self_id b"
    "Addr (bcluster b) (self_id lb) = al" "al \<noteq> cAdvertise (bcfg b)"
    "topic lb (rqTopic req) = Some t'" "length (tPartitions t') = length (tPartitions t)"
    "0 < length (tPartitions t)" "length (tPartitions t) < 4294967296" "pid = uint (Hash32 (rqKey req)) mod int (length (tPartitions t))"
    "partition_meta lb (rqTopic req) pid = Some pm" "pLeader pm = self_id lb" "Store_Get (bstore lb) (rqTopic req) pid = Some lg"
    "log_inv lg" "LEO lg < max_i64" "in_i64 (fst (ewaits (es al) 0))" "eflt (es al) = no_fault"
    "rqRecords req = []" "rqPartition req = 0" "rqKey req \<noteq> []" "rqAcks req = ''1'' \<or> rqAcks req = ''''"
    "25 + length (rqKey req) + length (rqValue req) \<le> 67108864" "valid_utf8 (rqKey req)" "valid_utf8 (rqValue req)"
    "in_i64 mb" "0 < mb" "a \<in> {ab, al}" "a' \<in> {ab, al}" "2 \<le> n"
    "r = \<lparr>Offset = LEO lg, Timestamp = fst (ewaits (es al) 0), Key = rqKey req, Value = rqValue req\<rparr>"
  shows "\<exists>lb' lg'. exec (brokers_net es n) (Client_Produce c a req) s =
        (Inr \<lparr>rsTopic = rqTopic req, rsResults = [\<lparr>resPartition = pid, resOffset = LEO lg\<rparr>]\<rparr>, s(al \<mapsto> lb'))
    \<and> Store_Get (bstore lb') (rqTopic req) pid = Some lg' \<and> contents lg' = contents lg @ [r]
    \<and> (replicaLEO lb = [] \<longrightarrow> LEO lg < HighWatermark lg')
    \<and> (LEO lg < HighWatermark lg' \<longrightarrow>
         (\<exists>fr. exec (brokers_net es n) (Client_Fetch c a' (rqTopic req) pid (LEO lg) mb False) (s(al \<mapsto> lb')) = (Inr fr, s(al \<mapsto> lb'))
           \<and> map fromWire (fRecords fr) = [r]))"
proof -
  let ?tn = "rqTopic req" and ?len = "int (length (tPartitions t))"
  let ?res = "\<lparr>rsTopic = ?tn, rsResults = [\<lparr>resPartition = pid, resOffset = LEO lg\<rparr>]\<rparr>"
  obtain k where n: "n = Suc (Suc k)" using assms(34) by (metis One_nat_def add_2_eq_Suc le_Suc_ex)
  have "0 \<le> pid" "pid < ?len" using assms(13,15) by simp_all
  then have pid: "0 \<le> pid" "pid < ?len" "in_i64 pid" using assms(14) by (simp_all add: in_i64_def)
  have pp: "produce_pid req \<lparr>prKey = rqKey req, prValue = rqValue req, prPartition = rqPartition req\<rparr> ?len p = (Some pid, p)" for p
    using Partition_keyed [OF assms(25), of ?len p] assms(13-15,24) pid by (simp add: produce_pid_def)
  have js: "json_produce req = req" by (rule json_produce_text [OF assms(23,28,29)])
  obtain lb' lg' where lb': "handleProduce (es al) lb (Good req) no_query = (Done (Ret (200, BProduce ?res)), lb')"
      "Store_Get (bstore lb') ?tn pid = Some lg'" "log_inv lg'" "contents lg' = contents lg @ [r]"
      "replicaLEO lb = [] \<longrightarrow> HighWatermark lg' = LEO lg + 1" "bcfg lb' = bcfg lb" "leads lb' ?tn pid (self_id lb)"
    using produce_on_leader [OF assms(11,23,26) _ assms(16-21) assms(27,22), of "bpartitioner lb" no_query] pp [of "bpartitioner lb"] assms(12,35)
    by auto
  let ?s = "s(al \<mapsto> lb')"
  have direct: "brokers_net es (Suc m) s al (ReqProduce (Good req) no_query) = (Some (200, BProduce ?res), ?s)" for m
    by (rule net_local [where s = s and a = al, OF assms(2)]) (simp add: serve_def lb'(1))
  have sent: "exec (brokers_net es (Suc k)) (Client_Produce \<lparr>Brokers = []\<rparr> al req) s = (Inr ?res, ?s)"
    by (rule produce_answered [OF _ assms(5)]) (simp add: js direct)
  obtain f where f: "serve (es ab) b (ReqProduce (Good req) no_query) = (Done (bind (Client_Produce \<lparr>Brokers = []\<rparr> al req) (\<lambda>r. Ret (f r))), b)"
      "\<And>x. f (Inr x) = (200, BProduce x)"
    using produce_forwards [OF assms(6,23) pp assms(7,8,9,5,10), of "es ab" no_query] by (auto simp: serve_def)
  have "brokers_net es n s ab (ReqProduce (Good req) no_query) = (Some (200, BProduce ?res), ?s)"
    using net_forward [where s = s and a = ab and es = es, OF assms(1) f(1) sent] by (simp add: n f(2))
  then have P: "exec (brokers_net es n) (Client_Produce c a req) s = (Inr ?res, ?s)"
    using assms(4,5,32) direct [of "Suc k"] by (intro produce_answered) (auto simp: js n)
  have "\<exists>fr. exec (brokers_net es n) (Client_Fetch c a' ?tn pid (LEO lg) mb False) ?s = (Inr fr, ?s) \<and> map fromWire (fRecords fr) = [r]"
    if "LEO lg < HighWatermark lg'"
  proof -
    have ri: "in_i64 (LEO lg)" "text_rec r" "Offset r = LEO lg" using log_inv_facts [OF assms(19)] assms(28,29,35) by (simp_all add: in_i64_def text_rec_def)
    have s': "?s al = Some lb'" "?s ab = Some b" using assms(1,3) by auto
    show ?thesis
      using fetch_anywhere [where s = ?s and ab = ab and b = b and al = al and lb = lb' and tn = ?tn and part = pid and a = a' and r = r and k = k
          and c = c and es = es and mb = mb, OF s'(2,1) assms(4,5) _ _ _ pid(3) assms(30,31) _ lb'(2,3,4)] lb'(6,7) assms(7,8,9,33) that ri
      by (simp add: n)
  qed
  then show ?thesis using P lb'(2,4,5) by (intro exI [of _ lb'] exI [of _ lg']) auto
qed

text \<open>
  Brokers 1 and 2 at \<open>a\<close> and \<open>b\<close>; the key \<^verbatim>\<open>a\<close> belongs to partition 1, which broker 1 leads.  The record
  is sent to broker 2 and fetched from broker 2.
\<close>

definition keyed_request :: ProduceRequest where
  "keyed_request = \<lparr>rqTopic = ''u'', rqPartition = 0, rqKey = [97], rqValue = [118], rqAcks = '''', rqRecords = []\<rparr>"

lemma hash_a: "uint (Hash32 [97]) mod 3 = 1"
  by code_simp

theorem any_broker_serves_witness:
  "\<exists>l lb' fr. Log_Open no_fault small_cfg [] = Inr l
    \<and> (let s = [''a'' \<mapsto> split_broker 1 l, ''b'' \<mapsto> split_broker 2 l]; net = brokers_net (\<lambda>a. example_env) 2 in
       exec net (Client_Produce \<lparr>Brokers = []\<rparr> ''b'' keyed_request) s =
         (Inr \<lparr>rsTopic = ''u'', rsResults = [\<lparr>resPartition = 1, resOffset = 0\<rparr>]\<rparr>, s(''a'' \<mapsto> lb'))
       \<and> exec net (Client_Fetch \<lparr>Brokers = []\<rparr> ''b'' ''u'' 1 0 1000 False) (s(''a'' \<mapsto> lb')) = (Inr fr, s(''a'' \<mapsto> lb'))
       \<and> map fromWire (fRecords fr) = [\<lparr>Offset = 0, Timestamp = 7, Key = [97], Value = [118]\<rparr>])"
proof -
  obtain l where l: "Log_Open no_fault small_cfg [] = Inr l" "log_inv l" "LEO l = 0" "contents l = []" by (rule example_leader)
  let ?b = "split_broker 2 l" and ?lb = "split_broker 1 l" and ?e = "\<lambda>a::string. example_env"
  let ?pm = "\<lambda>i l. \<lparr>pID = i, pLeader = l, pReplicas = [1, 2], pISR = [l]\<rparr>"
  let ?t = "\<lparr>tName = ''u'', tPartitions = [?pm 0 1, ?pm 1 1, ?pm 2 2]\<rparr>"
  have rq [simp]: "rqTopic keyed_request = ''u''" "rqRecords keyed_request = []" "rqPartition keyed_request = 0"
      "rqKey keyed_request = [97]" "rqValue keyed_request = [118]" "rqAcks keyed_request = ''''"
    by (simp_all add: keyed_request_def)
  have sb: "self_id (split_broker i l) = i" "Store_Get (bstore (split_broker i l)) ''u'' 1 = Some l" "replicaLEO (split_broker i l) = []" for i
    by (simp_all add: split_broker_def example_broker_def default_cfg_def Store_Get_def Let_def)
  have tp: "topic (split_broker i l) ''u'' = Some ?t" "partition_meta (split_broker i l) ''u'' 1 = Some (?pm 1 1)" for i
    by (simp_all add: split_broker_def topic_def partition_meta_def)
  have ad: "Addr (bcluster ?b) 1 = ''a''" "cAdvertise (bcfg ?b) = ''b''"
    by (simp_all add: split_broker_def Addr_def Cluster_New_def Let_def)
  have ev: "in_i64 (fst (ewaits example_env 0))" "eflt example_env = no_fault" "fst (ewaits example_env 0) = 7"
    by (simp_all add: example_env_def in_i64_def)
  have tx: "valid_utf8 [97]" "valid_utf8 [118]" by (simp_all add: utf8_len.simps Let_def)
  define s where "s = [''a'' \<mapsto> ?lb, ''b'' \<mapsto> ?b]"
  have h: "s ''b'' = Some ?b" "s ''a'' = Some ?lb" "''b'' \<noteq> ''a''" "''b'' \<noteq> ''''" "''a'' \<noteq> ''''"
      "topic ?b (rqTopic keyed_request) = Some ?t" "leads ?b (rqTopic keyed_request) 1 (self_id ?lb)" "self_id ?lb \<noteq> self_id ?b"
      "Addr (bcluster ?b) (self_id ?lb) = ''a''" "''a'' \<noteq> cAdvertise (bcfg ?b)" "topic ?lb (rqTopic keyed_request) = Some ?t"
    using sb tp ad by (simp_all add: leads_def s_def)
  have h2: "length (tPartitions ?t) = length (tPartitions ?t)" "0 < length (tPartitions ?t)" "length (tPartitions ?t) < 4294967296"
      "1 = uint (Hash32 (rqKey keyed_request)) mod int (length (tPartitions ?t))"
      "partition_meta ?lb (rqTopic keyed_request) 1 = Some (?pm 1 1)" "pLeader (?pm 1 1) = self_id ?lb"
      "Store_Get (bstore ?lb) (rqTopic keyed_request) 1 = Some l" "log_inv l" "LEO l < max_i64"
    using hash_a sb tp l by simp_all
  have h3: "rqRecords keyed_request = []" "rqPartition keyed_request = 0" "rqKey keyed_request \<noteq> []"
      "rqAcks keyed_request = ''1'' \<or> rqAcks keyed_request = ''''"
      "25 + length (rqKey keyed_request) + length (rqValue keyed_request) \<le> 67108864"
      "valid_utf8 (rqKey keyed_request)" "valid_utf8 (rqValue keyed_request)" "in_i64 1000" "(0::int) < 1000"
      "''b'' \<in> {''b'', ''a''}" "''b'' \<in> {''b'', ''a''}" "2 \<le> (2::nat)"
    using tx by (simp_all add: in_i64_def)
  let ?net = "brokers_net ?e 2" and ?c = "\<lparr>Brokers = []\<rparr>"
  obtain lb' fr where "exec ?net (Client_Produce ?c ''b'' keyed_request) s =
        (Inr \<lparr>rsTopic = ''u'', rsResults = [\<lparr>resPartition = 1, resOffset = 0\<rparr>]\<rparr>, s(''a'' \<mapsto> lb'))"
      "exec ?net (Client_Fetch ?c ''b'' ''u'' 1 0 1000 False) (s(''a'' \<mapsto> lb')) = (Inr fr, s(''a'' \<mapsto> lb'))"
      "map fromWire (fRecords fr) = [\<lparr>Offset = 0, Timestamp = 7, Key = [97], Value = [118]\<rparr>]"
    using any_broker_serves [where es = ?e and c = ?c, OF h h2 ev(1,2) h3 refl] l(3) sb(3) [of 1] ev(3) by auto
  then show ?thesis using l(1) unfolding s_def Let_def by (intro exI conjI)
qed

end
