(* ===== verification/LS_Topics.thy ===== *)
theory LS_Topics
  imports LS_Api LS_Proxy
begin

text \<open>
  Creating a topic in a cluster: the client asks any broker, the controller creates the topic
  (\<^verbatim>\<open>src/internal/broker/handlers.go\<close>, \<^verbatim>\<open>broker.go\<close>), and its pushes bring the metadata to the others
  (\<^verbatim>\<open>metadata.go\<close>).
\<close>

section \<open>A push and the topics it names\<close>

lemma apply_topic_other: "k \<noteq> tName t \<Longrightarrow> map_of (btopics (apply_topic now c t)) k = map_of (btopics c) k"
  by (simp add: apply_topic_def Let_def)

lemma fold_apply_topic_other:
  "k \<notin> tName ` set ts \<Longrightarrow> map_of (btopics (foldl (apply_topic now) c ts)) k = map_of (btopics c) k"
  by (induction ts arbitrary: c) (auto simp: apply_topic_other)

text \<open>
  A topic that the receiver does not know and whose partitions are in sync on their leaders
  only is taken over as it is, whatever other topics the push names.
\<close>

definition led_alone :: "topicMeta \<Rightarrow> bool" where
  "led_alone t \<longleftrightarrow> (\<forall>p\<in>set (tPartitions t). pISR p = [pLeader p])"

lemma apply_topic_fresh:
  assumes "map_of (btopics c) (tName t) = None" "led_alone t"
  shows "map_of (btopics (apply_topic now c t)) (tName t) = Some t"
proof -
  have "apply_partition i ctl alive None p = p" if "p \<in> set (tPartitions t)" for i ctl alive p
  proof -
    have "filter f (pISR p) = [] \<or> filter f (pISR p) = pISR p" "pISR p = [pLeader p]" for f
      using assms(2) that by (simp_all add: led_alone_def)
    then show ?thesis by (auto simp: apply_partition_def filterAlive_def Let_def)
  qed
  then show ?thesis using assms(1) by (simp add: apply_topic_def map_idI Let_def)
qed

lemma fold_apply_topic_fresh:
  assumes "distinct (map tName ts)" "t \<in> set ts" "map_of (btopics c) (tName t) = None" "led_alone t"
  shows "map_of (btopics (foldl (apply_topic now) c ts)) (tName t) = Some t"
proof -
  obtain xs ys where ts: "ts = xs @ t # ys" using assms(2) by (auto simp: in_set_conv_decomp)
  have n: "tName t \<notin> tName ` set xs" "tName t \<notin> tName ` set ys" using assms(1) by (auto simp: ts)
  have "map_of (btopics (foldl (apply_topic now) c xs)) (tName t) = None"
    using fold_apply_topic_other [OF n(1)] assms(3) by simp
  then show ?thesis using apply_topic_fresh [OF _ assms(4)] fold_apply_topic_other [OF n(2)] by (simp add: ts)
qed

lemma push_brings_topic:
  assumes "topics_ok b" "map_of (btopics b) k = Some t" "led_alone t" "topic c k = None"
  shows "\<exists>c'. handleMetadataPush e c (Good (metadataPush now b)) = (Done (Ret (200, BStatus ''ok'')), c') \<and> topic c' k = Some t"
proof -
  let ?c' = "syncFollowers (applyTopics (enow e) (ewr e) c (snapshotTopics b))"
  have k: "tName t = k" using topics_okD [OF assms(1,2)] by (simp add: topic_ok_def)
  have "t \<in> set (snapshotTopics b)" using map_of_SomeD [OF assms(2)] by (force simp: snapshotTopics_def)
  then have "map_of (btopics (foldl (apply_topic (enow e)) c (snapshotTopics b))) k = Some t"
    using fold_apply_topic_fresh [OF snapshot_by_name(1) [OF assms(1)], of t c "enow e"] assms(3,4) by (simp add: k topic_def)
  then have "topic ?c' k = Some t"
    by (simp add: topic_def syncFollowers_def applyTopics_def Let_def)
  then show ?thesis by (simp add: handleMetadataPush_def push_topics_push writeJSON_def json_answer_def)
qed

section \<open>Messages on the network\<close>

text \<open>The calls behind the messages a broker sends without waiting for the answer.\<close>

definition send :: "(string \<Rightarrow> henv) \<Rightarrow> nat \<Rightarrow> msg \<Rightarrow> network \<Rightarrow> network" where
  "send es n m s =
     snd (exec (brokers_net es n)
       (case m of MsgHeartbeat a i \<Rightarrow> PeerHeartbeat a i | MsgPush a push \<Rightarrow> PushMetadata a push | MsgAck a ack \<Rightarrow> ReplicaAck a ack) s)"

lemma send_push:
  assumes "s a = Some c" "handleMetadataPush (es a) c (Good push) = (Done (Ret r), c')"
  shows "send es (Suc n) (MsgPush a push) s = s(a \<mapsto> c')"
proof -
  have "brokers_net es (Suc n) s a (ReqPush (Good push)) = (Some r, s(a \<mapsto> c'))"
    by (rule net_local [where s = s and a = a and es = es, OF assms(1)]) (simp add: serve_def assms(2))
  then show ?thesis by (cases r) (simp add: send_def PushMetadata_def one_call_def)
qed

lemma send_pushes:
  assumes "topics_ok b" "map_of (btopics b) k = Some t" "led_alone t" "distinct as"
    "\<forall>a\<in>set as. \<exists>c. s a = Some c \<and> topic c k = None"
  shows "(\<forall>a\<in>set as. \<exists>c'. fold (send es (Suc n)) (map (\<lambda>a. MsgPush a (metadataPush now b)) as) s a = Some c' \<and> topic c' k = Some t)
    \<and> (\<forall>a. a \<notin> set as \<longrightarrow> fold (send es (Suc n)) (map (\<lambda>a. MsgPush a (metadataPush now b)) as) s a = s a)"
  using assms(4,5)
proof (induction as arbitrary: s)
  case (Cons a as)
  obtain c where c: "s a = Some c" "topic c k = None" using Cons.prems(2) by auto
  obtain c' where c': "handleMetadataPush (es a) c (Good (metadataPush now b)) = (Done (Ret (200, BStatus ''ok'')), c')" "topic c' k = Some t"
    using push_brings_topic [OF assms(1-3) c(2)] by blast
  define s1 where "s1 = s(a \<mapsto> c')"
  have sent: "send es (Suc n) (MsgPush a (metadataPush now b)) s = s1"
    unfolding s1_def by (rule send_push [where es = es and a = a and s = s, OF c(1) c'(1)])
  have "\<forall>x\<in>set as. \<exists>c. s1 x = Some c \<and> topic c k = None" using Cons.prems by (auto simp: s1_def)
  note Cons.IH [OF _ this]
  moreover have "s1 a = Some c'" "\<forall>x. x \<noteq> a \<longrightarrow> s1 x = s x" by (simp_all add: s1_def)
  ultimately show ?case using Cons.prems(1) c'(2) by (auto simp: sent)
qed simp

section \<open>Creating a topic\<close>

lemma create_answered:
  assumes "net s a (ReqTopics (Good \<lparr>ctName = name, ctPartitions = np, ctReplicationFactor = rf\<rparr>)) = (Some (200, body), s')"
  shows "exec net (CreateTopic \<lparr>Brokers = a # as\<rparr> name np rf) s = (Inr (), s')"
  using assms by (simp add: CreateTopic_def any_def no_out_def)

text \<open>A broker that is not the controller and knows it at another address.\<close>

definition knows_controller :: "int \<Rightarrow> Broker \<Rightarrow> string \<Rightarrow> bool" where
  "knows_controller now b ac \<longleftrightarrow> \<not> IsController now (bcluster b) \<and> Addr (bcluster b) (ControllerID now (bcluster b)) = ac
     \<and> ac \<noteq> '''' \<and> ac \<noteq> cAdvertise (bcfg b)"

lemma create_anywhere:
  assumes "s ac = Some cb" "IsController (enow (es ac)) (bcluster cb)" "name \<noteq> ''''" "topic cb name = None"
    "createTopicLocked (enow (es ac)) (ewr (es ac)) cb name np rf = Some cb'"
    "s ab = Some b" "ab = ac \<or> knows_controller (enow (es ab)) b ac"
  shows "exec (brokers_net es (Suc (Suc k))) (CreateTopic \<lparr>Brokers = ab # as\<rparr> name np rf) s = (Inr (), s(ac \<mapsto> cb'))"
proof -
  let ?q = "ReqTopics (Good \<lparr>ctName = name, ctPartitions = np, ctReplicationFactor = rf\<rparr>)" and ?s = "s(ac \<mapsto> cb')"
  have "serve (es ac) cb ?q = (Done (Ret (200, BCreated name)), cb')"
    using assms(2-5) by (simp add: serve_def handleCreateTopic_def writeJSON_def json_answer_def)
  then have direct: "brokers_net es (Suc m) s ac ?q = (Some (200, BCreated name), ?s)" for m
    by (rule net_local [where s = s and a = ac and es = es, OF assms(1)])
  have direct': "exec (brokers_net es (Suc m)) (CreateTopic \<lparr>Brokers = ac # bs\<rparr> name np rf) s = (Inr (), ?s)" for m bs
    by (rule create_answered [where s = s and a = ac]) (rule direct)
  show ?thesis
  proof (cases "ab = ac")
    case False
    have kc: "knows_controller (enow (es ab)) b ac" using assms(7) False by simp
    let ?f = "\<lambda>r. case r of Inl err \<Rightarrow> writeErr 502 (etext (es ab) (TClient err)) | Inr u \<Rightarrow> writeJSON 200 (BStatus ''forwarded'')"
    have "serve (es ab) b ?q = (Done (bind (CreateTopic \<lparr>Brokers = [ac]\<rparr> name np rf) (\<lambda>r. Ret (?f r))), b)"
      using kc assms(3) by (auto simp: serve_def handleCreateTopic_def knows_controller_def Let_def)
    from net_forward [where s = s and a = ab and es = es, OF assms(6) this direct']
    have "brokers_net es (Suc (Suc k)) s ab ?q = (Some (200, BStatus ''forwarded''), ?s)"
      by (simp add: writeJSON_def json_answer_def)
    then show ?thesis by (rule create_answered [where s = s and a = ab])
  qed (simp add: direct')
qed

text \<open>
  C27.  A topic can be created through any broker and is then known to all of them.  Let a client
  ask the controller, or a broker that knows the controller, for a new topic, in a cluster with
  well-formed metadata where no broker has the topic.  The request succeeds, only the
  controller changes, and once its pushes are delivered every broker it knows has the same
  topic: the partitions are numbered from zero and at least one, led in rotation by the configured
  brokers in id order, each on as many different brokers as asked for within their number.
\<close>

theorem topic_reaches_all:
  assumes "s ac = Some cb" "topics_ok cb" "cluster_ok (bcluster cb)" "IsController (enow (es ac)) (bcluster cb)"
    "name \<noteq> ''''" "topic cb name = None"
    "s ab = Some b" "ab = ac \<or> knows_controller (enow (es ab)) b ac"
    "distinct (map peerAddr (OtherPeers (bcluster cb)))" "ac \<notin> peerAddr ` set (OtherPeers (bcluster cb))"
    "\<forall>p\<in>set (OtherPeers (bcluster cb)). \<exists>c. s (peerAddr p) = Some c \<and> topic c name = None" "2 \<le> n"
    "ids = map peerID (All (bcluster cb))"
  shows "\<exists>cb' t ms s'. exec (brokers_net es n) (CreateTopic \<lparr>Brokers = ab # as\<rparr> name np rf) s = (Inr (), s(ac \<mapsto> cb'))
    \<and> outbox cb' = outbox cb @ ms \<and> fold (send es n) ms (s(ac \<mapsto> cb')) = s'
    \<and> s' ac = Some cb' \<and> topic cb' name = Some t
    \<and> (\<forall>p\<in>set (OtherPeers (bcluster cb)). \<exists>c'. s' (peerAddr p) = Some c' \<and> topic c' name = Some t)
    \<and> map pID (tPartitions t) = [0..max np 1 - 1]
    \<and> (\<forall>p\<in>set (tPartitions t). pLeader p = ids ! nat (pID p mod int (length ids)) \<and> pISR p = [pLeader p]
         \<and> pLeader p = hd (pReplicas p) \<and> length (pReplicas p) = nat (min (max rf 1) (int (length ids)))
         \<and> distinct (pReplicas p) \<and> set (pReplicas p) \<subseteq> set ids)"
proof -
  obtain k where n: "n = Suc (Suc k)" using assms(12) by (metis One_nat_def add_2_eq_Suc le_Suc_ex)
  let ?now = "enow (es ac)" and ?as = "map peerAddr (OtherPeers (bcluster cb))"
  obtain cb' t where c: "createTopicLocked ?now (ewr (es ac)) cb name np rf = Some cb'" "topics_ok cb'"
      "btopics cb' = btopics cb @ [(name, t)]" "map pID (tPartitions t) = [0..max np 1 - 1]"
      "\<forall>p\<in>set (tPartitions t). pLeader p = ids ! nat (pID p mod int (length ids)) \<and> pISR p = [pLeader p]
         \<and> pLeader p = hd (pReplicas p) \<and> length (pReplicas p) = nat (min (max rf 1) (int (length ids)))
         \<and> distinct (pReplicas p) \<and> set (pReplicas p) \<subseteq> set ids"
      "outbox cb' = outbox cb @ map (\<lambda>p. MsgPush (peerAddr p) (metadataPush ?now cb')) (OtherPeers (bcluster cb))"
    using topic_creation [OF assms(2,3), of name ?now "ewr (es ac)" np rf, folded assms(13)] assms(6) by (auto simp: topic_def)
  let ?ms = "map (\<lambda>a. MsgPush a (metadataPush ?now cb')) ?as"
  have t: "map_of (btopics cb') name = Some t" "led_alone t"
    using c(3,5) assms(6) by (simp_all add: topic_def map_add_def led_alone_def)
  define s1 where "s1 = s(ac \<mapsto> cb')"
  have "\<forall>a\<in>set ?as. \<exists>c. s1 a = Some c \<and> topic c name = None" using assms(10,11) by (auto simp: s1_def)
  note d = send_pushes [OF c(2) t assms(9) this, of es "Suc k" ?now, folded n]
  have s1: "s1 ac = Some cb'" by (simp add: s1_def)
  have "fold (send es n) ?ms s1 ac = Some cb'" using d s1 assms(10) by auto
  moreover have "\<forall>p\<in>set (OtherPeers (bcluster cb)). \<exists>c'. fold (send es n) ?ms s1 (peerAddr p) = Some c' \<and> topic c' name = Some t"
    using d by auto
  moreover have "outbox cb' = outbox cb @ ?ms" using c(6) by (simp add: comp_def)
  moreover have "topic cb' name = Some t" using t(1) by (simp add: topic_def)
  moreover have "exec (brokers_net es n) (CreateTopic \<lparr>Brokers = ab # as\<rparr> name np rf) s = (Inr (), s(ac \<mapsto> cb'))"
    unfolding n by (rule create_anywhere [OF assms(1,4,5,6) c(1) assms(7,8)])
  ultimately show ?thesis using c(4,5) unfolding s1_def by blast
qed

text \<open>Broker 1 at \<open>a\<close> is the controller; a client asks broker 2 at \<open>b\<close> for a topic with four partitions.\<close>

theorem topic_reaches_all_witness:
  "\<exists>l cb' t ms c'. Log_Open no_fault small_cfg [] = Inr l
    \<and> (let s = [''a'' \<mapsto> example_broker 1 l, ''b'' \<mapsto> example_broker 2 l] in
       exec (brokers_net (\<lambda>a. example_env) 2) (CreateTopic \<lparr>Brokers = [''b'']\<rparr> ''u'' 4 3) s = (Inr (), s(''a'' \<mapsto> cb'))
       \<and> outbox cb' = ms \<and> fold (send (\<lambda>a. example_env) 2) ms (s(''a'' \<mapsto> cb')) ''b'' = Some c')
    \<and> topic c' ''u'' = Some t \<and> map pID (tPartitions t) = [0, 1, 2, 3]"
proof -
  obtain l where l: "Log_Open no_fault small_cfg [] = Inr l" using Log_Open_empty [of small_cfg] by auto
  let ?cb = "example_broker 1 l" and ?b = "example_broker 2 l" and ?e = "\<lambda>a::string. example_env"
  define s where "s = [''a'' \<mapsto> ?cb, ''b'' \<mapsto> ?b]"
  have ok: "topics_ok ?cb" "cluster_ok (bcluster ?cb)"
    by (rule example_topics_ok) (simp add: example_broker_def Let_def cluster_ok_MarkSeen cluster_ok_New)
  have ct: "IsController 7 (bcluster ?cb)" "knows_controller 7 ?b ''a''"
    by (simp_all add: knows_controller_def IsController_def ControllerID_def AliveIDs_def Addr_def example_broker_def default_cfg_def
        MarkSeen_def Cluster_New_def Let_def mkeys_def)
  have op: "OtherPeers (bcluster ?cb) = [\<lparr>peerID = 2, peerAddr = ''b''\<rparr>]"
    by (simp add: OtherPeers_def All_def example_broker_def MarkSeen_def Cluster_New_def Let_def)
  have tp: "topic ?cb ''u'' = None" "topic ?b ''u'' = None" by (simp_all add: topic_def example_broker_def Let_def)
  have ou: "outbox ?cb = []" by (simp add: example_broker_def Let_def)
  have h: "s ''a'' = Some ?cb" "topics_ok ?cb" "cluster_ok (bcluster ?cb)" "IsController (enow example_env) (bcluster ?cb)" "''u'' \<noteq> ''''"
      "topic ?cb ''u'' = None" "s ''b'' = Some ?b" "''b'' = ''a'' \<or> knows_controller (enow example_env) ?b ''a''"
      "distinct (map peerAddr (OtherPeers (bcluster ?cb)))" "''a'' \<notin> peerAddr ` set (OtherPeers (bcluster ?cb))"
      "\<forall>p\<in>set (OtherPeers (bcluster ?cb)). \<exists>c. s (peerAddr p) = Some c \<and> topic c ''u'' = None" "2 \<le> (2::nat)"
    using ok ct op tp by (simp_all add: s_def example_env_def)
  obtain cb' t ms where r: "exec (brokers_net ?e 2) (CreateTopic \<lparr>Brokers = [''b'']\<rparr> ''u'' 4 3) s = (Inr (), s(''a'' \<mapsto> cb'))"
      "outbox cb' = ms" "\<exists>c'. fold (send ?e 2) ms (s(''a'' \<mapsto> cb')) ''b'' = Some c' \<and> topic c' ''u'' = Some t"
      "map pID (tPartitions t) = [0..4 - 1]"
    using topic_reaches_all [where es = ?e and as = "[]" and np = 4 and rf = 3, OF h refl] op ou by auto
  have "[0..4 - 1] = [0, 1, 2, 3::int]" by (simp add: upto.simps)
  then show ?thesis using l r unfolding s_def Let_def by metis
qed

end
