(* ===== verification/LS_Run.thy ===== *)
theory LS_Run
  imports LS_Api LS_GroupInv
begin

text \<open>
  Everything that happens to a broker: requests of clients and of other brokers
  (\<^verbatim>\<open>src/internal/broker/handlers.go\<close>), the ticks of its loop (\<^verbatim>\<open>broker.go\<close>) and the passes of its
  followers (\<^verbatim>\<open>replica.go\<close>), in any order, and while a produce request waits.  Shown are the
  invariant of the metadata under all of them and that the broker runs its coordinator only
  through the coordinator's methods, with what this means for the consumers of a group.
\<close>

section \<open>The events\<close>

text \<open>
  A broker may be sent any request, except that a push is well-formed and names the replicas
  that the broker has for a partition it knows.  The handler does not check this
  (\<open>malformed_push_panics\<close>); it is what brokers push that keep the invariant themselves and
  agree on the replicas (\<open>sent_push_agrees\<close>).
\<close>

definition agreeing :: "Broker \<Rightarrow> request \<Rightarrow> bool" where
  "agreeing b q = (case q of ReqPush (Good push) \<Rightarrow> push_agrees b (push_topics push) | _ \<Rightarrow> True)"

inductive broker_step :: "Broker \<Rightarrow> Broker \<Rightarrow> bool" where
  bs_serve: "\<lbrakk>serve e b q = (h, b'); agreeing b q; enewID e \<noteq> '''';
      \<And>i x y act s. (x, y, act) \<in> set (snd (ewaits e i)) \<Longrightarrow> broker_step\<^sup>*\<^sup>* s (act s)\<rbrakk> \<Longrightarrow> broker_step b b'"
| bs_tick: "tick flt now w b = Some b' \<Longrightarrow> broker_step b b'"
| bs_pass: "follow_pass flt now net b tn part = (res, b') \<Longrightarrow> broker_step b b'"

section \<open>What an event may do\<close>

text \<open>The metadata stay well-formed and the coordinator makes steps.\<close>

definition sound_to :: "Broker \<Rightarrow> Broker \<Rightarrow> bool" where
  "sound_to b b' \<longleftrightarrow> (broker_ok b \<longrightarrow> broker_ok b' \<and> coord_step\<^sup>*\<^sup>* (bgroups b) (bgroups b'))"

lemma sound_refl [simp]: "sound_to b b"
  by (simp add: sound_to_def)

lemma sound_trans: "sound_to a b \<Longrightarrow> sound_to b c \<Longrightarrow> sound_to a c"
  by (auto simp: sound_to_def)

lemma sound_same: "btopics b' = btopics b \<Longrightarrow> bcluster b' = bcluster b \<Longrightarrow> bgroups b' = bgroups b \<Longrightarrow> sound_to b b'"
  by (simp add: sound_to_def broker_ok_def topics_ok_def)

lemma sound_groups:
  assumes "btopics b' = btopics b" "bcluster b' = bcluster b" "broker_ok b \<Longrightarrow> coord_step\<^sup>*\<^sup>* (bgroups b) (bgroups b')"
  shows "sound_to b b'"
  using assms by (simp add: sound_to_def broker_ok_def topics_ok_def)

lemma sound_fold: "(\<And>b x. sound_to b (f b x)) \<Longrightarrow> sound_to b (foldl f b xs)"
  by (induction xs arbitrary: b) (auto intro: sound_trans)

lemma pf_ok_topics: "broker_ok b \<Longrightarrow> pf_ok (Some (topicPartitions b))"
  using topics_okD [of b]
  by (auto simp: pf_ok_def topicPartitions_def topic_def broker_ok_def topic_ok_def split: option.splits)

lemma bgroups_recompute [simp]: "bgroups (recomputeHW flt now w b tn part) = bgroups b"
  by (simp add: recomputeHW_def broadcastMetadata_def persistTopicsLocked_def set_isr_def Let_def
      split: option.splits prod.splits sum.splits)

lemma sound_recompute: "sound_to b (recomputeHW flt now w b tn part)"
  using recomputeHW_ok [of b flt now w tn part] by (simp add: sound_to_def broker_ok_def)

lemma sound_note: "sound_to b (noteReplica now b tn part i leo)"
  by (rule sound_same) (simp_all add: noteReplica_def Let_def)

lemma bgroups_create: "createTopicLocked now w b name npart rf = Some b' \<Longrightarrow> bgroups b' = bgroups b"
  by (auto simp: createTopicLocked_def broadcastMetadata_def persistTopicsLocked_def Let_def split: if_splits option.splits)

lemma sound_create: "createTopicLocked now w b name npart rf = Some b' \<Longrightarrow> sound_to b b'"
  using createTopicLocked_ok [of b now w name npart rf] bgroups_create [of now w b name npart rf b']
  by (auto simp: sound_to_def broker_ok_def)

lemma sound_seen: "sound_to b (b\<lparr>bcluster := MarkSeen now (bcluster b) i\<rparr>)"
  by (simp add: sound_to_def broker_ok_def topics_ok_def cluster_ok_MarkSeen)

lemma sound_followers: "sound_to b (syncFollowers b)"
  by (rule sound_same) (simp_all add: syncFollowers_def Let_def)

lemma sound_push: "push_agrees b ts \<Longrightarrow> sound_to b (applyTopics now w b ts)"
proof -
  have g: "bgroups (foldl (apply_topic now) b ts) = bgroups b"
    by (induction ts arbitrary: b) (simp_all add: apply_topic_def Let_def)
  then have "bgroups (applyTopics now w b ts) = bgroups b"
    by (simp add: applyTopics_def persistTopicsLocked_def)
  then show "push_agrees b ts \<Longrightarrow> sound_to b (applyTopics now w b ts)"
    using applyTopics_ok [of b ts now w] by (simp add: sound_to_def broker_ok_def)
qed

section \<open>Producing\<close>

lemma sound_append: "produce_append e now b tn pid rec = (r, b') \<Longrightarrow> sound_to b b'"
proof -
  have s: "sound_to b (recomputeHW flt now w (noteSelfLEO now (b\<lparr>bstore := st\<rparr>) tn pid leo) tn pid)" for flt w st leo
    unfolding noteSelfLEO_def
    by (rule sound_trans [OF sound_trans [OF sound_same sound_note] sound_recompute]) simp_all
  show "produce_append e now b tn pid rec = (r, b') \<Longrightarrow> sound_to b b'"
    by (auto simp: produce_append_def intro: s sound_same split: option.splits if_splits prod.splits sum.splits)
qed

lemma sound_solo: "sound_to b (maybeSoloHW b tn pid)"
  by (auto simp: maybeSoloHW_def intro: sound_same split: option.splits)

text \<open>What happens while a handler waits is sound, too.\<close>

definition sound_passes :: "passes \<Rightarrow> bool" where
  "sound_passes ps \<longleftrightarrow> (\<forall>x y act s. (x, y, act) \<in> set ps \<longrightarrow> sound_to s (act s))"

definition sound_env :: "henv \<Rightarrow> bool" where
  "sound_env e \<longleftrightarrow> (\<forall>i. sound_passes (snd (ewaits e i)))"

lemma sound_wait:
  assumes "sound_passes ps" "wait_hw tn pid off timeout deadline ps b = (r, b')"
  shows "sound_to b b'"
  using assms
proof (induction tn pid off timeout deadline ps b rule: wait_hw.induct)
  case (1 tn pid off timeout deadline ps b)
  show ?case
  proof (cases ps)
    case Nil
    then show ?thesis using 1(3) by (subst (asm) wait_hw.simps) (auto split: if_splits)
  next
    case (Cons p ps')
    obtain x y act where p: "p = (x, y, act)" by (cases p)
    have act: "sound_to b (act b)" using 1(2) by (simp add: sound_passes_def Cons p)
    have ps': "sound_passes ps'" using 1(2) by (auto simp: sound_passes_def Cons)
    have rest: "sound_to (act b) b'" if "wait_hw tn pid off timeout deadline ps' (act b) = (r, b')"
      "\<not> off < log_hw b tn pid" "\<not> timeout \<le> 0" "\<not> deadline - x \<le> 0" "\<not> (y > deadline \<and> log_hw (act b) tn pid \<le> off)"
      by (rule 1(1) [OF that(2,3) Cons p [symmetric] refl that(4,5) ps' that(1)])
    from 1(3) act rest show ?thesis
      by (subst (asm) wait_hw.simps) (auto simp: Cons p split: if_splits intro: sound_trans)
  qed
qed


lemma sound_produce_one:
  assumes "sound_passes ps" "produce_one e req acks n now ps rec b = (r, b')"
  shows "sound_to b b'"
proof -
  obtain rp p where pp: "produce_pid req rec n (bpartitioner b) = (rp, p)" by fastforce
  let ?b0 = "b\<lparr>bpartitioner := p\<rparr>"
  have s0: "sound_to b ?b0" by (rule sound_same) simp_all
  show ?thesis
  proof (cases rp)
    case None
    then show ?thesis using assms(2) pp s0 by (simp add: produce_one_def)
  next
    case (Some pid)
    obtain ra b1 where pa: "produce_append e now ?b0 (rqTopic req) pid rec = (ra, b1)" by fastforce
    have s1: "sound_to b b1" by (rule sound_trans [OF s0 sound_append [OF pa]])
    show ?thesis
    proof (cases ra)
      case (Inl err)
      then show ?thesis using assms(2) pp Some pa s1 by (simp add: produce_one_def)
    next
      case (Inr off)
      show ?thesis
      proof (cases "acks = ''all'' \<or> acks = ''-1''")
        case True
        obtain w b2 where w: "wait_hw (rqTopic req) pid off (cProduceTimeout (bcfg b1)) (now + cProduceTimeout (bcfg b1)) ps b1 = (w, b2)"
          by fastforce
        have "b' = b2"
          using assms(2) pp Some pa Inr True w by (auto simp: produce_one_def split: option.splits bool.splits)
        then show ?thesis using sound_trans [OF s1 sound_wait [OF assms(1) w]] by blast
      next
        case False
        then have "b' = maybeSoloHW b1 (rqTopic req) pid"
          using assms(2) pp Some pa Inr by (simp add: produce_one_def)
        then show ?thesis using sound_trans [OF s1 sound_solo] by simp
      qed
    qed
  qed
qed

lemma sound_produce_loop:
  assumes "sound_env e" "produce_loop e req acks n i recs out b = (r, b')"
  shows "sound_to b b'"
  using assms(2)
proof (induction recs arbitrary: i out b)
  case (Cons rec recs)
  obtain o1 b1 where o1: "produce_one e req acks n (fst (ewaits e i)) (snd (ewaits e i)) rec b = (o1, b1)" by fastforce
  have "sound_to b b1" using sound_produce_one [OF _ o1] assms(1) by (simp add: sound_env_def)
  then show ?case using Cons.prems Cons.IH o1 by (cases o1) (auto intro: sound_trans)
qed simp

lemma sound_produce:
  assumes "sound_env e" "produceLocal e b req = (r, b')"
  shows "sound_to b b'"
  using assms(2) by (auto simp: produceLocal_def Let_def split: option.splits dest: sound_produce_loop [OF assms(1)])

section \<open>Requests\<close>

lemma sound_group:
  assumes "on_controller e b q (r, b1) = (h, b')" "sound_to b b1"
  shows "sound_to b b'"
  using assms by (auto simp: on_controller_def split: option.splits)

lemma sound_coord:
  assumes "broker_ok b \<Longrightarrow> coord_step (bgroups b) c"
  shows "sound_to b (b\<lparr>bgroups := c\<rparr>)"
  by (rule sound_groups) (use assms in auto)

lemma sound_topics: "handleCreateTopic e b body = (h, b') \<Longrightarrow> sound_to b b'"
  by (auto simp: handleCreateTopic_def Let_def split: body.splits if_splits option.splits intro: sound_create)

lemma sound_handle_produce: "handleProduce e b body pq = (h, b') \<Longrightarrow> sound_env e \<Longrightarrow> sound_to b b'"
  by (auto simp: handleProduce_def Let_def split: if_splits prod.splits presult.splits dest: sound_produce [rotated])

lemma Store_Open_broker: "Store_Open flt (bstore b) tn part = (x, st) \<Longrightarrow> sound_to b (b\<lparr>bstore := st\<rparr>)"
  by (rule sound_same) simp_all

lemma sound_fetch: "sound_to b (snd (serveFetch e b q replica))"
  by (auto simp: serveFetch_def Let_def split: option.splits prod.splits sum.splits intro!: sound_same)

lemma sound_join:
  assumes "handleJoin e b grp body = (h, b')" "enewID e \<noteq> ''''"
  shows "sound_to b b'"
proof -
  define x where "x = Join (Some (topicPartitions b)) (enow e) (enow e) (enewID e) (bgroups b) grp (jqMemberID (decoded body)) (jqTopics (decoded body))"
  have "sound_to b (b\<lparr>bgroups := snd x\<rparr>)"
    unfolding x_def by (rule sound_coord, rule step_join [OF pf_ok_topics assms(2)])
  then show ?thesis using assms(1) unfolding handleJoin_def Let_def x_def [symmetric] case_prod_beta
    by (elim sound_group) simp
qed

lemma sound_sync:
  assumes "handleSync e b grp body = (h, b')"
  shows "sound_to b b'"
proof -
  define x where "x = Sync (enow e) (bgroups b) grp (sqMemberID (decoded body)) (sqGeneration (decoded body))"
  have "sound_to b (b\<lparr>bgroups := snd x\<rparr>)" unfolding x_def by (rule sound_coord, rule step_sync)
  then show ?thesis using assms unfolding handleSync_def Let_def x_def [symmetric] case_prod_beta
    by (elim sound_group) simp
qed

lemma sound_beat:
  assumes "handleHeartbeat e b grp body = (h, b')"
  shows "sound_to b b'"
proof -
  define x where "x = Heartbeat (enow e) (bgroups b) grp (hqMemberID (decoded body)) (hqGeneration (decoded body))"
  have "sound_to b (b\<lparr>bgroups := snd x\<rparr>)" unfolding x_def by (rule sound_coord, rule step_heartbeat)
  then show ?thesis using assms unfolding handleHeartbeat_def Let_def x_def [symmetric] case_prod_beta
    by (elim sound_group) simp
qed

lemma sound_leave:
  assumes "handleLeave e b grp body = (h, b')"
  shows "sound_to b b'"
proof -
  have "sound_to b (b\<lparr>bgroups := Leave (Some (topicPartitions b)) (enow e) (bgroups b) grp (lqMemberID (decoded body))\<rparr>)"
    by (rule sound_coord, rule step_leave [OF pf_ok_topics])
  then show ?thesis using assms unfolding handleLeave_def by (elim sound_group)
qed

lemma sound_hook:
  assumes "sound_env e"
  shows "sound_to b (replicateOffset e b call)"
proof -
  have "sound_to b (snd (produceLocal e b req))" for req
    by (rule sound_produce [OF assms prod.collapse [symmetric]])
  then show ?thesis unfolding replicateOffset_def case_prod_beta Let_def by simp
qed

lemma commit_steps: "coord_step\<^sup>*\<^sup>* c ((snd (Commit w c gid es))\<lparr>hookCalls := []\<rparr>)"
  by (rule rtranclp.rtrancl_into_rtrancl [OF r_into_rtranclp [of coord_step, OF step_commit] step_called])

lemma sound_commit:
  assumes "handleCommitOffsets e b grp body = (h, b')" "sound_env e"
  shows "sound_to b b'"
proof (cases body)
  case (Good req)
  define x where "x = Commit (ewr e) (bgroups b) grp
      (map (\<lambda>o'. \<lparr>oTopic = ocTopic o', oPartition = ocPartition o', oOffset = ocOffset o'\<rparr>) (oqOffsets req))"
  have "coord_step\<^sup>*\<^sup>* (bgroups b) ((snd x)\<lparr>hookCalls := []\<rparr>)" unfolding x_def by (rule commit_steps)
  then have c: "sound_to b (b\<lparr>bgroups := (snd x)\<lparr>hookCalls := []\<rparr>\<rparr>)" by (intro sound_groups) simp_all
  have "sound_to b (foldl (replicateOffset e) (b\<lparr>bgroups := (snd x)\<lparr>hookCalls := []\<rparr>\<rparr>) (hookCalls (snd x)))"
    by (rule sound_trans [OF c sound_fold]) (rule sound_hook [OF assms(2)])
  then show ?thesis using assms(1) unfolding handleCommitOffsets_def Good body.case Let_def x_def [symmetric] case_prod_beta
    by (elim sound_group) simp
next
  case (Bad v)
  then show ?thesis using assms(1) by (auto simp: handleCommitOffsets_def intro: sound_group)
qed

lemma sound_serve:
  assumes "serve e b q = (h, b')" "agreeing b q" "enewID e \<noteq> ''''" "sound_env e"
  shows "sound_to b b'"
proof (cases q)
  case (ReqFetch fq)
  then show ?thesis using assms(1) sound_fetch [of b e fq "fqReplica fq = ''1''"] by (simp add: serve_def handleFetch_def)
next
  case (ReqReplicaFetch fq)
  then show ?thesis using assms(1) sound_fetch [of b e fq True] by (simp add: serve_def handleReplicaFetch_def)
next
  case (ReqOffsets grp tn)
  then show ?thesis using assms(1) by (auto simp: serve_def handleFetchOffsets_def intro: sound_group)
next
  case (ReqPeer body)
  then show ?thesis using assms(1) by (auto simp: serve_def handlePeerHeartbeat_def Let_def sound_seen split: if_splits)
next
  case (ReqPush body)
  then show ?thesis using assms(1,2)
    by (auto simp: serve_def handleMetadataPush_def agreeing_def split: body.splits intro: sound_trans [OF sound_push sound_followers])
next
  case (ReqAck body)
  then show ?thesis using assms(1)
    by (auto simp: serve_def handleReplicaAck_def split: body.splits intro: sound_trans [OF sound_note sound_recompute])
qed (use assms in \<open>auto simp: serve_def handleHealth_def handleMetadata_def
      dest: sound_topics sound_handle_produce sound_join sound_sync sound_beat sound_leave sound_commit\<close>)


section \<open>Ticks and runs\<close>

lemma bgroups_fold: "(\<And>b x. bgroups (f b x) = bgroups b) \<Longrightarrow> bgroups (foldl f b xs) = bgroups b"
  by (induction xs arbitrary: b) simp_all

lemma bgroups_recomputeAll: "bgroups (recomputeAllHW flt now w b) = bgroups b"
  unfolding recomputeAllHW_def by (intro bgroups_fold) simp

lemma bgroups_tick:
  assumes "tick flt now w b = Some b'"
  shows "bgroups b' = Expire (Some (topicPartitions b)) now (bgroups b)"
proof -
  have tp: "topicPartitions (b\<lparr>bcluster := c, outbox := ob\<rparr>) = topicPartitions b" for c ob
    by (intro ext) (simp add: topicPartitions_def topic_def)
  have ct: "controllerTick now w c = Some c' \<Longrightarrow> bgroups c' = bgroups c" for c c'
    by (auto simp: controllerTick_def broadcastMetadata_def persistTopicsLocked_def Let_def split: option.splits)
  have eo: "ensureOffsetsTopic now w c = Some c' \<Longrightarrow> bgroups c' = bgroups c" for c c'
    by (auto simp: ensureOffsetsTopic_def bgroups_create split: option.splits)
  have sf: "bgroups (syncFollowers c) = bgroups c" for c by (simp add: syncFollowers_def Let_def)
  show ?thesis using assms
    by (auto simp: tick_def Let_def tp sf bgroups_recomputeAll dest!: ct eo split: if_splits option.splits)
qed

lemma sound_tick: "tick flt now w b = Some b' \<Longrightarrow> sound_to b b'"
  using tick_ok [of b flt now w] step_expire [OF pf_ok_topics [of b], where now = now and c = "bgroups b"]
  by (auto simp: sound_to_def bgroups_tick)

lemma sound_pass: "follow_pass flt now net b tn part = (res, b') \<Longrightarrow> sound_to b b'"
  by (rule sound_same)
    (auto simp: follow_pass_def Let_def split: prod.splits sum.splits option.splits if_splits)

lemma sound_steps: "(\<lambda>x y. broker_step x y \<and> sound_to x y)\<^sup>*\<^sup>* b b' \<Longrightarrow> sound_to b b'"
  by (induction rule: rtranclp_induct) (auto intro: sound_trans)

lemma broker_step_sound: "broker_step b b' \<Longrightarrow> sound_to b b'"
proof (induction rule: broker_step.induct)
  case (bs_serve e b q h b')
  have "sound_env e"
    unfolding sound_env_def sound_passes_def using bs_serve(4) by (blast intro: sound_steps)
  then show ?case by (rule sound_serve [OF bs_serve(1-3)])
qed (auto intro: sound_tick sound_pass)

lemma broker_run_sound: "broker_step\<^sup>*\<^sup>* b b' \<Longrightarrow> sound_to b b'"
  by (induction rule: rtranclp_induct) (auto intro: sound_trans broker_step_sound)

text \<open>A broker after its start.\<close>

definition started :: "Broker \<Rightarrow> bool" where
  "started b \<longleftrightarrow> (\<exists>flt now cfg disk offs tops. Broker_New flt now cfg disk offs tops = Some b
     \<and> (\<forall>ts. tops = JSON ts \<longrightarrow> (\<forall>t\<in>set ts. topic_ok (tName t) t)))"

lemma started_ok: "started b \<Longrightarrow> broker_ok b"
  by (auto simp: started_def intro: Broker_New_ok)

lemma loadTopics_groups: "loadTopics b = Some b' \<Longrightarrow> bgroups b' = bgroups b"
  by (auto simp: loadTopics_def split: json_file.splits)

lemma started_coord:
  assumes "started b"
  shows "reachable_coord (bgroups b)"
proof -
  obtain offs s r where "bgroups b = SetOffsetHook (Coordinator_New offs s r) True"
    using assms by (auto simp: started_def Broker_New_def Let_def case_prod_beta dest!: loadTopics_groups split: if_splits)
  then show ?thesis by (auto intro: reach_step [OF reach_new step_hook])
qed

lemma run_ok: "started b0 \<Longrightarrow> broker_step\<^sup>*\<^sup>* b0 b \<Longrightarrow> broker_ok b"
  using broker_run_sound started_ok by (auto simp: sound_to_def)

lemma coord_steps_reachable: "coord_step\<^sup>*\<^sup>* c c' \<Longrightarrow> reachable_coord c \<Longrightarrow> reachable_coord c'"
  by (induction rule: rtranclp_induct) (auto intro: reach_step)

section \<open>Properties\<close>

text \<open>What a broker with well-formed metadata pushes is what another one relies on.\<close>

definition same_replicas :: "Broker \<Rightarrow> Broker \<Rightarrow> bool" where
  "same_replicas b c \<longleftrightarrow> (\<forall>tn i p q. partition_meta b tn i = Some p \<and> partition_meta c tn i = Some q \<longrightarrow> pReplicas p = pReplicas q)"

lemma sent_push_agrees:
  assumes "topics_ok b" "topics_ok c" "same_replicas b c"
  shows "push_agrees c (push_topics (metadataPush now b))"
proof -
  have "topic_ok (tName t) t \<and> (tName t, t) \<in> set (btopics b)" if t: "t \<in> set (snapshotTopics b)" for t
  proof -
    have m: "map_of (btopics b) (tName t) = Some t" using snapshot_by_name(3) [OF assms(1)] t by blast
    then show ?thesis using topics_okD [OF assms(1) m] map_of_SomeD [OF m] by simp
  qed
  moreover have "pReplicas p = pReplicas q"
    if "(tName t, t) \<in> set (btopics b)" "map_of (btopics c) (tName t) = Some u" "p \<in> set (tPartitions t)" "q \<in> set (tPartitions u)" "pID p = pID q"
    for t u p q
    using partition_listed(1) [OF assms(1) that(1,3)] partition_listed(1) [OF assms(2) map_of_SomeD [OF that(2)] that(4)] that(5) assms(3)
    by (simp add: same_replicas_def)
  ultimately show ?thesis
    using snapshot_by_name(1) [OF assms(1)] unfolding push_agrees_def push_topics_push by blast
qed

text \<open>
  C14.  The metadata under the whole interface: let a broker start with a well-formed file of
  topics and then serve requests, of which the pushes are well-formed and name the replicas it
  has, with ticks, passes of its followers and what happens while a produce request waits in
  any order between them.  Then every partition has replicas, none twice, its leader is one of
  them and its in-sync set a nonempty set of them; the next tick does not panic; and what
  the broker pushes is again such a push for every broker with the same replicas, so that
  what is asked of the pushes received is guaranteed for the pushes sent.
\<close>

theorem broker_invariant:
  assumes "started b0" "broker_step\<^sup>*\<^sup>* b0 b" "partition_meta b tn i = Some p"
  shows "pReplicas p \<noteq> [] \<and> distinct (pReplicas p) \<and> pLeader p \<in> set (pReplicas p)
    \<and> pISR p \<noteq> [] \<and> distinct (pISR p) \<and> set (pISR p) \<subseteq> set (pReplicas p) \<and> tick flt now w b \<noteq> None
    \<and> (\<forall>c now. topics_ok c \<and> same_replicas b c \<longrightarrow> push_agrees c (push_topics (metadataPush now b)))"
proof -
  have ok: "broker_ok b" by (rule run_ok [OF assms(1,2)])
  then have t: "topics_ok b" by (simp add: broker_ok_def)
  then have "meta_ok p" using topics_ok_meta assms(3) by blast
  then show ?thesis using tick_ok [OF ok, of flt now w] sent_push_agrees [OF t] by (auto simp: meta_ok_def)
qed

text \<open>
  C20.  The broker uses its coordinator through its methods only: whatever a broker does in such
  a run, its coordinator goes from a reachable state to the next by calls of the coordinator's methods,
  with partition lists that hold no partition twice.  So what holds of reachable coordinators
  holds of running brokers.
\<close>

theorem broker_refines_coordinator:
  assumes "started b0" "broker_step\<^sup>*\<^sup>* b0 b" "broker_step b b'"
  shows "reachable_coord (bgroups b) \<and> coord_step\<^sup>*\<^sup>* (bgroups b) (bgroups b')"
proof -
  have "coord_step\<^sup>*\<^sup>* (bgroups b0) (bgroups b)" using broker_run_sound [OF assms(2)] started_ok [OF assms(1)]
    by (simp add: sound_to_def)
  then have "reachable_coord (bgroups b)" using coord_steps_reachable started_coord [OF assms(1)] by blast
  then show ?thesis using broker_step_sound [OF assms(3)] run_ok [OF assms(1,2)] by (simp add: sound_to_def)
qed

text \<open>The answer of the coordinator to a synchronisation.\<close>

lemma served_sync:
  assumes "serve e b (ReqSync gid (Good \<lparr>sqMemberID = mid, sqGeneration = gen\<rparr>)) = (Done (Ret (200, BSync r)), b')"
  shows "IsController (enow e) (bcluster b) \<and> bgroups b' = snd (Sync (enow e) (bgroups b) gid mid gen)
    \<and> (\<exists>st. fst (Sync (enow e) (bgroups b) gid mid gen) = (srAssignment r, srGeneration r, st, None))"
  using assms
  by (auto simp: serve_def handleSync_def on_controller_def forwardGroup_def writeErr_def writeJSON_def json_answer_def
      Let_def split: prod.splits option.splits if_splits)


lemma Sync_accepted:
  assumes "fst (Sync now c gid mid gen) = (asg, gn, st, None)" "coord_ok c"
  shows "gn = gen \<and> (\<exists>g. map_of (groups c) gid = Some g \<and> Generation g = gen \<and> gState g \<in> {CompletingRebalance, Stable}
    \<and> (\<forall>t ps p. map_of asg t = Some ps \<and> p \<in> set ps \<longrightarrow> owns g mid t p))"
proof -
  obtain g m where g: "map_of (groups c) gid = Some g" "Generation g = gen" "map_of (Members g) mid = Some m"
      "gState g \<noteq> PreparingRebalance" "asg = (case Assignment m of None \<Rightarrow> [] | Some ts \<Rightarrow> ts)" "gn = gen"
    using assms(1) by (auto simp: Sync_def Let_def split: option.splits if_splits)
  have "group_ok g" by (rule coord_group [OF assms(2) g(1)])
  then have "gState g \<in> {CompletingRebalance, Stable}"
    using g(3,4) by (cases "gState g") (auto simp: group_ok_def)
  moreover have "owns g mid t p" if "map_of asg t = Some ps" "p \<in> set ps" for t ps p
    using that g(3,5) by (auto simp: owns_def split: option.splits)
  ultimately show ?thesis using g by blast
qed

lemma fenced_owns: "fenced g g' \<Longrightarrow> Generation g' = Generation g \<Longrightarrow> owns g i t p \<Longrightarrow> owns g' i t p"
  by (cases "map_of (Members g) i"; cases "map_of (Members g') i") (auto simp: fenced_def owns_def dest: spec [of _ i])

text \<open>
  C11.  Consumers of a group read disjoint partitions: when a broker, at any two moments of a
  run whose pushes agree with its metadata, answers the synchronisation requests of two members of a group in the same generation,
  the assignments it answers have no partition of a topic in common.
\<close>

theorem exclusive_consumption:
  assumes "started b0" "broker_step\<^sup>*\<^sup>* b0 b1"
    "serve e1 b1 (ReqSync gid (Good \<lparr>sqMemberID = m1, sqGeneration = gen\<rparr>)) = (Done (Ret (200, BSync r1)), b1')"
    "broker_step\<^sup>*\<^sup>* b1' b2"
    "serve e2 b2 (ReqSync gid (Good \<lparr>sqMemberID = m2, sqGeneration = gen\<rparr>)) = (Done (Ret (200, BSync r2)), b2')"
    "map_of (srAssignment r1) tn = Some ps1" "map_of (srAssignment r2) tn = Some ps2" "m1 \<noteq> m2"
  shows "set ps1 \<inter> set ps2 = {} \<and> srGeneration r1 = gen \<and> srGeneration r2 = gen"
proof -
  obtain st1 where s1: "bgroups b1' = snd (Sync (enow e1) (bgroups b1) gid m1 gen)"
      "fst (Sync (enow e1) (bgroups b1) gid m1 gen) = (srAssignment r1, srGeneration r1, st1, None)"
    using served_sync [OF assms(3)] by blast
  obtain st2 where s2: "fst (Sync (enow e2) (bgroups b2) gid m2 gen) = (srAssignment r2, srGeneration r2, st2, None)"
    using served_sync [OF assms(5)] by blast
  have ok1: "broker_ok b1" by (rule run_ok [OF assms(1,2)])
  have to1: "sound_to b1 b1'" using assms(3) sound_sync by (auto simp: serve_def)
  have steps: "coord_step\<^sup>*\<^sup>* (bgroups b1) (bgroups b2)"
    using to1 broker_run_sound [OF assms(4)] ok1 by (auto simp: sound_to_def)
  have c1: "reachable_coord (bgroups b1)"
    using coord_steps_reachable [OF _ started_coord [OF assms(1)]] broker_run_sound [OF assms(2)] started_ok [OF assms(1)]
    by (simp add: sound_to_def)
  note co1 = reachable_coord_ok [OF c1] and co2 = reachable_coord_ok [OF coord_steps_reachable [OF steps c1]]
  from Sync_accepted [OF s1(2) co1] obtain g1 where g1: "map_of (groups (bgroups b1)) gid = Some g1" "Generation g1 = gen"
      "gState g1 \<in> {CompletingRebalance, Stable}" "\<And>p. p \<in> set ps1 \<Longrightarrow> owns g1 m1 tn p"
    using assms(6) by blast
  from Sync_accepted [OF s2 co2] obtain g2 where g2: "map_of (groups (bgroups b2)) gid = Some g2" "Generation g2 = gen"
      "\<And>p. p \<in> set ps2 \<Longrightarrow> owns g2 m2 tn p"
    using assms(7) by blast
  have "fenced g1 g2" using coord_steps_fenced [OF steps g1(1,3)] g2(1) by auto
  then have o1: "owns g2 m1 tn p" if "p \<in> set ps1" for p using fenced_owns g1(2,4) g2(2) that by metis
  have "group_ok g2" by (rule coord_group [OF co2 g2(1)])
  then have "set ps1 \<inter> set ps2 = {}" using group_ok_owns_unique o1 g2(3) assms(8) by blast
  then show ?thesis using Sync_accepted [OF s1(2) co1] Sync_accepted [OF s2 co2] by blast
qed


section \<open>A group of two consumers\<close>

lemma ask_served: "ask e b a q = (Some r, b') \<longleftrightarrow> serve e b q = (Done (Ret r), b')"
  by (auto simp: ask_def split: prod.splits hres.splits prog.splits)

lemma ask_step:
  assumes "agreeing b q"
  shows "broker_step b (snd (ask example_env b a q))"
proof -
  obtain h b' where h: "serve example_env b q = (h, b')" by fastforce
  have "snd (ask example_env b a q) = b'" by (simp add: ask_def h split: hres.splits prog.splits)
  then show ?thesis using bs_serve [OF h assms] by (simp add: example_env_def)
qed

definition single_cfg :: BConfig where
  "single_cfg = \<lparr>cID = 1, cBind = '''', cAdvertise = ''a'', cDataDir = [], cPeers = [], cSessionTimeout = 0,
     cGroupSession = 0, cRebalanceWait = 0, cReplicaLagTime = 0, cFsyncEvery = 0, cMaxSegmentBytes = 0,
     cIndexInterval = 0, cMinISR = 0, cProduceTimeout = 0\<rparr>"

definition two_part_topic :: topicMeta where
  "two_part_topic = \<lparr>tName = ''t'', tPartitions =
     [\<lparr>pID = 0, pLeader = 1, pReplicas = [1], pISR = [1]\<rparr>, \<lparr>pID = 1, pLeader = 1, pReplicas = [1], pISR = [1]\<rparr>]\<rparr>"

definition single :: "Broker" where
  "single = the (Broker_New no_fault 5 single_cfg [] NoFile (JSON [two_part_topic]))"

definition join_of :: "string \<Rightarrow> request" where
  "join_of m = ReqJoin ''g'' (Good \<lparr>jqMemberID = m, jqTopics = [''t'']\<rparr>)"

definition sync_of :: "string \<Rightarrow> request" where
  "sync_of m = ReqSync ''g'' (Good \<lparr>sqMemberID = m, sqGeneration = 2\<rparr>)"

definition asked :: "Broker \<Rightarrow> request list \<Rightarrow> Broker" where
  "asked b qs = foldl (\<lambda>b q. snd (ask example_env b ''a'' q)) b qs"

lemma single_started: "started single"
proof -
  have "Broker_New no_fault 5 single_cfg [] NoFile (JSON [two_part_topic]) \<noteq> None" by code_simp
  then have "Broker_New no_fault 5 single_cfg [] NoFile (JSON [two_part_topic]) = Some single" by (simp add: single_def)
  moreover have "topic_ok ''t'' two_part_topic" "tName two_part_topic = ''t''"
    by (simp_all add: topic_ok_def two_part_topic_def meta_ok_def)
  ultimately show ?thesis unfolding started_def by (metis json_file.inject list.set_cases set_ConsD empty_iff list.set(1))
qed

lemma asked_run: "\<forall>q\<in>set qs. \<forall>b. agreeing b q \<Longrightarrow> broker_step\<^sup>*\<^sup>* b (asked b qs)"
  by (induction qs arbitrary: b) (auto simp: asked_def intro: converse_rtranclp_into_rtranclp ask_step)

text \<open>Both consumers join, the first one again, and then both synchronise.\<close>

definition both_joined :: Broker where
  "both_joined = asked single [join_of ''m1'', join_of ''m2'', join_of ''m1'']"

lemma first_sync:
  "fst (ask example_env both_joined ''a'' (sync_of ''m1'')) =
     Some (200, BSync \<lparr>srGeneration = 2, srAssignment = [(''t'', [0])], srState = ''CompletingRebalance''\<rparr>)"
  by code_simp

lemma second_sync:
  "fst (ask example_env (asked both_joined [sync_of ''m1'']) ''a'' (sync_of ''m2'')) =
     Some (200, BSync \<lparr>srGeneration = 2, srAssignment = [(''t'', [1])], srState = ''Stable''\<rparr>)"
  by code_simp

lemma joined_run: "broker_step\<^sup>*\<^sup>* single both_joined"
  unfolding both_joined_def by (rule asked_run) (simp add: join_of_def agreeing_def)

theorem exclusive_consumption_witness:
  "\<exists>b1 b2 b3 r1 r2. serve example_env b1 (sync_of ''m1'') = (Done (Ret (200, BSync r1)), b2)
    \<and> serve example_env b2 (sync_of ''m2'') = (Done (Ret (200, BSync r2)), b3)
    \<and> set (the (map_of (srAssignment r1) ''t'')) \<inter> set (the (map_of (srAssignment r2) ''t'')) = {}"
proof -
  let ?r1 = "\<lparr>srGeneration = 2, srAssignment = [(''t'', [0])], srState = ''CompletingRebalance''\<rparr>"
  let ?r2 = "\<lparr>srGeneration = 2, srAssignment = [(''t'', [1])], srState = ''Stable''\<rparr>"
  obtain b2 where b2: "ask example_env both_joined ''a'' (sync_of ''m1'') = (Some (200, BSync ?r1), b2)"
    using first_sync by (metis prod.collapse)
  have "b2 = asked both_joined [sync_of ''m1'']" using b2 by (simp add: asked_def)
  then obtain b3 where b3: "ask example_env b2 ''a'' (sync_of ''m2'') = (Some (200, BSync ?r2), b3)"
    using second_sync by (metis prod.collapse)
  from exclusive_consumption [OF single_started joined_run b2 [unfolded ask_served sync_of_def] rtranclp.rtrancl_refl
      b3 [unfolded ask_served sync_of_def], of "''t''"]
  show ?thesis using b2 b3 unfolding ask_served by fastforce
qed

theorem broker_invariant_witness:
  "partition_meta both_joined ''t'' 1 = Some \<lparr>pID = 1, pLeader = 1, pReplicas = [1], pISR = [1]\<rparr>
   \<and> tick no_fault 8 True both_joined \<noteq> None"
proof -
  have "partition_meta both_joined ''t'' 1 = Some \<lparr>pID = 1, pLeader = 1, pReplicas = [1], pISR = [1]\<rparr>" by code_simp
  with broker_invariant [OF single_started joined_run this] show ?thesis by blast
qed

text \<open>
  A push is not checked: the controller takes over a partition without replicas whose leader
  is dead, answers success, and its next tick panics when it looks for the first live replica.
\<close>

definition malformed_push :: MetadataPush where
  "malformed_push = \<lparr>pushController = 1, pushTopics = [\<lparr>iName = ''x'', iPartitions =
     [\<lparr>iID = 0, iLeader = 9, iReplicas = [], iISR = [], iHW = 0, iLEO = 0\<rparr>]\<rparr>]\<rparr>"

theorem malformed_push_panics:
  "started single \<and> fst (ask example_env single ''a'' (ReqPush (Good malformed_push))) = Some (200, BStatus ''ok'')
   \<and> tick no_fault 8 True (snd (ask example_env single ''a'' (ReqPush (Good malformed_push)))) = None"
proof -
  have "fst (ask example_env single ''a'' (ReqPush (Good malformed_push))) = Some (200, BStatus ''ok'')" by code_simp
  moreover have "tick no_fault 8 True (snd (ask example_env single ''a'' (ReqPush (Good malformed_push)))) = None" by code_simp
  ultimately show ?thesis using single_started by blast
qed

theorem broker_refines_coordinator_witness:
  "reachable_coord (bgroups both_joined)
   \<and> coord_step\<^sup>*\<^sup>* (bgroups both_joined) (bgroups (snd (ask example_env both_joined ''a'' (sync_of ''m1''))))"
  by (rule broker_refines_coordinator [OF single_started joined_run ask_step]) (simp add: sync_of_def agreeing_def)

end
