(* ===== verification/LS_Restart.thy ===== *)
theory LS_Restart
  imports LS_Api LS_GroupOffsets LS_Run
begin

text \<open>
  A broker that starts again on the data directory that it left: \<^verbatim>\<open>LoadExisting\<close> of
  \<^verbatim>\<open>src/internal/store/store.go\<close> finds every partition log, and \<^verbatim>\<open>New\<close> of
  \<^verbatim>\<open>src/internal/broker/broker.go\<close> the metadata and the committed offsets.
\<close>

section \<open>What is left on the disk\<close>

text \<open>Every open log has a key made of a plain topic name and a partition, and is well-formed.\<close>

definition store_ok :: "Store \<Rightarrow> bool" where
  "store_ok s \<longleftrightarrow> go_map (slogs s)
     \<and> (\<forall>(k, l)\<in>set (slogs s). \<exists>t p. k = key t p \<and> plain_topic t \<and> in_i64 p \<and> log_inv l)"

text \<open>The partition directories after a crash: \<open>kb\<close> and \<open>ixb\<close> give for each log what
  \<open>crash_disk\<close> leaves of its active segment.\<close>

definition left_disk :: "Store \<Rightarrow> (string \<Rightarrow> int \<Rightarrow> nat) \<Rightarrow> (string \<Rightarrow> int \<Rightarrow> byte list) \<Rightarrow> (path \<times> directory) list" where
  "left_disk s kb ixb =
     map (\<lambda>(k, l). case ParseKey k of (t, p, ok) \<Rightarrow> (log_dir (sroot s) t p, crash_disk l (kb t p) (ixb t p))) (slogs s)"

text \<open>An index file with entries lies beside a log file with records only.\<close>

definition cut_ok :: "Store \<Rightarrow> (string \<Rightarrow> int \<Rightarrow> nat) \<Rightarrow> (string \<Rightarrow> int \<Rightarrow> byte list) \<Rightarrow> bool" where
  "cut_ok s kb ixb \<longleftrightarrow>
     (\<forall>t p l. Store_Get s t p = Some l \<longrightarrow> take (kb t p) (fbytes (logFile (active l))) \<noteq> [] \<or> ixb t p = [])"

text \<open>What recovery makes of a log.\<close>

definition recovered :: "Log \<Rightarrow> nat \<Rightarrow> Log \<Rightarrow> bool" where
  "recovered l k l' \<longleftrightarrow> log_inv l' \<and> start l' = start l \<and> prefix (contents l') (contents l)
     \<and> (length (fbytes (logFile (active l))) \<le> k \<longrightarrow> contents l' = contents l) \<and> hw l' = 0"

lemma Log_Open_recovered:
  assumes "log_inv l" "take k (fbytes (logFile (active l))) \<noteq> [] \<or> ixb = []" "MaxSegmentBytes cfg \<le> 4294967296"
  shows "\<exists>l'. Log_Open no_fault cfg (crash_disk l k ixb) = Inr l' \<and> recovered l k l'"
proof -
  obtain rss where ok: "log_ok l rss" using assms(1) by (auto simp: log_inv_def)
  note act = log_ok_facts(8) [OF ok, unfolded seg_ok_def]
  have "0 < k \<and> last rss \<noteq> [] \<or> ixb = []" using assms(2) act by auto
  then obtain l' where l': "Log_Open no_fault cfg (crash_disk l k ixb) = Inr l'"
      "log_ok l' (butlast rss @ [take (whole enc k (last rss)) (last rss)])" "start l' = start l" "hw l' = 0"
    using Log_Open_crash [OF ok _ assms(3)] by blast
  have c: "contents l' = concat (butlast rss) @ take (whole enc k (last rss)) (last rss)" using contents_eq [OF l'(2)] by simp
  have cl: "contents l = concat (butlast rss) @ last rss"
    using contents_eq [OF ok] closed_segments(2) [OF ok] by (metis concat.simps concat_append append_Nil2)
  have "take (whole enc k (last rss)) (last rss) = last rss" if "length (fbytes (logFile (active l))) \<le> k"
    using that act whole_all [of enc "last rss" k] by simp
  then show ?thesis using l' c cl by (auto simp: recovered_def log_inv_def take_is_prefix)
qed

lemma store_get_ok: "store_ok s \<Longrightarrow> (k, l) \<in> set (slogs s) \<Longrightarrow> \<exists>t p. k = key t p \<and> plain_topic t \<and> in_i64 p \<and> log_inv l"
  by (auto simp: store_ok_def)

lemma Store_Get_set:
  assumes "store_ok s"
  shows "Store_Get s t p = Some l \<longleftrightarrow> (key t p, l) \<in> set (slogs s)"
  using assms by (auto simp: store_ok_def Store_Get_def go_map_map_of dest: map_of_SomeD)

lemma left_disk_set:
  assumes "store_ok s"
  shows "set (left_disk s kb ixb) =
    {(log_dir (sroot s) t p, crash_disk l (kb t p) (ixb t p)) | t p l.
       plain_topic t \<and> in_i64 p \<and> log_inv l \<and> Store_Get s t p = Some l}" (is "?A = ?B")
proof (intro set_eqI iffI)
  fix x assume "x \<in> ?A"
  then obtain k l where kl: "(k, l) \<in> set (slogs s)"
      "x = (case ParseKey k of (t, p, ok) \<Rightarrow> (log_dir (sroot s) t p, crash_disk l (kb t p) (ixb t p)))"
    by (auto simp: left_disk_def)
  then obtain t p where tp: "k = key t p" "plain_topic t" "in_i64 p" "log_inv l" using store_get_ok [OF assms] by blast
  then have "x = (log_dir (sroot s) t p, crash_disk l (kb t p) (ixb t p))" using kl(2) by (simp add: ParseKey_key)
  then show "x \<in> ?B" using tp kl(1) Store_Get_set [OF assms] by blast
next
  fix x assume "x \<in> ?B"
  then show "x \<in> ?A" using Store_Get_set [OF assms] by (force simp: left_disk_def ParseKey_key)
qed

lemma Itoa_inj:
  assumes "in_i64 p" "in_i64 q" "Itoa p = Itoa q"
  shows "p = q"
proof -
  have "Some p = Some q" using ParseInt_Itoa [OF assms(1)] ParseInt_Itoa [OF assms(2)] unfolding assms(3) by (rule trans [OF sym])
  then show ?thesis by blast
qed

lemma log_dir_inj:
  assumes "plain_topic t" "plain_topic u" "in_i64 p" "in_i64 q" "log_dir root t p = log_dir root u q"
  shows "t = u \<and> p = q"
proof -
  have eq: "t = u" "Itoa p = Itoa q"
    using assms(5) unfolding log_dir_plain [OF assms(1)] log_dir_plain [OF assms(2)]
    by (simp_all only: same_append_eq list.inject)
  then show ?thesis using Itoa_inj [OF assms(3,4)] by blast
qed

lemma left_disk_dirs:
  assumes "store_ok s"
  shows "distinct (map fst (left_disk s kb ixb))"
proof -
  let ?d = "\<lambda>k. case ParseKey k of (t, p, ok) \<Rightarrow> log_dir (sroot s) t p"
  have "map fst (left_disk s kb ixb) = map ?d (map fst (slogs s))"
    by (simp add: left_disk_def case_prod_beta)
  moreover have "inj_on ?d (fst ` set (slogs s))"
  proof (rule inj_onI)
    fix k k' assume k: "k \<in> fst ` set (slogs s)" and k': "k' \<in> fst ` set (slogs s)" and eq: "?d k = ?d k'"
    have ex: "\<exists>t p. x = key t p \<and> plain_topic t \<and> in_i64 p" if "x \<in> fst ` set (slogs s)" for x
      using that store_get_ok [OF assms] by fastforce
    obtain t p where t: "k = key t p" "plain_topic t" "in_i64 p" using ex [OF k] by blast
    obtain u q where u: "k' = key u q" "plain_topic u" "in_i64 q" using ex [OF k'] by blast
    have "log_dir (sroot s) t p = log_dir (sroot s) u q" using eq t u by (simp add: ParseKey_key)
    then show "k = k'" using log_dir_inj [OF t(2) u(2) t(3) u(3)] t u by blast
  qed
  ultimately show ?thesis using assms by (simp add: distinct_map store_ok_def go_map_def mkeys_def comp_inj_on)
qed

lemma left_disk_lookup:
  assumes "store_ok s" "plain_topic t" "in_i64 p"
  shows "map_of (left_disk s kb ixb) (log_dir (sroot s) t p) =
    (case Store_Get s t p of None \<Rightarrow> None | Some l \<Rightarrow> Some (crash_disk l (kb t p) (ixb t p)))"
proof (cases "Store_Get s t p")
  case None
  have "d = crash_disk l (kb u q) (ixb u q) \<Longrightarrow> log_dir (sroot s) t p = log_dir (sroot s) u q \<Longrightarrow> plain_topic u \<Longrightarrow> in_i64 q
      \<Longrightarrow> Store_Get s u q \<noteq> Some l" for d l u q
    using log_dir_inj [OF assms(2) _ assms(3)] None by fastforce
  then have "(log_dir (sroot s) t p, d) \<notin> set (left_disk s kb ixb)" for d
    unfolding left_disk_set [OF assms(1)] by blast
  then show ?thesis using None by (auto dest: map_of_SomeD intro: option.exhaust)
next
  case (Some l)
  then have "log_inv l" using Store_Get_set [OF assms(1)] store_get_ok [OF assms(1)] by blast
  then have "(log_dir (sroot s) t p, crash_disk l (kb t p) (ixb t p)) \<in> set (left_disk s kb ixb)"
    unfolding left_disk_set [OF assms(1)] using Some assms(2,3) by blast
  then show ?thesis using Some left_disk_dirs [OF assms(1)] by simp
qed

section \<open>Loading\<close>

text \<open>The log that opening a partition gives, and a store that has opened the partitions \<open>K\<close>.\<close>

definition disk_log :: "Store \<Rightarrow> string \<Rightarrow> int \<Rightarrow> log_error + Log" where
  "disk_log s t p =
     Log_Open no_fault (logCfg s) (case map_of (sdisk s) (log_dir (sroot s) t p) of None \<Rightarrow> [] | Some d \<Rightarrow> d)"

definition loaded :: "Store \<Rightarrow> (string \<times> int) set \<Rightarrow> Store \<Rightarrow> bool" where
  "loaded s0 K s \<longleftrightarrow> sroot s = sroot s0 \<and> logCfg s = logCfg s0 \<and> sdisk s = sdisk s0
     \<and> (\<forall>t p. in_i64 p \<longrightarrow> (case Store_Get s t p of None \<Rightarrow> (t, p) \<notin> K | Some l \<Rightarrow> (t, p) \<in> K \<and> disk_log s0 t p = Inr l))"

lemma Store_Open_loaded:
  assumes "loaded s0 K s" "in_i64 p" "disk_log s0 t p = Inr l"
  shows "\<exists>s'. Store_Open no_fault s t p = (Inr l, s') \<and> loaded s0 (insert (t, p) K) s'"
proof (cases "Store_Get s t p")
  case (Some l')
  then have "(t, p) \<in> K" "l' = l" using assms by (auto simp: loaded_def split: option.splits)
  then have "loaded s0 (insert (t, p) K) s" using assms(1) by (simp add: insert_absorb)
  then show ?thesis using Some \<open>l' = l\<close> by (auto simp: Store_Open_get)
next
  case None
  have "Store_Open no_fault s t p = (Inr l, Store_put s t p l)"
    using None assms by (simp add: Store_Open_def Store_Get_def Store_put_def disk_log_def loaded_def)
  moreover have "loaded s0 (insert (t, p) K) (Store_put s t p l)"
    unfolding loaded_def
  proof (intro conjI allI impI)
    fix u q assume q: "in_i64 q"
    have "case Store_Get s u q of None \<Rightarrow> (u, q) \<notin> K | Some l \<Rightarrow> (u, q) \<in> K \<and> disk_log s0 u q = Inr l"
      using assms(1) q by (simp add: loaded_def)
    then show "case Store_Get (Store_put s t p l) u q of None \<Rightarrow> (u, q) \<notin> insert (t, p) K
        | Some l' \<Rightarrow> (u, q) \<in> insert (t, p) K \<and> disk_log s0 u q = Inr l'"
      using assms(3) unfolding Store_Get_put [OF assms(2) q] by (auto split: option.splits)
  qed (use assms(1) in \<open>simp_all add: loaded_def Store_put_def\<close>)
  ultimately show ?thesis by blast
qed

lemma load_parts_loaded:
  assumes "\<forall>n\<in>set ps. \<exists>p l. n = Itoa p \<and> in_i64 p \<and> disk_log s0 t p = Inr l" "loaded s0 K s"
  shows "\<exists>s'. load_parts no_fault s t ps = (None, s') \<and> loaded s0 (K \<union> {(t, p) | p. in_i64 p \<and> Itoa p \<in> set ps}) s'"
  using assms
proof (induction ps arbitrary: s K)
  case (Cons n ps)
  obtain p l where p: "n = Itoa p" "in_i64 p" "disk_log s0 t p = Inr l" using Cons.prems(1) by auto
  obtain s1 where s1: "Store_Open no_fault s t p = (Inr l, s1)" "loaded s0 (insert (t, p) K) s1"
    using Store_Open_loaded [OF Cons.prems(2) p(2,3)] by blast
  have "\<forall>n\<in>set ps. \<exists>p l. n = Itoa p \<and> in_i64 p \<and> disk_log s0 t p = Inr l" using Cons.prems(1) by simp
  from Cons.IH [OF this s1(2)] obtain s' where s': "load_parts no_fault s1 t ps = (None, s')"
      "loaded s0 (insert (t, p) K \<union> {(t, p) | p. in_i64 p \<and> Itoa p \<in> set ps}) s'" by blast
  have "insert (t, p) K \<union> {(t, p) | p. in_i64 p \<and> Itoa p \<in> set ps} = K \<union> {(t, p) | p. in_i64 p \<and> Itoa p \<in> set (n # ps)}"
    using p(1,2) Itoa_inj [of _ p] by auto
  then show ?case using s1(1) s' p(1,2) by (simp add: ParseInt_Itoa)
qed simp

lemma load_topics_loaded:
  assumes "\<forall>t\<in>set ts. \<forall>n\<in>set (read_dir (sdisk s0) (clean (sroot s0 @ [''topics'', t]))).
      \<exists>p l. n = Itoa p \<and> in_i64 p \<and> disk_log s0 t p = Inr l" "loaded s0 K s"
  shows "\<exists>s'. load_topics no_fault s ts = (None, s')
    \<and> loaded s0 (K \<union> {(t, p) | t p. t \<in> set ts \<and> in_i64 p \<and> Itoa p \<in> set (read_dir (sdisk s0) (clean (sroot s0 @ [''topics'', t])))}) s'"
  using assms
proof (induction ts arbitrary: s K)
  case (Cons t ts)
  let ?ns = "\<lambda>t. read_dir (sdisk s0) (clean (sroot s0 @ [''topics'', t]))"
  have eq: "read_dir (sdisk s) (clean (sroot s @ [''topics'', t])) = ?ns t" using Cons.prems(2) by (simp add: loaded_def)
  obtain s1 where s1: "load_parts no_fault s t (?ns t) = (None, s1)"
      "loaded s0 (K \<union> {(t, p) | p. in_i64 p \<and> Itoa p \<in> set (?ns t)}) s1"
    using load_parts_loaded [OF _ Cons.prems(2), of "?ns t" t] Cons.prems(1) by auto
  have "\<forall>t\<in>set ts. \<forall>n\<in>set (?ns t). \<exists>p l. n = Itoa p \<and> in_i64 p \<and> disk_log s0 t p = Inr l" using Cons.prems(1) by simp
  from Cons.IH [OF this s1(2)] obtain s' where s': "load_topics no_fault s1 ts = (None, s')"
      "loaded s0 (K \<union> {(t, p) | p. in_i64 p \<and> Itoa p \<in> set (?ns t)} \<union> {(t, p) | t p. t \<in> set ts \<and> in_i64 p \<and> Itoa p \<in> set (?ns t)}) s'"
    by blast
  have "K \<union> {(t, p) | p. in_i64 p \<and> Itoa p \<in> set (?ns t)} \<union> {(t, p) | t p. t \<in> set ts \<and> in_i64 p \<and> Itoa p \<in> set (?ns t)} =
      K \<union> {(u, p) | u p. u \<in> set (t # ts) \<and> in_i64 p \<and> Itoa p \<in> set (?ns u)}" by auto
  then show ?case using s1(1) s' eq by simp
qed simp

lemma set_read_dir:
  "set (read_dir disk p) = {q ! length p | q d. (q, d) \<in> set disk \<and> length p < length q \<and> take (length p) q = p}"
  by (force simp: read_dir_def set_map_filter split: if_splits)

lemma clean_topic: "plain_topic t \<Longrightarrow> clean (root @ [''topics'', t]) = clean (root @ [''topics'']) @ [t]"
  by (simp add: clean_def clean_loop_append plain_topic_def)

lemma left_disk_path:
  assumes "store_ok s"
  shows "(\<exists>d. (q, d) \<in> set (left_disk s kb ixb)) \<longleftrightarrow>
    (\<exists>t p l. plain_topic t \<and> in_i64 p \<and> Store_Get s t p = Some l \<and> q = clean (sroot s @ [''topics'']) @ [t, Itoa p])"
proof -
  have "Store_Get s t p = Some l \<Longrightarrow> log_inv l" for t p l using Store_Get_set [OF assms] store_get_ok [OF assms] by blast
  then show ?thesis unfolding left_disk_set [OF assms] using log_dir_plain by (auto; metis)
qed

lemma read_dir_iff:
  "n \<in> set (read_dir disk base) \<longleftrightarrow> (\<exists>q. (\<exists>d. (q, d) \<in> set disk) \<and> length base < length q \<and> take (length base) q = base \<and> q ! length base = n)"
  unfolding set_read_dir by blast

lemma left_topics:
  assumes "store_ok s"
  shows "t \<in> set (read_dir (left_disk s kb ixb) (clean (sroot s @ [''topics'']))) \<longleftrightarrow>
    (\<exists>p l. plain_topic t \<and> in_i64 p \<and> Store_Get s t p = Some l)"
  unfolding read_dir_iff left_disk_path [OF assms]
proof
  let ?b = "clean (sroot s @ [''topics''])"
  assume "\<exists>q. (\<exists>u p l. plain_topic u \<and> in_i64 p \<and> Store_Get s u p = Some l \<and> q = ?b @ [u, Itoa p])
     \<and> length ?b < length q \<and> take (length ?b) q = ?b \<and> q ! length ?b = t"
  then obtain u p l where u: "plain_topic u" "in_i64 p" "Store_Get s u p = Some l" "(?b @ [u, Itoa p]) ! length ?b = t" by blast
  have "u = t" using u(4) by simp
  then show "\<exists>p l. plain_topic t \<and> in_i64 p \<and> Store_Get s t p = Some l" using u by blast
next
  let ?b = "clean (sroot s @ [''topics''])"
  assume "\<exists>p l. plain_topic t \<and> in_i64 p \<and> Store_Get s t p = Some l"
  then obtain p l where p: "plain_topic t" "in_i64 p" "Store_Get s t p = Some l" by blast
  show "\<exists>q. (\<exists>u p l. plain_topic u \<and> in_i64 p \<and> Store_Get s u p = Some l \<and> q = ?b @ [u, Itoa p])
     \<and> length ?b < length q \<and> take (length ?b) q = ?b \<and> q ! length ?b = t"
    by (rule exI [of _ "?b @ [t, Itoa p]"]) (use p in auto)
qed

lemma left_parts:
  assumes "store_ok s" "plain_topic t"
  shows "n \<in> set (read_dir (left_disk s kb ixb) (clean (sroot s @ [''topics'', t]))) \<longleftrightarrow>
    (\<exists>p l. n = Itoa p \<and> in_i64 p \<and> Store_Get s t p = Some l)"
  unfolding read_dir_iff left_disk_path [OF assms(1)] clean_topic [OF assms(2)]
proof
  let ?b = "clean (sroot s @ [''topics''])"
  assume "\<exists>q. (\<exists>u p l. plain_topic u \<and> in_i64 p \<and> Store_Get s u p = Some l \<and> q = ?b @ [u, Itoa p])
     \<and> length (?b @ [t]) < length q \<and> take (length (?b @ [t])) q = ?b @ [t] \<and> q ! length (?b @ [t]) = n"
  then obtain u p l where u: "in_i64 p" "Store_Get s u p = Some l"
      "take (length (?b @ [t])) (?b @ [u, Itoa p]) = ?b @ [t]" "(?b @ [u, Itoa p]) ! length (?b @ [t]) = n" by blast
  have "u = t" "n = Itoa p" using u(3,4) by (simp_all add: nth_append)
  then show "\<exists>p l. n = Itoa p \<and> in_i64 p \<and> Store_Get s t p = Some l" using u by blast
next
  let ?b = "clean (sroot s @ [''topics''])"
  assume "\<exists>p l. n = Itoa p \<and> in_i64 p \<and> Store_Get s t p = Some l"
  then obtain p l where p: "n = Itoa p" "in_i64 p" "Store_Get s t p = Some l" by blast
  show "\<exists>q. (\<exists>u p l. plain_topic u \<and> in_i64 p \<and> Store_Get s u p = Some l \<and> q = ?b @ [u, Itoa p])
     \<and> length (?b @ [t]) < length q \<and> take (length (?b @ [t])) q = ?b @ [t] \<and> q ! length (?b @ [t]) = n"
    by (rule exI [of _ "?b @ [t, Itoa p]"]) (use p assms(2) in \<open>auto simp: nth_append\<close>)
qed

text \<open>After loading, the store holds what recovery makes of every log, and no other logs.\<close>

lemma LoadExisting_left:
  assumes s: "store_ok s" "cut_ok s kb ixb" and s0: "sroot s0 = sroot s" "slogs s0 = []" "sdisk s0 = left_disk s kb ixb"
    "MaxSegmentBytes (logCfg s0) \<le> 4294967296"
  shows "\<exists>s'. LoadExisting no_fault s0 = (None, s')
    \<and> (\<forall>t p. in_i64 p \<longrightarrow> (case Store_Get s t p of None \<Rightarrow> Store_Get s' t p = None
         | Some l \<Rightarrow> \<exists>l'. Store_Get s' t p = Some l' \<and> recovered l (kb t p) l'))"
proof -
  have dl: "\<exists>l'. disk_log s0 t p = Inr l' \<and> recovered l (kb t p) l'" if p: "in_i64 p" and l: "Store_Get s t p = Some l" for t p l
  proof -
    obtain u q where u: "key t p = key u q" "plain_topic u" "in_i64 q" "log_inv l"
      using Store_Get_set [OF s(1)] store_get_ok [OF s(1)] l by metis
    then have "plain_topic t" using key_inj p by blast
    then have "disk_log s0 t p = Log_Open no_fault (logCfg s0) (crash_disk l (kb t p) (ixb t p))"
      using left_disk_lookup [OF s(1) _ p] l s0 by (simp add: disk_log_def)
    then show ?thesis using Log_Open_recovered [OF u(4)] s(2) l s0(4) by (simp add: cut_ok_def)
  qed
  let ?ts = "read_dir (sdisk s0) (clean (sroot s0 @ [''topics'']))"
  let ?ns = "\<lambda>t. read_dir (sdisk s0) (clean (sroot s0 @ [''topics'', t]))"
  let ?K = "{(t, p) | t p. t \<in> set ?ts \<and> in_i64 p \<and> Itoa p \<in> set (?ns t)}"
  note ts = left_topics [OF s(1)] and ns = left_parts [OF s(1)]
  have pre: "\<forall>t\<in>set ?ts. \<forall>n\<in>set (?ns t). \<exists>p l. n = Itoa p \<and> in_i64 p \<and> disk_log s0 t p = Inr l"
  proof (intro ballI)
    fix t n assume t: "t \<in> set ?ts" and n: "n \<in> set (?ns t)"
    have "plain_topic t" using t unfolding s0 ts by blast
    then obtain p l where "n = Itoa p" "in_i64 p" "Store_Get s t p = Some l" using n unfolding s0 by (auto simp: ns)
    then show "\<exists>p l. n = Itoa p \<and> in_i64 p \<and> disk_log s0 t p = Inr l" using dl by blast
  qed
  have "loaded s0 {} s0" using s0(2) by (simp add: loaded_def Store_Get_def)
  from load_topics_loaded [OF pre this] obtain s' where s': "load_topics no_fault s0 ?ts = (None, s')" "loaded s0 ?K s'" by auto
  have "case Store_Get s t p of None \<Rightarrow> Store_Get s' t p = None
      | Some l \<Rightarrow> \<exists>l'. Store_Get s' t p = Some l' \<and> recovered l (kb t p) l'" if p: "in_i64 p" for t p
  proof -
    have K: "(t, p) \<in> ?K \<longleftrightarrow> (\<exists>l. Store_Get s t p = Some l)"
    proof
      assume "(t, p) \<in> ?K"
      then have t: "t \<in> set ?ts" "Itoa p \<in> set (?ns t)" by auto
      have "plain_topic t" using t(1) unfolding s0 ts by blast
      then obtain q l where "Itoa p = Itoa q" "in_i64 q" "Store_Get s t q = Some l" using t(2) unfolding s0 by (auto simp: ns)
      then show "\<exists>l. Store_Get s t p = Some l" using Itoa_inj [OF p] by blast
    next
      assume "\<exists>l. Store_Get s t p = Some l"
      then obtain l where l: "Store_Get s t p = Some l" by blast
      obtain u q where "key t p = key u q" "plain_topic u" "in_i64 q"
        using Store_Get_set [OF s(1)] store_get_ok [OF s(1)] l by metis
      then have pt: "plain_topic t" using key_inj p by blast
      have "t \<in> set ?ts" unfolding s0 ts using pt p l by blast
      moreover have "Itoa p \<in> set (?ns t)" unfolding s0 ns [OF pt] using p l by blast
      ultimately show "(t, p) \<in> ?K" using p by blast
    qed
    have "case Store_Get s' t p of None \<Rightarrow> (t, p) \<notin> ?K | Some l \<Rightarrow> (t, p) \<in> ?K \<and> disk_log s0 t p = Inr l"
      using s'(2) p unfolding loaded_def by blast
    then show ?thesis unfolding K using dl [OF p, of t] by (auto split: option.splits)
  qed
  then show ?thesis using s'(1) by (intro exI [of _ s']) (simp add: LoadExisting_def no_fault_simps)
qed

section \<open>The broker\<close>

lemma loadTopics_snapshot:
  assumes "topics_ok b" "btopics d = []" "topicsFile d = JSON (snapshotTopics b)"
  shows "\<exists>ts. loadTopics d = Some (d\<lparr>btopics := ts\<rparr>) \<and> partition_meta (d\<lparr>btopics := ts\<rparr>) = partition_meta b"
proof -
  note sn = snapshot_by_name [OF assms(1)]
  have "foldl (\<lambda>m t. mput (tName t) t m) [] (snapshotTopics b) = by_name (snapshotTopics b)"
    using fold_mput_new [OF sn(1), of "[]"] by simp
  then have "loadTopics d = Some (d\<lparr>btopics := by_name (snapshotTopics b)\<rparr>)" using assms(2,3) by (simp add: loadTopics_def)
  moreover have "partition_meta (d\<lparr>btopics := by_name (snapshotTopics b)\<rparr>) = partition_meta b"
    using sn(2) by (intro ext) (simp add: partition_meta_def)
  ultimately show ?thesis by blast
qed

text \<open>
  C7.  A broker restarts after a crash: if its files of topics and offsets are up to date and its
  partition logs lie in directories of their own, then whatever the crash left of their active
  segments, \<open>New\<close> succeeds on the data directory; the broker has the same metadata and committed
  offsets and an empty table of groups, and it holds exactly the logs it held before, each with a prefix
  of its records, with all of them if its active file is complete, and with the high watermark
  at zero.
\<close>

theorem broker_restart:
  assumes "store_ok (bstore b)" "cut_ok (bstore b) kb ixb" "topics_ok b"
    "topicsFile b = JSON (snapshotTopics b)" "offsetFile (bgroups b) = JSON (offsets (bgroups b))"
    "cDataDir (default_cfg cfg) = sroot (bstore b)" "cMaxSegmentBytes (default_cfg cfg) \<le> 4294967296"
  shows "\<exists>b'. Broker_New no_fault now cfg (left_disk (bstore b) kb ixb) (offsetFile (bgroups b)) (topicsFile b) = Some b'
    \<and> partition_meta b' = partition_meta b
    \<and> FetchOffsets (bgroups b') = FetchOffsets (bgroups b) \<and> groups (bgroups b') = []
    \<and> (\<forall>t p. in_i64 p \<longrightarrow> (case Store_Get (bstore b) t p of None \<Rightarrow> Store_Get (bstore b') t p = None
         | Some lg \<Rightarrow> \<exists>lg'. Store_Get (bstore b') t p = Some lg' \<and> recovered lg (kb t p) lg'))"
proof -
  let ?cfg = "default_cfg cfg"
  let ?s0 = "Store_New (cDataDir ?cfg) (cFsyncEvery ?cfg) (cMaxSegmentBytes ?cfg) (cIndexInterval ?cfg) (left_disk (bstore b) kb ixb)"
  have s0: "sroot ?s0 = sroot (bstore b)" "slogs ?s0 = []" "sdisk ?s0 = left_disk (bstore b) kb ixb"
      "MaxSegmentBytes (logCfg ?s0) \<le> 4294967296"
    using assms(6,7) by (simp_all add: Store_New_def)
  obtain st where st: "LoadExisting no_fault ?s0 = (None, st)"
      "\<forall>t p. in_i64 p \<longrightarrow> (case Store_Get (bstore b) t p of None \<Rightarrow> Store_Get st t p = None
         | Some lg \<Rightarrow> \<exists>lg'. Store_Get st t p = Some lg' \<and> recovered lg (kb t p) lg')"
    using LoadExisting_left [OF assms(1,2) s0] by blast
  let ?g = "SetOffsetHook (Coordinator_New (offsetFile (bgroups b)) (cGroupSession ?cfg) (cRebalanceWait ?cfg)) True"
  let ?d = "\<lparr>bcfg = ?cfg, bcluster = Cluster_New now \<lparr>peerID = cID ?cfg, peerAddr = cAdvertise ?cfg\<rparr> (cPeers ?cfg) (cSessionTimeout ?cfg),
      bstore = st, bgroups = ?g, bpartitioner = \<lparr>rr = 0\<rparr>, btopics = [], topicsFile = topicsFile b, replicaLEO = [], followCancel = [], outbox = []\<rparr>"
  obtain ts where ts: "loadTopics ?d = Some (?d\<lparr>btopics := ts\<rparr>)" "partition_meta (?d\<lparr>btopics := ts\<rparr>) = partition_meta b"
    using loadTopics_snapshot [OF assms(3), of ?d] assms(4) by auto
  define b' where "b' = ?d\<lparr>btopics := ts\<rparr>"
  have f: "bstore b' = st" "bgroups b' = ?g" by (simp_all add: b'_def)
  have "Broker_New no_fault now cfg (left_disk (bstore b) kb ixb) (offsetFile (bgroups b)) (topicsFile b) = Some b'"
    using st(1) ts(1) unfolding Broker_New_def Let_def b'_def by simp
  moreover have g: "offsets ?g = offsets (bgroups b)" "groups ?g = []"
    using assms(5) by (simp_all add: SetOffsetHook_def Coordinator_New_def loadOffsets_def Let_def)
  moreover have "FetchOffsets (bgroups b') = FetchOffsets (bgroups b)" unfolding f by (intro ext FetchOffsets_cong g(1))
  moreover have "partition_meta b' = partition_meta b" using ts(2) unfolding b'_def .
  moreover note st(2) [folded f(1)]
  ultimately show ?thesis unfolding f(2) [symmetric] by blast
qed

text \<open>A broker with six records in one partition, whose active segment is cut inside its second record.\<close>

theorem broker_restart_witness:
  "\<exists>l b b' lg'. Log_Open no_fault small_cfg [] = Inr l
    \<and> b = (example_broker 1 (append_empty 6 l))\<lparr>topicsFile := JSON (snapshotTopics (example_broker 1 l)),
        bgroups := Coordinator_New (JSON [(''g/t/0'', 3)]) 0 0\<rparr>
    \<and> Broker_New no_fault 5 single_cfg (left_disk (bstore b) (\<lambda>t p. 50) (\<lambda>t p. [1])) (offsetFile (bgroups b)) (topicsFile b) = Some b'
    \<and> partition_meta b' ''t'' 0 = Some \<lparr>pID = 0, pLeader = 1, pReplicas = [1, 2], pISR = [1]\<rparr>
    \<and> Store_Get (bstore b') ''t'' 0 = Some lg' \<and> prefix (contents lg') (map empty_rec [0, 1, 2, 3, 4, 5])"
proof -
  obtain l s1 s2 s3 where l: "Log_Open no_fault small_cfg [] = Inr l" "log_inv (append_empty 6 l)"
      "contents (append_empty 6 l) = map empty_rec [0, 1, 2, 3, 4, 5]"
      "segments (append_empty 6 l) = [s1, s2, s3]" "seg_ok s3 [empty_rec 4, empty_rec 5]"
    by (rule six_records)
  let ?L = "append_empty 6 l" and ?E = "example_broker 1 (append_empty 6 l)"
  define b where "b = ?E\<lparr>topicsFile := JSON (snapshotTopics (example_broker 1 l)), bgroups := Coordinator_New (JSON [(''g/t/0'', 3)]) 0 0\<rparr>"
  have bs: "slogs (bstore b) = [(key ''t'' 0, ?L)]" "sroot (bstore b) = [''data'']" "btopics b = btopics (example_broker 1 l)"
    by (simp_all add: b_def example_broker_def Let_def del: append_empty.simps)
  have ok: "store_ok (bstore b)"
    using l(2) by (simp add: store_ok_def bs go_map_def mkeys_def del: append_empty.simps)
      (intro exI [of _ "''t''"] exI [of _ 0]; simp add: plain_topic_def in_i64_def)
  have "fbytes (logFile s3) \<noteq> []" 

  proof
    assume "fbytes (logFile s3) = []"
    then have "length (enc (empty_rec 4)) = 0" using l(5) by (simp add: seg_ok_def del: length_enc)
    then show False using EncodedSize_ge [of "empty_rec 4"] by simp
  qed
  then have ct: "cut_ok (bstore b) (\<lambda>t p. 50) (\<lambda>t p. [1])"
    using l(4) by (simp add: cut_ok_def Store_Get_def bs active_def split: if_splits)
  have tp: "topics_ok b" "topicsFile b = JSON (snapshotTopics b)"
    using example_topics_ok [of 1 l] bs(3) by (simp_all add: topics_ok_def snapshotTopics_def b_def)
  have off: "offsetFile (bgroups b) = JSON (offsets (bgroups b))"
    by (simp add: b_def Coordinator_New_def loadOffsets_def Let_def)
  have cf: "cDataDir (default_cfg single_cfg) = sroot (bstore b)" "cMaxSegmentBytes (default_cfg single_cfg) \<le> 4294967296"
    by (simp_all add: bs default_cfg_def single_cfg_def)
  from broker_restart [OF ok ct tp off cf, of 5] obtain b' where b':
      "Broker_New no_fault 5 single_cfg (left_disk (bstore b) (\<lambda>t p. 50) (\<lambda>t p. [1])) (offsetFile (bgroups b)) (topicsFile b) = Some b'"
      "partition_meta b' = partition_meta b"
      "\<forall>t p. in_i64 p \<longrightarrow> (case Store_Get (bstore b) t p of None \<Rightarrow> Store_Get (bstore b') t p = None
         | Some lg \<Rightarrow> \<exists>lg'. Store_Get (bstore b') t p = Some lg' \<and> recovered lg 50 lg')"
    by blast
  have "Store_Get (bstore b) ''t'' 0 = Some ?L" by (simp add: Store_Get_def bs)
  then obtain lg' where "Store_Get (bstore b') ''t'' 0 = Some lg'" "recovered ?L 50 lg'"
    using b'(3) [rule_format, of 0 "''t''"] by (auto simp: in_i64_def simp del: append_empty.simps)
  moreover have "partition_meta b' ''t'' 0 = Some \<lparr>pID = 0, pLeader = 1, pReplicas = [1, 2], pISR = [1]\<rparr>"
    using b'(2) example_broker_simps(3) [of 1 l] by (simp add: partition_meta_def bs)
  ultimately show ?thesis using l(1,3) b'(1) b_def
    by (intro exI [of _ l] exI [of _ b] exI [of _ b'] exI [of _ lg']) (simp add: recovered_def del: append_empty.simps)
qed

end
