(* ===== verification/LS_Flags.thy ===== *)
theory LS_Flags
  imports LS_Stdlib LS_Prelude
begin

text \<open>
  What the command line programs use of Go's \<open>flag\<close> package: a set of string, integer and boolean
  flags with default values, which \<open>Parse\<close> sets from the arguments up to the first one that
  is no flag.  All flag sets of the programs exit on an error.
\<close>

section \<open>Numbers and booleans\<close>

definition lower :: "char \<Rightarrow> char" where
  "lower c = (if is_digit c \<or> c = CHR ''_'' then c
     else if 65 \<le> (of_char c :: nat) \<and> (of_char c :: nat) \<le> 90 then char_of (of_char c + 32 :: nat) else c)"

text \<open>The value of a digit in a base up to 16.\<close>

definition digit_of :: "char \<Rightarrow> nat option" where
  "digit_of c =
     (let n = of_char (lower c) :: nat in
      if 48 \<le> n \<and> n \<le> 57 then Some (n - 48) else if 97 \<le> n \<and> n \<le> 122 then Some (n - 87) else None)"

text \<open>The digits of an unsigned number; underscores are skipped.\<close>

fun digits_in :: "nat \<Rightarrow> nat \<Rightarrow> string \<Rightarrow> nat option" where
  "digits_in b v [] = Some v"
| "digits_in b v (c # cs) =
     (if c = CHR ''_'' then digits_in b v cs
      else (case digit_of c of None \<Rightarrow> None | Some d \<Rightarrow> if d \<ge> b then None else digits_in b (v * b + d) cs))"

text \<open>Where underscores may stand: between digits, the base prefix counting as one.\<close>

fun underscores :: "bool \<Rightarrow> char \<Rightarrow> string \<Rightarrow> bool" where
  "underscores hex prev [] = (prev \<noteq> CHR ''_'')"
| "underscores hex prev (c # cs) =
     (if is_digit c \<or> hex \<and> lower c \<in> {CHR ''a'', CHR ''b'', CHR ''c'', CHR ''d'', CHR ''e'', CHR ''f''}
      then underscores hex CHR ''0'' cs
      else if c = CHR ''_'' then prev = CHR ''0'' \<and> underscores hex CHR ''_'' cs
      else prev \<noteq> CHR ''_'' \<and> underscores hex CHR ''!'' cs)"

definition underscoreOK :: "string \<Rightarrow> bool" where
  "underscoreOK s =
     (case s of
        z # x # rest \<Rightarrow>
          if z = CHR ''0'' \<and> lower x \<in> {CHR ''b'', CHR ''o'', CHR ''x''}
          then underscores (lower x = CHR ''x'') CHR ''0'' rest
          else underscores False CHR ''^'' s
      | _ \<Rightarrow> underscores False CHR ''^'' s)"

text \<open>\<open>strconv.ParseInt(s, 0, 64)\<close>; the base follows from the prefix.\<close>

definition unsigned_any :: "string \<Rightarrow> nat option" where
  "unsigned_any s =
     (let (b, ds) =
        (case s of
           z # x # d # rest \<Rightarrow>
             if z \<noteq> CHR ''0'' then (10, s)
             else if lower x = CHR ''b'' then (2, d # rest)
             else if lower x = CHR ''o'' then (8, d # rest)
             else if lower x = CHR ''x'' then (16, d # rest)
             else (8, x # d # rest)
         | z # rest \<Rightarrow> if z = CHR ''0'' then (8, rest) else (10, s)
         | [] \<Rightarrow> (10, s))
      in if s = [] \<or> (CHR ''_'' \<in> set ds \<and> \<not> underscoreOK s) then None else digits_in b 0 ds)"

definition ParseInt0 :: "string \<Rightarrow> int option" where
  "ParseInt0 s =
     (let (neg, u) = (case s of [] \<Rightarrow> (False, [])
        | c # cs \<Rightarrow> if c = CHR ''-'' then (True, cs) else if c = CHR ''+'' then (False, cs) else (False, s))
      in case unsigned_any u of
           None \<Rightarrow> None
         | Some n \<Rightarrow> (let v = (if neg then - int n else int n) in if in_i64 v then Some v else None))"

definition ParseBool :: "string \<Rightarrow> bool option" where
  "ParseBool s =
     (if s \<in> {''1'', ''t'', ''T'', ''true'', ''TRUE'', ''True''} then Some True
      else if s \<in> {''0'', ''f'', ''F'', ''false'', ''FALSE'', ''False''} then Some False else None)"

section \<open>Flag sets\<close>

datatype flag_value = VStr string | VInt int | VBool bool

type_synonym flag_set = "(string \<times> flag_value) list"

text \<open>Setting a flag from its text; the old value tells its type.\<close>

definition set_flag :: "flag_value \<Rightarrow> string \<Rightarrow> flag_value option" where
  "set_flag old x =
     (case old of VStr _ \<Rightarrow> Some (VStr x) | VInt _ \<Rightarrow> map_option VInt (ParseInt0 x) | VBool _ \<Rightarrow> map_option VBool (ParseBool x))"

text \<open>The exit code when parsing fails or asks for help, and otherwise the flags and the rest.\<close>

datatype parsed = FlagExit int | Parsed flag_set "string list"

definition name_value :: "string \<Rightarrow> string \<times> string option" where
  "name_value x = (if CHR ''='' \<in> set x then (takeWhile (\<lambda>c. c \<noteq> CHR ''='') x, Some (tl (dropWhile (\<lambda>c. c \<noteq> CHR ''='') x)))
     else (x, None))"

fun parse_flags :: "flag_set \<Rightarrow> string list \<Rightarrow> parsed" where
  "parse_flags fs [] = Parsed fs []"
| "parse_flags fs (s # rest) =
     (if length s < 2 \<or> hd s \<noteq> CHR ''-'' then Parsed fs (s # rest)
      else if s = ''--'' then Parsed fs rest
      else
        (let name = (if s ! 1 = CHR ''-'' then drop 2 s else drop 1 s) in
         if hd name = CHR ''-'' \<or> hd name = CHR ''='' then FlagExit 2
         else
           (let (n, v) = name_value name in
            case map_of fs n of
              None \<Rightarrow> FlagExit (if n = ''help'' \<or> n = ''h'' then 0 else 2)
            | Some (VBool old) \<Rightarrow>
                (case set_flag (VBool old) (case v of None \<Rightarrow> ''true'' | Some x \<Rightarrow> x) of
                   None \<Rightarrow> FlagExit 2
                 | Some y \<Rightarrow> parse_flags (mput n y fs) rest)
            | Some old \<Rightarrow>
                (case v of
                   Some x \<Rightarrow> (case set_flag old x of None \<Rightarrow> FlagExit 2 | Some y \<Rightarrow> parse_flags (mput n y fs) rest)
                 | None \<Rightarrow>
                     (case rest of
                        [] \<Rightarrow> FlagExit 2
                      | x # rest' \<Rightarrow>
                          (case set_flag old x of None \<Rightarrow> FlagExit 2 | Some y \<Rightarrow> parse_flags (mput n y fs) rest'))))))"

definition flag_str :: "flag_set \<Rightarrow> string \<Rightarrow> string" where
  "flag_str fs n = (case map_of fs n of Some (VStr x) \<Rightarrow> x | _ \<Rightarrow> '''')"

definition flag_int :: "flag_set \<Rightarrow> string \<Rightarrow> int" where
  "flag_int fs n = (case map_of fs n of Some (VInt x) \<Rightarrow> x | _ \<Rightarrow> 0)"

definition flag_bool :: "flag_set \<Rightarrow> string \<Rightarrow> bool" where
  "flag_bool fs n = (case map_of fs n of Some (VBool x) \<Rightarrow> x | _ \<Rightarrow> False)"

text \<open>\<open>Arg(0)\<close>: the first argument that is left.\<close>

definition Arg0 :: "string list \<Rightarrow> string" where
  "Arg0 args = (case args of [] \<Rightarrow> '''' | a # as \<Rightarrow> a)"

section \<open>Writing and parsing\<close>

lemma hd_nat_digits: "0 < n \<Longrightarrow> hd (nat_digits n) \<noteq> CHR ''0''"
proof (induction n rule: nat_digits.induct)
  case (1 n)
  show ?case
  proof (cases "n < 10")
    case True
    have "char_of (48 + n) \<noteq> CHR ''0''"
    proof
      assume "char_of (48 + n) = CHR ''0''"
      then have "(of_char (char_of (48 + n) :: char) :: nat) = of_char CHR ''0''" by simp
      then show False using True 1(2) of_char_digit [of n] by simp
    qed
    then show ?thesis using True by (subst nat_digits.simps) simp
  next
    case False
    then have "hd (nat_digits (n div 10)) \<noteq> CHR ''0''" using 1 by simp
    then show ?thesis using False by (subst nat_digits.simps) simp
  qed
qed

lemma digit_of_decimal: "is_digit c \<Longrightarrow> digit_of c = Some (of_char c - 48) \<and> (of_char c :: nat) - 48 < 10"
  by (auto simp: digit_of_def lower_def is_digit_def)

lemma digits_in_decimal:
  "list_all is_digit ds \<Longrightarrow> digits_in 10 v ds = Some (foldl (\<lambda>acc c. acc * 10 + (of_char c - 48)) v ds)"
proof (induction ds arbitrary: v)
  case (Cons c ds)
  have "c \<noteq> CHR ''_''" using Cons.prems by (auto simp: is_digit_def)
  then show ?case using Cons digit_of_decimal [of c] by simp
qed simp

lemma unsigned_nat_digits: "unsigned_any (nat_digits n) = Some n"
proof (cases "n = 0")
  case True
  have "nat_digits 0 = ''0''" by code_simp
  then show ?thesis using True by (simp add: unsigned_any_def)
next
  case False
  have d: "list_all is_digit (nat_digits n)" by (rule nat_digits_digits)
  then have "CHR ''_'' \<notin> set (nat_digits n)" by (auto simp: list_all_iff is_digit_def)
  moreover have "digits_in 10 0 (nat_digits n) = Some n"
    using digits_in_decimal [OF d, of 0] digits_val_nat_digits [of n] by (simp add: digits_val_def)
  moreover obtain c cs where c: "nat_digits n = c # cs" "c \<noteq> CHR ''0''"
    using hd_nat_digits [of n] False by (cases "nat_digits n") auto
  ultimately show ?thesis by (auto simp: unsigned_any_def split: list.splits)
qed

lemma nat_digits_sign: "hd (nat_digits n) \<noteq> CHR ''-''" "hd (nat_digits n) \<noteq> CHR ''+''"
  using nat_digits_digits [of n] by (cases "nat_digits n"; auto simp: is_digit_facts)+

lemma ParseInt0_Itoa: "in_i64 n \<Longrightarrow> ParseInt0 (Itoa n) = Some n"
proof -
  assume n: "in_i64 n"
  obtain c cs where c: "nat_digits (nat n) = c # cs" "c \<noteq> CHR ''-''" "c \<noteq> CHR ''+''"
    using nat_digits_sign [of "nat n"] by (cases "nat_digits (nat n)") auto
  have "unsigned_any (c # cs) = Some (nat n)" using unsigned_nat_digits [of "nat n"] c(1) by simp
  then show ?thesis using n c by (simp add: ParseInt0_def Itoa_def unsigned_nat_digits)
qed

text \<open>Flags as a user writes them; a value may look like a flag itself.\<close>

definition as_args :: "string \<times> flag_value \<Rightarrow> string list" where
  "as_args nv =
     (case nv of
        (n, VStr x) \<Rightarrow> [''-'' @ n, x]
      | (n, VInt i) \<Rightarrow> [''-'' @ n, Itoa i]
      | (n, VBool b) \<Rightarrow> [''-'' @ n @ ''='' @ (if b then ''true'' else ''false'')])"

definition same_kind :: "flag_value \<Rightarrow> flag_value \<Rightarrow> bool" where
  "same_kind a b \<longleftrightarrow>
     (case a of VStr _ \<Rightarrow> (case b of VStr _ \<Rightarrow> True | _ \<Rightarrow> False)
      | VInt i \<Rightarrow> in_i64 i \<and> (case b of VInt _ \<Rightarrow> True | _ \<Rightarrow> False)
      | VBool _ \<Rightarrow> (case b of VBool _ \<Rightarrow> True | _ \<Rightarrow> False))"

definition flag_name :: "string \<Rightarrow> bool" where
  "flag_name n \<longleftrightarrow> n \<noteq> '''' \<and> CHR ''='' \<notin> set n \<and> hd n \<noteq> CHR ''-''"

lemma cut_at: "c \<notin> set n \<Longrightarrow> takeWhile (\<lambda>y. y \<noteq> c) (n @ c # x) = n \<and> dropWhile (\<lambda>y. y \<noteq> c) (n @ c # x) = c # x"
  by (induction n) auto

lemma parse_one:
  assumes "flag_name n" "map_of fs n = Some old" "same_kind v old"
  shows "parse_flags fs (as_args (n, v) @ rest) = parse_flags (mput n v fs) rest"
proof -
  have h: "hd n \<noteq> CHR ''-''" "hd n \<noteq> CHR ''=''" "CHR ''='' \<notin> set n" "n \<noteq> []" and len: "\<not> length (CHR ''-'' # n @ x) < 2" for x
    using assms(1) by (cases n; auto simp: flag_name_def)+
  have nm: "(CHR ''-'' # n @ x) ! 1 \<noteq> CHR ''-''" "hd (n @ x) = hd n" "CHR ''-'' # n @ x \<noteq> ''--''" for x
    using h by (cases n; simp)+
  have nv: "name_value n = (n, None)" "name_value (n @ CHR ''='' # x) = (n, Some x)" for x
    using h(3) cut_at [OF h(3)] by (simp_all add: name_value_def)
  note step = h len nm nv assms(2) set_flag_def
  show ?thesis
  proof (cases v)
    case (VStr x)
    then obtain o' where "old = VStr o'" using assms(3) by (cases old) (auto simp: same_kind_def)
    then show ?thesis using VStr step len [of "[]"] nm [of "[]"] by (simp add: as_args_def)
  next
    case (VInt i)
    then obtain o' where "old = VInt o'" "in_i64 i" using assms(3) by (cases old) (auto simp: same_kind_def)
    then show ?thesis using VInt step len [of "[]"] nm [of "[]"] by (simp add: as_args_def ParseInt0_Itoa)
  next
    case (VBool b)
    then obtain o' where "old = VBool o'" using assms(3) by (cases old) (auto simp: same_kind_def)
    then show ?thesis using VBool step by (simp add: as_args_def ParseBool_def)
  qed
qed

text \<open>
  Flags come back as they were written: the last setting of each name counts, and parsing stops
  at the first argument that is no flag.
\<close>

lemma parse_flags_roundtrip:
  assumes "\<forall>(n, v)\<in>set kvs. flag_name n \<and> (\<exists>old. map_of fs n = Some old \<and> same_kind v old)"
    "args = [] \<or> length (hd args) < 2 \<or> hd (hd args) \<noteq> CHR ''-''"
  shows "parse_flags fs (concat (map as_args kvs) @ args) = Parsed (foldl (\<lambda>m (n, v). mput n v m) fs kvs) args"
  using assms(1)
proof (induction kvs arbitrary: fs)
  case Nil
  then show ?case using assms(2) by (cases args) auto
next
  case (Cons nv kvs)
  obtain n v where nv: "nv = (n, v)" by fastforce
  obtain old where old: "flag_name n" "map_of fs n = Some old" "same_kind v old" using Cons.prems nv by auto
  have "same_kind w v" if "same_kind w old" for w
    using that old(3) by (cases w; cases old; cases v) (auto simp: same_kind_def)
  then have "\<forall>(k, w)\<in>set kvs. flag_name k \<and> (\<exists>old. map_of (mput n v fs) k = Some old \<and> same_kind w old)"
    using Cons.prems old(2) by fastforce
  from Cons.IH [OF this] show ?case using parse_one [OF old] nv by simp
qed

end
