(* ===== verification/LS_Cli.thy ===== *)
theory LS_Cli
  imports LS_Handlers LS_Flags
begin

text \<open>
  The commands of \<^verbatim>\<open>src/cmd/logship-cli/main.go\<close>, and the helpers it shares with the other
  programs.  What a command prints is part of its result.  The endless loop of \<open>consumeCmd\<close> runs on
  fuel, one unit for each pass of either loop; sleeping between passes is left out.
\<close>

section \<open>Helpers\<close>

definition split_brokers :: "string \<Rightarrow> string list" where
  "split_brokers s = filter (\<lambda>p. p \<noteq> '''') (map TrimSpace (split_on CHR '','' s))"

definition getenv :: "(string \<times> string) list \<Rightarrow> string \<Rightarrow> string \<Rightarrow> string" where
  "getenv environ k def = (case map_of environ k of None \<Rightarrow> def | Some v \<Rightarrow> if v \<noteq> '''' then v else def)"

definition envInt :: "(string \<times> string) list \<Rightarrow> string \<Rightarrow> int \<Rightarrow> int" where
  "envInt environ k def =
     (case map_of environ k of
        None \<Rightarrow> def
      | Some v \<Rightarrow> if v \<noteq> '''' then (case ParseInt v of Some n \<Rightarrow> n | None \<Rightarrow> def) else def)"

definition shiftTopic :: "string list \<Rightarrow> string \<times> string list" where
  "shiftTopic args =
     (case args of a # as \<Rightarrow> if take 1 a \<noteq> ''-'' then (a, as) else ('''', args) | [] \<Rightarrow> ('''', args))"

section \<open>Simple commands\<close>

text \<open>What a command ends with: the usage, an exit of the flag package, an error, or its output.\<close>

datatype 'a cli = Usage | BadFlags int | Failed client_error | Output 'a

definition must :: "client_error + 'a \<Rightarrow> 'a cli" where
  "must r = (case r of Inl e \<Rightarrow> Failed e | Inr v \<Rightarrow> Output v)"

definition with_flags :: "flag_set \<Rightarrow> string list \<Rightarrow> (flag_set \<Rightarrow> string list \<Rightarrow> 'a cli prog) \<Rightarrow> 'a cli prog" where
  "with_flags fs args k = (case parse_flags fs args of FlagExit n \<Rightarrow> Ret (BadFlags n) | Parsed fs' rest \<Rightarrow> k fs' rest)"

definition topicCmd :: "string \<Rightarrow> string list \<Rightarrow> string cli prog" where
  "topicCmd brokers args =
     (if length args < 2 \<or> args ! 0 \<noteq> ''create'' then Ret Usage
      else with_flags [(''partitions'', VInt 3), (''rf'', VInt 3)] (drop 2 args) (\<lambda>fs rest.
        bind (CreateTopic (Client_New (split_brokers brokers)) (args ! 1) (flag_int fs ''partitions'') (flag_int fs ''rf''))
          (\<lambda>r. Ret (must (map_sum id (\<lambda>u. args ! 1) r)))))"

text \<open>The topic is the first argument, or the first one that the flags leave.\<close>

definition topic_of :: "string \<Rightarrow> string list \<Rightarrow> string" where
  "topic_of tn rest = (if tn = '''' then Arg0 rest else tn)"

definition produceCmd :: "string \<Rightarrow> string list \<Rightarrow> ProduceResponse cli prog" where
  "produceCmd brokers args0 =
     (let (t0, args) = shiftTopic args0 in
      with_flags [(''key'', VStr ''''), (''value'', VStr ''''), (''acks'', VStr ''1'')] args (\<lambda>fs rest.
        let tn = topic_of t0 rest in
        if tn = '''' \<or> flag_str fs ''value'' = '''' then Ret Usage
        else bind (Client_Produce (Client_New (split_brokers brokers)) ''''
               \<lparr>rqTopic = tn, rqPartition = 0, rqKey = string_bytes (flag_str fs ''key''),
                rqValue = string_bytes (flag_str fs ''value''), rqAcks = flag_str fs ''acks'', rqRecords = []\<rparr>)
             (\<lambda>r. Ret (must r))))"

definition fetchCmd :: "string \<Rightarrow> string list \<Rightarrow> FetchResponse cli prog" where
  "fetchCmd brokers args0 =
     (let (t0, args) = shiftTopic args0 in
      with_flags [(''partition'', VInt 0), (''offset'', VInt 0)] args (\<lambda>fs rest.
        let tn = topic_of t0 rest in
        if tn = '''' then Ret Usage
        else bind (Client_Fetch (Client_New (split_brokers brokers)) '''' tn (flag_int fs ''partition'') (flag_int fs ''offset'') 1048576 False)
             (\<lambda>r. Ret (must r))))"

section \<open>Consuming\<close>

record ccfg =
  ccBrokers :: "string list"
  ccGroup :: string
  ccTopic :: string
  ccFromBeg :: bool
  ccMax :: int

type_synonym printed = "(int \<times> WireRecord) list"

text \<open>
  The records of one fetch: what is printed, the next offset, and whether the maximum is reached.
\<close>

fun print_records :: "int \<Rightarrow> int \<Rightarrow> WireRecord list \<Rightarrow> printed \<Rightarrow> int \<Rightarrow> bool \<times> printed \<times> int" where
  "print_records maxN p [] out off = (False, out, off)"
| "print_records maxN p (r # rs) out off =
     (let out' = out @ [(p, r)]; off' = i64 (wOffset r + 1)
      in if maxN > 0 \<and> int (length out') \<ge> maxN then (True, out', off')
         else print_records maxN p rs out' off')"

definition offset_of :: "(int \<times> int) list \<Rightarrow> int \<Rightarrow> int" where
  "offset_of offs p = (case map_of offs p of None \<Rightarrow> 0 | Some v \<Rightarrow> v)"

definition commit_one :: "ccfg \<Rightarrow> string \<Rightarrow> int \<Rightarrow> int \<Rightarrow> int \<Rightarrow> (client_error + unit) prog" where
  "commit_one c member gen p off =
     CommitOffsets \<lparr>Brokers = ccBrokers c\<rparr> (ccGroup c)
       \<lparr>oqMemberID = member, oqGeneration = gen, oqOffsets = [\<lparr>ocTopic = ccTopic c, ocPartition = p, ocOffset = off\<rparr>]\<rparr>"

record poll_result =
  prStop :: bool
  prProgress :: bool
  prOffsets :: "(int \<times> int) list"
  prPrinted :: printed

primrec poll_parts ::
    "ccfg \<Rightarrow> string \<Rightarrow> int \<Rightarrow> int list \<Rightarrow> bool \<Rightarrow> (int \<times> int) list \<Rightarrow> printed \<Rightarrow> poll_result prog" where
  "poll_parts c member gen [] progress offs out =
     Ret \<lparr>prStop = False, prProgress = progress, prOffsets = offs, prPrinted = out\<rparr>"
| "poll_parts c member gen (p # ps) progress offs out =
     bind (Client_Fetch \<lparr>Brokers = ccBrokers c\<rparr> '''' (ccTopic c) p (offset_of offs p) 1048576 False) (\<lambda>r.
       case r of
         Inl err \<Rightarrow> poll_parts c member gen ps progress offs out
       | Inr fr \<Rightarrow>
           if fRecords fr = [] then poll_parts c member gen ps progress offs out
           else
             (let (stop, out', off') = print_records (ccMax c) p (fRecords fr) out (offset_of offs p);
                  offs' = mput p off' offs
              in bind (commit_one c member gen p off') (\<lambda>x.
                   if stop then Ret \<lparr>prStop = True, prProgress = True, prOffsets = offs', prPrinted = out'\<rparr>
                   else poll_parts c member gen ps True offs' out')))"

datatype consume_end = Exit client_error | Finished | Rejoin | OutOfFuel

primrec poll_loop ::
    "nat \<Rightarrow> ccfg \<Rightarrow> string \<Rightarrow> int \<Rightarrow> int list \<Rightarrow> int \<Rightarrow> (int \<times> int) list \<Rightarrow> printed \<Rightarrow> (consume_end \<times> printed) prog" where
  "poll_loop 0 c member gen parts idle offs out = Ret (OutOfFuel, out)"
| "poll_loop (Suc n) c member gen parts idle offs out =
     bind (Client_Heartbeat \<lparr>Brokers = ccBrokers c\<rparr> (ccGroup c) \<lparr>hqMemberID = member, hqGeneration = gen\<rparr>) (\<lambda>hb.
       case hb of
         Inl err \<Rightarrow> Ret (Rejoin, out)
       | Inr h \<Rightarrow>
           if hrError h \<noteq> '''' then Ret (Rejoin, out)
           else
             bind (poll_parts c member gen parts False offs out) (\<lambda>r.
               if prStop r then Ret (Finished, prPrinted r)
               else if prProgress r then poll_loop n c member gen parts idle (prOffsets r) (prPrinted r)
               else if ccMax c > 0 \<and> idle + 1 > 25 then Ret (Finished, prPrinted r)
               else poll_loop n c member gen parts (idle + 1) (prOffsets r) (prPrinted r)))"

text \<open>The offsets to start from: committed, zero, or the high watermark of the metadata.\<close>

definition committed_offsets :: "OffsetCommit list \<Rightarrow> (int \<times> int) list" where
  "committed_offsets os = foldl (\<lambda>m o'. mput (ocPartition o') (ocOffset o') m) [] os"

definition latest_offset :: "string \<Rightarrow> int \<Rightarrow> Metadata \<Rightarrow> int" where
  "latest_offset tn p md =
     foldl (\<lambda>v t. if iName t \<noteq> tn then v else foldl (\<lambda>v pi. if iID pi = p then iHW pi else v) v (iPartitions t)) 0 (mdTopics md)"

primrec start_offsets :: "ccfg \<Rightarrow> int list \<Rightarrow> (int \<times> int) list \<Rightarrow> (int \<times> int) list prog" where
  "start_offsets c [] offs = Ret offs"
| "start_offsets c (p # ps) offs =
     (if p \<in> set (mkeys offs) then start_offsets c ps offs
      else if ccFromBeg c then start_offsets c ps (mput p 0 offs)
      else bind (Client_Metadata \<lparr>Brokers = ccBrokers c\<rparr>) (\<lambda>r.
        start_offsets c ps (mput p (case r of Inl e \<Rightarrow> 0 | Inr md \<Rightarrow> latest_offset (ccTopic c) p md) offs)))"

text \<open>A generation from the synchronisation to the refused heartbeat.\<close>

definition session :: "nat \<Rightarrow> ccfg \<Rightarrow> string \<Rightarrow> SyncResponse \<Rightarrow> printed \<Rightarrow> (consume_end \<times> printed) prog" where
  "session k c member sr out =
     (let parts = (case map_of (srAssignment sr) (ccTopic c) of None \<Rightarrow> [] | Some ps \<Rightarrow> ps) in
      bind (Client_FetchOffsets \<lparr>Brokers = ccBrokers c\<rparr> (ccGroup c) (ccTopic c)) (\<lambda>fo.
        bind (start_offsets c parts (case fo of Inl e \<Rightarrow> [] | Inr os \<Rightarrow> committed_offsets os)) (\<lambda>offs.
          poll_loop k c member (srGeneration sr) parts 0 offs out)))"

primrec consume_loop :: "nat \<Rightarrow> nat \<Rightarrow> ccfg \<Rightarrow> string \<Rightarrow> printed \<Rightarrow> (consume_end \<times> printed) prog" where
  "consume_loop 0 k c member out = Ret (OutOfFuel, out)"
| "consume_loop (Suc n) k c member out =
     bind (Client_Join \<lparr>Brokers = ccBrokers c\<rparr> (ccGroup c) \<lparr>jqMemberID = member, jqTopics = [ccTopic c]\<rparr>) (\<lambda>jr.
       case jr of
         Inl err \<Rightarrow> Ret (Exit err, out)
       | Inr j \<Rightarrow>
           bind (Client_Sync \<lparr>Brokers = ccBrokers c\<rparr> (ccGroup c) \<lparr>sqMemberID = jrMemberID j, sqGeneration = jrGeneration j\<rparr>) (\<lambda>sr.
             case sr of
               Inl err \<Rightarrow> consume_loop n k c (jrMemberID j) out
             | Inr s \<Rightarrow>
                 bind (session k c (jrMemberID j) s out) (\<lambda>(res, out').
                   case res of
                     Rejoin \<Rightarrow> consume_loop n k c (jrMemberID j) out'
                   | _ \<Rightarrow> Ret (res, out'))))"

definition consumeCmd :: "nat \<Rightarrow> nat \<Rightarrow> ccfg \<Rightarrow> (consume_end \<times> printed) prog" where
  "consumeCmd n k c = consume_loop n k c '''' []"

text \<open>The command line of \<open>consume\<close>.\<close>

definition consume_main :: "nat \<Rightarrow> nat \<Rightarrow> string \<Rightarrow> string list \<Rightarrow> (consume_end \<times> printed) cli prog" where
  "consume_main n k brokers args0 =
     (let (t0, args) = shiftTopic args0 in
      with_flags [(''group'', VStr ''''), (''from-beginning'', VBool False), (''max'', VInt 0)] args (\<lambda>fs rest.
        let tn = topic_of t0 rest; groupID = flag_str fs ''group'' in
        if tn = '''' \<or> groupID = '''' then Ret Usage
        else bind (consumeCmd n k \<lparr>ccBrokers = split_brokers brokers, ccGroup = groupID, ccTopic = tn,
                                   ccFromBeg = flag_bool fs ''from-beginning'', ccMax = flag_int fs ''max''\<rparr>) (\<lambda>r. Ret (Output r))))"

section \<open>The program\<close>

datatype cli_output = Created string | Produced ProduceResponse | FetchOut FetchResponse
  | Consumed consume_end printed | Described Metadata

definition map_cli :: "('a \<Rightarrow> 'b) \<Rightarrow> 'a cli \<Rightarrow> 'b cli" where
  "map_cli f r = (case r of Usage \<Rightarrow> Usage | BadFlags n \<Rightarrow> BadFlags n | Failed e \<Rightarrow> Failed e | Output v \<Rightarrow> Output (f v))"

definition cli_main :: "nat \<Rightarrow> nat \<Rightarrow> (string \<times> string) list \<Rightarrow> string list \<Rightarrow> cli_output cli prog" where
  "cli_main n k environ args =
     (let brokers = getenv environ ''LOGSHIP_BROKERS'' ''127.0.0.1:9092'' in
      case args of
        self # cmd # rest \<Rightarrow>
          if cmd = ''topic'' then bind (topicCmd brokers rest) (\<lambda>r. Ret (map_cli Created r))
          else if cmd = ''produce'' then bind (produceCmd brokers rest) (\<lambda>r. Ret (map_cli Produced r))
          else if cmd = ''fetch'' then bind (fetchCmd brokers rest) (\<lambda>r. Ret (map_cli FetchOut r))
          else if cmd = ''consume'' then bind (consume_main n k brokers rest) (\<lambda>r. Ret (map_cli (\<lambda>(e, out). Consumed e out) r))
          else if cmd = ''metadata'' then
            bind (Client_Metadata (Client_New (split_brokers brokers))) (\<lambda>r. Ret (must (map_sum id Described r)))
          else Ret Usage
      | _ \<Rightarrow> Ret Usage)"

text \<open>The exit code; \<open>consume\<close> exits with an error when it cannot join.\<close>

definition exit_code :: "cli_output cli \<Rightarrow> int" where
  "exit_code r =
     (case r of
        Usage \<Rightarrow> 2
      | BadFlags n \<Rightarrow> n
      | Failed e \<Rightarrow> 1
      | Output (Consumed (Exit e) out) \<Rightarrow> 1
      | Output x \<Rightarrow> 0)"

section \<open>What a consumer commits\<close>

lemma calls_bind: "calls net (bind p f) s = calls net p s @ (case exec net p s of (x, s') \<Rightarrow> calls net (f x) s')"
  by (induction p arbitrary: s) (auto split: prod.splits)

lemma any_loop_calls: "set (map snd (calls net (any_loop q dec bs lst) s)) \<subseteq> {q}"
proof (induction bs arbitrary: lst s)
  case (Cons b bs)
  obtain ans s' where net: "net s b q = (ans, s')" by fastforce
  show ?case using Cons [of _ s'] by (auto simp: net split: option.splits)
qed simp

lemma any_calls: "(a, q') \<in> set (calls net (any c q dec) s) \<Longrightarrow> q' = q"
  using any_loop_calls [of net q dec "Brokers c" None s] by (auto simp: any_def)

text \<open>Every offset that is committed in these calls is the one after a record in \<open>out\<close>.\<close>

definition commits_printed :: "ccfg \<Rightarrow> (string \<times> request) list \<Rightarrow> printed \<Rightarrow> bool" where
  "commits_printed c cs out \<longleftrightarrow>
     (\<forall>a g req. (a, ReqCommit g req) \<in> set cs \<longrightarrow>
        (\<exists>p r. (p, r) \<in> set out \<and> oqOffsets (decoded req) = [\<lparr>ocTopic = ccTopic c, ocPartition = p, ocOffset = i64 (wOffset r + 1)\<rparr>]))"

definition no_commit :: "(string \<times> request) list \<Rightarrow> bool" where
  "no_commit cs \<longleftrightarrow> (\<forall>a g req. (a, ReqCommit g req) \<notin> set cs)"

lemma commits_append [simp]: "commits_printed c (xs @ ys) out \<longleftrightarrow> commits_printed c xs out \<and> commits_printed c ys out"
  by (auto simp: commits_printed_def)

lemma commits_mono: "commits_printed c cs out \<Longrightarrow> prefix out out' \<Longrightarrow> commits_printed c cs out'"
  by (fastforce simp: commits_printed_def dest: set_mono_prefix)

lemma no_commit_append [simp]: "no_commit (xs @ ys) \<longleftrightarrow> no_commit xs \<and> no_commit ys"
  by (auto simp: no_commit_def)

lemma no_commit_printed: "no_commit cs \<Longrightarrow> commits_printed c cs out"
  by (auto simp: no_commit_def commits_printed_def)

lemma no_commit_calls [simp]:
  "no_commit (calls net (Client_Fetch cl a t p off mb rep) s)" "no_commit (calls net (Client_Join cl g jq) s)"
  "no_commit (calls net (Client_Sync cl g sq) s)" "no_commit (calls net (Client_Heartbeat cl g hq) s)"
  "no_commit (calls net (Client_Metadata cl) s)" "no_commit (calls net (Client_FetchOffsets cl g t) s)"
  by (auto simp: no_commit_def Client_Fetch_def Client_Join_def Client_Sync_def Client_Heartbeat_def Client_Metadata_def
      Client_FetchOffsets_def Let_def dest: any_calls split: prod.splits)

lemma start_offsets_calls: "no_commit (calls net (start_offsets c ps offs) s)"
proof (induction ps arbitrary: offs s)
  case (Cons p ps)
  show ?case using Cons by (auto simp: calls_bind split: prod.splits)
qed (simp add: no_commit_def)

lemma print_records_out:
  "print_records maxN p rs out off = (stop, out', off') \<Longrightarrow>
     prefix out out' \<and> (rs \<noteq> [] \<longrightarrow> (\<exists>r. (p, r) \<in> set out' \<and> off' = i64 (wOffset r + 1)))
     \<and> (0 < maxN \<and> int (length out) < maxN \<longrightarrow> int (length out') \<le> maxN \<and> (\<not> stop \<longrightarrow> int (length out') < maxN))"
proof (induction rs arbitrary: out off)
  case (Cons r rs)
  show ?case
  proof (cases "maxN > 0 \<and> int (length (out @ [(p, r)])) \<ge> maxN")
    case True
    then have "stop" "out' = out @ [(p, r)]" "off' = i64 (wOffset r + 1)" using Cons.prems by (auto simp: Let_def)
    then show ?thesis using True by auto
  next
    case False
    then have pr: "print_records maxN p rs (out @ [(p, r)]) (i64 (wOffset r + 1)) = (stop, out', off')"
      using Cons.prems by (simp only: print_records.simps Let_def if_False)
    note ih = Cons.IH [OF pr]
    have "prefix out out'" using ih by (auto dest: append_prefixD)
    moreover have "\<exists>x. (p, x) \<in> set out' \<and> off' = i64 (wOffset x + 1)"
    proof (cases "rs = []")
      case True
      then show ?thesis using pr by auto
    qed (use ih in blast)
    ultimately show ?thesis using ih False by auto
  qed
qed auto

definition below_max :: "ccfg \<Rightarrow> printed \<Rightarrow> bool" where
  "below_max c out \<longleftrightarrow> (0 < ccMax c \<longrightarrow> int (length out) < ccMax c)"

definition at_most_max :: "ccfg \<Rightarrow> printed \<Rightarrow> bool" where
  "at_most_max c out \<longleftrightarrow> (0 < ccMax c \<longrightarrow> int (length out) \<le> ccMax c)"

lemma below_at_most: "below_max c out \<Longrightarrow> at_most_max c out"
  by (auto simp: below_max_def at_most_max_def)

text \<open>What a part of the program that printed \<open>out\<close> before and \<open>out'\<close> in all guarantees.\<close>

definition sound :: "ccfg \<Rightarrow> printed \<Rightarrow> (string \<times> request) list \<Rightarrow> printed \<Rightarrow> bool" where
  "sound c out cs out' \<longleftrightarrow> prefix out out' \<and> commits_printed c cs out' \<and> at_most_max c out'"

lemma sound_seq: "sound c out cs out1 \<Longrightarrow> sound c out1 cs' out2 \<Longrightarrow> sound c out (cs @ cs') out2"
  by (auto simp: sound_def intro: commits_mono prefix_order.trans)

lemma sound_quiet: "no_commit cs \<Longrightarrow> below_max c out \<Longrightarrow> sound c out cs out"
  by (simp add: sound_def no_commit_printed below_at_most)

lemma sound_skip: "no_commit cs \<Longrightarrow> sound c out cs' out' \<Longrightarrow> sound c out (cs @ cs') out'"
  by (simp add: sound_def no_commit_printed)

lemma poll_parts_sound:
  assumes "below_max c out" "exec net (poll_parts c member gen ps progress offs out) s = (r, s')"
  shows "sound c out (calls net (poll_parts c member gen ps progress offs out) s) (prPrinted r) \<and> (\<not> prStop r \<longrightarrow> below_max c (prPrinted r))"
  using assms
proof (induction ps arbitrary: progress offs out s)
  case Nil
  then show ?case using below_at_most by (auto simp: sound_def commits_printed_def)
next
  case (Cons p ps)
  let ?f = "Client_Fetch \<lparr>Brokers = ccBrokers c\<rparr> '''' (ccTopic c) p (offset_of offs p) 1048576 False"
  obtain x s1 where x: "exec net ?f s = (x, s1)" by fastforce
  have nf: "no_commit (calls net ?f s)" by simp
  show ?case
  proof (cases "\<exists>fr. x = Inr fr \<and> fRecords fr \<noteq> []")
    case False
    then have sk: "(case x of Inl err \<Rightarrow> poll_parts c member gen ps progress offs out
        | Inr fr \<Rightarrow> if fRecords fr = [] then poll_parts c member gen ps progress offs out else k fr) = poll_parts c member gen ps progress offs out"
      for k by (cases x) auto
    have ex: "exec net (poll_parts c member gen ps progress offs out) s1 = (r, s')" using Cons.prems(2) x sk by (simp add: exec_bind)
    have "calls net (poll_parts c member gen (p # ps) progress offs out) s =
        calls net ?f s @ calls net (poll_parts c member gen ps progress offs out) s1" using x sk by (simp add: calls_bind)
    then show ?thesis using Cons.IH [OF Cons.prems(1) ex] sound_skip [OF nf] by simp
  next
    case True
    then obtain fr where fr: "x = Inr fr" "fRecords fr \<noteq> []" by blast
    obtain stop out1 off1 where pr: "print_records (ccMax c) p (fRecords fr) out (offset_of offs p) = (stop, out1, off1)"
      by (cases "print_records (ccMax c) p (fRecords fr) out (offset_of offs p)")
    let ?cm = "commit_one c member gen p off1"
    obtain u s2 where u: "exec net ?cm s1 = (u, s2)" by fastforce
    note po = print_records_out [OF pr]
    then obtain rec where rec: "(p, rec) \<in> set out1" "off1 = i64 (wOffset rec + 1)" using fr(2) by blast
    have "commits_printed c (calls net ?cm s1) out1"
      using rec by (auto simp: commits_printed_def commit_one_def CommitOffsets_def dest!: any_calls)
    then have so: "sound c out (calls net ?f s @ calls net ?cm s1) out1"
      using po Cons.prems(1) no_commit_printed [OF nf] by (auto simp: sound_def at_most_max_def below_max_def)
    show ?thesis
    proof (cases stop)
      case True
      then show ?thesis using Cons.prems(2) x fr pr u so by (auto simp: exec_bind calls_bind)
    next
      case False
      let ?rest = "poll_parts c member gen ps True (mput p off1 offs) out1"
      have ex: "exec net ?rest s2 = (r, s')" using Cons.prems(2) x fr pr u False by (simp add: exec_bind)
      have bm: "below_max c out1" using po Cons.prems(1) False by (simp add: below_max_def)
      have "calls net (poll_parts c member gen (p # ps) progress offs out) s = (calls net ?f s @ calls net ?cm s1) @ calls net ?rest s2"
        using x fr pr u False by (simp add: calls_bind)
      then show ?thesis using Cons.IH [OF bm ex] sound_seq [OF so] by simp
    qed
  qed
qed

lemma poll_loop_sound:
  assumes "below_max c out" "exec net (poll_loop n c member gen parts idle offs out) s = ((res, out'), s')"
  shows "sound c out (calls net (poll_loop n c member gen parts idle offs out) s) out' \<and> (res = Rejoin \<longrightarrow> below_max c out')"
  using assms
proof (induction n arbitrary: idle offs out s)
  case 0
  then show ?case using sound_quiet [of "[]" c out] by (auto simp: no_commit_def)
next
  case (Suc n)
  let ?hb = "Client_Heartbeat \<lparr>Brokers = ccBrokers c\<rparr> (ccGroup c) \<lparr>hqMemberID = member, hqGeneration = gen\<rparr>"
  let ?pp = "poll_parts c member gen parts False offs out"
  obtain h s1 where h: "exec net ?hb s = (h, s1)" by fastforce
  have nc: "no_commit (calls net ?hb s)" by simp
  obtain r s2 where r: "exec net ?pp s1 = (r, s2)" by fastforce
  show ?case
  proof (cases "\<exists>x. h = Inr x \<and> hrError x = ''''")
    case False
    then show ?thesis using Suc.prems h sound_quiet [OF nc Suc.prems(1)]
      by (cases h) (auto simp: exec_bind calls_bind)
  next
    case True
    then obtain x where x: "h = Inr x" "hrError x = ''''" by blast
    note ps = poll_parts_sound [OF Suc.prems(1) r]
    note so = sound_skip [OF nc ps [THEN conjunct1]]
    let ?idle = "if prProgress r then idle else idle + 1"
    show ?thesis
    proof (cases "prStop r \<or> \<not> prProgress r \<and> ccMax c > 0 \<and> idle + 1 > 25")
      case True
      then show ?thesis using Suc.prems(2) h x r so by (auto simp: exec_bind calls_bind split: if_splits)
    next
      case False
      let ?rest = "poll_loop n c member gen parts ?idle (prOffsets r) (prPrinted r)"
      have bm: "below_max c (prPrinted r)" using ps False by blast
      have ex: "exec net ?rest s2 = ((res, out'), s')" using Suc.prems(2) h x r False by (auto simp: exec_bind split: if_splits)
      have "calls net (poll_loop (Suc n) c member gen parts idle offs out) s = (calls net ?hb s @ calls net ?pp s1) @ calls net ?rest s2"
        using h x r False by (auto simp: calls_bind)
      then show ?thesis using Suc.IH [OF bm ex] sound_seq [OF so] by simp
    qed
  qed
qed

lemma session_sound:
  assumes "below_max c out" "exec net (session k c member sr out) s = ((res, out'), s')"
  shows "sound c out (calls net (session k c member sr out) s) out' \<and> (res = Rejoin \<longrightarrow> below_max c out')"
proof -
  define parts where "parts = (case map_of (srAssignment sr) (ccTopic c) of None \<Rightarrow> [] | Some ps \<Rightarrow> ps)"
  let ?fo = "Client_FetchOffsets \<lparr>Brokers = ccBrokers c\<rparr> (ccGroup c) (ccTopic c)"
  obtain fo s1 where fo: "exec net ?fo s = (fo, s1)" by fastforce
  let ?so = "start_offsets c parts (case fo of Inl e \<Rightarrow> [] | Inr os \<Rightarrow> committed_offsets os)"
  obtain offs s2 where so: "exec net ?so s1 = (offs, s2)" by fastforce
  let ?pl = "poll_loop k c member (srGeneration sr) parts 0 offs out"
  have ex: "exec net ?pl s2 = ((res, out'), s')" using assms(2) fo so by (simp add: session_def exec_bind parts_def [symmetric])
  have "calls net (session k c member sr out) s = (calls net ?fo s @ calls net ?so s1) @ calls net ?pl s2"
    using fo so by (simp add: session_def calls_bind parts_def [symmetric])
  moreover have "no_commit (calls net ?fo s @ calls net ?so s1)" using start_offsets_calls by simp
  ultimately show ?thesis using poll_loop_sound [OF assms(1) ex] sound_skip by fastforce
qed

lemma consume_loop_sound:
  assumes "below_max c out" "exec net (consume_loop n k c member out) s = ((res, out'), s')"
  shows "sound c out (calls net (consume_loop n k c member out) s) out'"
  using assms
proof (induction n arbitrary: member out s)
  case 0
  then show ?case using sound_quiet [of "[]" c out] by (auto simp: no_commit_def)
next
  case (Suc n)
  let ?j = "Client_Join \<lparr>Brokers = ccBrokers c\<rparr> (ccGroup c) \<lparr>jqMemberID = member, jqTopics = [ccTopic c]\<rparr>"
  obtain j s1 where j: "exec net ?j s = (j, s1)" by fastforce
  show ?case
  proof (cases j)
    case (Inl err)
    then show ?thesis using Suc.prems j sound_quiet [OF no_commit_calls(2) Suc.prems(1)] by (auto simp: exec_bind calls_bind)
  next
    case (Inr jr)
    let ?sy = "Client_Sync \<lparr>Brokers = ccBrokers c\<rparr> (ccGroup c) \<lparr>sqMemberID = jrMemberID jr, sqGeneration = jrGeneration jr\<rparr>"
    obtain y s2 where y: "exec net ?sy s1 = (y, s2)" by fastforce
    have ny: "no_commit (calls net ?j s @ calls net ?sy s1)" by simp
    show ?thesis
    proof (cases y)
      case err: (Inl err)
      have ex: "exec net (consume_loop n k c (jrMemberID jr) out) s2 = ((res, out'), s')"
        using Suc.prems(2) j Inr y err by (simp add: exec_bind)
      have "calls net (consume_loop (Suc n) k c member out) s =
          (calls net ?j s @ calls net ?sy s1) @ calls net (consume_loop n k c (jrMemberID jr) out) s2"
        using j Inr y err by (simp add: calls_bind)
      then show ?thesis using Suc.IH [OF Suc.prems(1) ex] sound_skip [OF ny] by simp
    next
      case sr: (Inr sr)
      let ?se = "session k c (jrMemberID jr) sr out"
      obtain pr po s3 where se: "exec net ?se s2 = ((pr, po), s3)" by (metis prod.exhaust)
      note ps = session_sound [OF Suc.prems(1) se]
      note so = sound_skip [OF ny ps [THEN conjunct1]]
      show ?thesis
      proof (cases "pr = Rejoin")
        case True
        have ex: "exec net (consume_loop n k c (jrMemberID jr) po) s3 = ((res, out'), s')"
          using Suc.prems(2) j Inr y sr se True by (simp add: exec_bind)
        have "calls net (consume_loop (Suc n) k c member out) s =
            ((calls net ?j s @ calls net ?sy s1) @ calls net ?se s2) @ calls net (consume_loop n k c (jrMemberID jr) po) s3"
          using j Inr y sr se True by (simp add: calls_bind)
        then show ?thesis using Suc.IH [OF _ ex] ps True sound_seq [OF so] by simp
      next
        case False
        then have "out' = po" "calls net (consume_loop (Suc n) k c member out) s = (calls net ?j s @ calls net ?sy s1) @ calls net ?se s2"
          using Suc.prems(2) j Inr y sr se by (cases pr; auto simp: exec_bind calls_bind)+
        then show ?thesis using so by simp
      qed
    qed
  qed
qed

text \<open>
  C31.  A consumer commits only what it has printed: whatever the brokers answer, every offset
  that the \<open>consume\<close> command commits, through all its rounds of joining and polling, is the one
  after a record of that partition that it has printed; so a consumer that continues from the
  committed offset repeats records rather than missing ones.  With \<open>-max\<close> it prints at most
  that many records.
\<close>

theorem consumer_commits_printed:
  assumes "exec net (consumeCmd n k c) s = ((res, out), s')"
  shows "commits_printed c (calls net (consumeCmd n k c) s) out \<and> (0 < ccMax c \<longrightarrow> int (length out) \<le> ccMax c)"
proof -
  have "below_max c []" by (simp add: below_max_def)
  from consume_loop_sound [OF this assms [unfolded consumeCmd_def]]
  show ?thesis by (simp add: sound_def at_most_max_def consumeCmd_def)
qed

text \<open>A broker that has one record for one consumer.\<close>

definition example_rec :: WireRecord where
  "example_rec = \<lparr>wOffset = 4, wTimestamp = 1, wKey = [], wValue = [118]\<rparr>"

definition example_net :: "unit \<Rightarrow> string \<Rightarrow> request \<Rightarrow> answer \<times> unit" where
  "example_net s a q =
     (Some (200, case q of
        ReqJoin g b \<Rightarrow> BJoin \<lparr>jrMemberID = ''m'', jrGeneration = 1, jrLeaderID = ''m'', jrMembers = [''m''], jrState = ''CompletingRebalance''\<rparr>
      | ReqSync g b \<Rightarrow> BSync \<lparr>srGeneration = 1, srAssignment = [(''t'', [0])], srState = ''Stable''\<rparr>
      | ReqHeartbeat g b \<Rightarrow> BHeartbeat \<lparr>hrError = '''', hrState = ''Stable''\<rparr>
      | ReqOffsets g t \<Rightarrow> BOffsets []
      | ReqFetch fq \<Rightarrow> BFetch \<lparr>fTopic = ''t'', fPartition = 0, fHighWatermark = 5, fLogEndOffset = 5, fRecords = [example_rec]\<rparr>
      | _ \<Rightarrow> BStatus ''ok''), s)"

theorem consumer_commits_printed_witness:
  "let c = \<lparr>ccBrokers = [''a''], ccGroup = ''g'', ccTopic = ''t'', ccFromBeg = True, ccMax = 1\<rparr>
   in exec example_net (consumeCmd 1 1 c) () = ((Finished, [(0, example_rec)]), ())
    \<and> commits_printed c (calls example_net (consumeCmd 1 1 c) ()) [(0, example_rec)]"
proof -
  let ?c = "\<lparr>ccBrokers = [''a''], ccGroup = ''g'', ccTopic = ''t'', ccFromBeg = True, ccMax = 1\<rparr>"
  have "exec example_net (consumeCmd 1 1 ?c) () = ((Finished, [(0, example_rec)]), ())"
    by (simp add: consumeCmd_def exec_bind session_def Client_Join_def Client_Sync_def Client_FetchOffsets_def Client_Heartbeat_def
        Client_Fetch_def commit_one_def CommitOffsets_def any_def example_net_def as_join_def as_sync_def as_offsets_def
        as_heartbeat_def as_fetch_def no_out_def committed_offsets_def mkeys_def Let_def)
  from consumer_commits_printed [OF this] this show ?thesis by (simp add: Let_def)
qed

end
