(* ===== verification/LS_EndToEnd.thy ===== *)
theory LS_EndToEnd
  imports LS_Run LS_GroupOffsets LS_Cli
begin

text \<open>
  The \<^verbatim>\<open>consume\<close> command of \<^verbatim>\<open>src/cmd/logship-cli/main.go\<close> against the handlers of a broker: the
  client's calls, the coordinator, the assignor, the log and the offsets together.
\<close>

section \<open>The broker as a network\<close>

text \<open>A broker that answers every request; \<open>es i\<close> is the environment of the \<open>i\<close>-th one.\<close>

definition asking :: "(nat \<Rightarrow> henv) \<Rightarrow> nat \<times> Broker \<Rightarrow> string \<Rightarrow> request \<Rightarrow> answer \<times> nat \<times> Broker" where
  "asking es s a q = (case ask (es (fst s)) (snd s) a q of (ans, b') \<Rightarrow> (ans, Suc (fst s), b'))"

lemma asking_step: "ask (es i) b a q = (ans, b') \<Longrightarrow> asking es (i, b) a q = (ans, Suc i, b')"
  by (simp add: asking_def)

lemma any_answered:
  assumes "ask (es i) b a q = (Some (200, body), b')"
  shows "exec (asking es) (any \<lparr>Brokers = a # as\<rparr> q dec) (i, b) =
    (case dec body of None \<Rightarrow> Inl CDecode | Some v \<Rightarrow> Inr v, Suc i, b')"
  using assms by (simp add: any_def asking_step split: option.splits)

text \<open>A request sent to any broker until one accepts it, where every answer keeps \<open>P\<close>.\<close>

lemma any_keeps:
  assumes first: "Brokers c = a # as" "\<And>a i. P (snd (ask (es i) b a q))"
    and more: "\<And>a i b. P b \<Longrightarrow> P (snd (ask (es i) b a q))"
  shows "P (snd (snd (exec (asking es) (any c q dec) (i, b))))"
proof -
  have rest: "P (snd (snd (exec (asking es) (any_loop q dec bs lst) (i, b))))" if "P b" for bs lst i b
    using that
  proof (induction bs arbitrary: i b lst)
    case (Cons x bs)
    then show ?case using more [of b i x]
      by (auto simp: asking_def split: prod.splits option.splits)
  qed simp
  obtain ans b1 where b1: "ask (es i) b a q = (ans, b1)" by fastforce
  have "P b1" using first(2) [of i a] b1 by simp
  then show ?thesis using first(1) b1 rest
    by (auto simp: any_def asking_step split: option.splits)
qed

section \<open>What other requests leave alone\<close>

text \<open>Topic \<open>tn\<close> is the same on both brokers: its metadata and its logs; and so are cluster and groups.\<close>

definition kept :: "string \<Rightarrow> Broker \<Rightarrow> Broker \<Rightarrow> bool" where
  "kept tn b b' \<longleftrightarrow> bcfg b' = bcfg b \<and> bcluster b' = bcluster b \<and> bgroups b' = bgroups b
     \<and> map_of (btopics b') tn = map_of (btopics b) tn
     \<and> (\<forall>p. Store_Get (bstore b') tn p = Store_Get (bstore b) tn p)"

lemma kept_refl [simp, intro]: "kept tn b b"
  by (simp add: kept_def)

lemma kept_trans: "kept tn b b' \<Longrightarrow> kept tn b' b'' \<Longrightarrow> kept tn b b''"
  by (simp add: kept_def)

lemma kept_fields:
  "kept tn b (b\<lparr>bpartitioner := p\<rparr>)" "kept tn b (b\<lparr>outbox := ms\<rparr>)"
  "kept tn b (b\<lparr>topicsFile := f\<rparr>)" "kept tn b (b\<lparr>replicaLEO := r\<rparr>)"
  by (simp_all add: kept_def)

text \<open>The same without the groups.\<close>

definition same_topic :: "string \<Rightarrow> Broker \<Rightarrow> Broker \<Rightarrow> bool" where
  "same_topic tn b b' \<longleftrightarrow> kept tn (b\<lparr>bgroups := bgroups b'\<rparr>) b'"

lemma same_topic_refl [simp, intro]: "same_topic tn b b"
  by (simp add: same_topic_def)

lemma same_topic_groups [simp]: "same_topic tn b (b\<lparr>bgroups := c\<rparr>)"
  by (simp add: same_topic_def)

lemma same_topic_trans: "same_topic tn b b' \<Longrightarrow> same_topic tn b' b'' \<Longrightarrow> same_topic tn b b''"
  by (simp add: same_topic_def kept_def)

lemma same_topic_kept: "kept tn b b' \<Longrightarrow> same_topic tn b b'"
  by (simp add: same_topic_def kept_def)

lemma same_topic_facts:
  assumes "same_topic tn b b'"
  shows "bcfg b' = bcfg b" "bcluster b' = bcluster b" "partition_meta b' tn p = partition_meta b tn p"
    "Store_Get (bstore b') tn p = Store_Get (bstore b) tn p"
  using assms by (simp_all add: same_topic_def kept_def partition_meta_def)

lemma key_topic:
  assumes "key t p = key u q"
  shows "t = u"
  using split_last_unique [OF _ Itoa_no_slash Itoa_no_slash, of t p u q] assms by (simp add: key_def)

lemma Store_Get_other: "t \<noteq> tn \<Longrightarrow> Store_Get (Store_put s t q l) tn p = Store_Get s tn p"
  using key_topic [of t q tn p] by (auto simp: Store_Get_def Store_put_def)

lemma kept_put: "t \<noteq> tn \<Longrightarrow> kept tn b (b\<lparr>bstore := Store_put (bstore b) t q l\<rparr>)"
  by (simp add: kept_def Store_Get_other)

lemma kept_open: "t \<noteq> tn \<Longrightarrow> Store_Open flt (bstore b) t q = (r, st) \<Longrightarrow> kept tn b (b\<lparr>bstore := st\<rparr>)"
  using kept_put [of t tn b q]
  by (auto simp: Store_Open_def Store_put_def Let_def split: option.splits sum.splits)

lemma kept_isr: "t \<noteq> tn \<Longrightarrow> kept tn b (set_isr b t q isr)"
proof -
  assume "t \<noteq> tn"
  then have "map_of (map (\<lambda>(k, x). (k, if k = t then f x else x)) m) tn = map_of m tn" for f m
    by (induction m) auto
  then show ?thesis by (simp add: kept_def set_isr_def)
qed

lemma kept_push: "kept tn b (broadcastMetadata now b)" "kept tn b (persistTopicsLocked w b)"
  by (simp_all add: kept_def broadcastMetadata_def persistTopicsLocked_def Let_def)

lemma kept_note: "kept tn b (noteReplica now b t q i leo)"
  by (simp add: kept_def noteReplica_def Let_def)

lemma kept_recompute:
  assumes "t \<noteq> tn"
  shows "kept tn b (recomputeHW flt now w b t q)"
proof -
  have "kept tn b (b\<lparr>bstore := Store_put st t q l\<rparr>)" if "Store_Open flt (bstore b) t q = (r, st)" for r st l
    using kept_trans [OF kept_open [OF assms that] kept_put [OF assms, of "b\<lparr>bstore := st\<rparr>" q l]] by simp
  then show ?thesis
    using kept_open [OF assms, of flt b q]
    by (auto simp: recomputeHW_def Let_def split: option.splits prod.splits sum.splits
        intro: kept_trans [OF _ kept_trans [OF kept_isr [OF assms] kept_trans [OF kept_push(2) kept_push(1)]]])
qed

lemma kept_solo:
  assumes "t \<noteq> tn"
  shows "kept tn b (maybeSoloHW b t q)"
  using kept_put [OF assms] by (auto simp: maybeSoloHW_def split: option.splits)

lemma kept_append:
  assumes "t \<noteq> tn"
  shows "kept tn b (snd (produce_append e now b t q rec))"
proof -
  have "kept tn b (b\<lparr>bstore := Store_put st t q l\<rparr>)" if "Store_Open flt (bstore b) t q = (r, st)" for flt r st l
    using kept_trans [OF kept_open [OF assms that] kept_put [OF assms, of "b\<lparr>bstore := st\<rparr>" q l]] by simp
  then show ?thesis
    using kept_open [OF assms, of "eflt e" b q]
    by (auto simp: produce_append_def noteSelfLEO_def Let_def split: option.splits prod.splits sum.splits
        intro: kept_trans [OF _ kept_trans [OF kept_note kept_recompute [OF assms]]])
qed

text \<open>A produce request that does not wait, for another topic.\<close>

lemma kept_produce:
  assumes "rqTopic req \<noteq> tn" "rqAcks req = ''1''"
  shows "kept tn b (snd (produceLocal e b req))"
proof -
  have one: "kept tn b (snd (produce_one e req ''1'' n now ps rec b))" for n now ps rec b
    using kept_trans [OF kept_fields(1) kept_append [OF assms(1)]]
      kept_trans [OF kept_trans [OF kept_fields(1) kept_append [OF assms(1)]] kept_solo [OF assms(1)]]
    by (auto simp: produce_one_def Let_def kept_fields split: option.splits prod.splits sum.splits) (metis snd_conv)+
  have "kept tn b (snd (produce_loop e req ''1'' n i recs out b))" for n i recs out b
  proof (induction recs arbitrary: i out b)
    case (Cons rec recs)
    obtain r b' where r: "produce_one e req ''1'' n (fst (ewaits e i)) (snd (ewaits e i)) rec b = (r, b')" by fastforce
    then have "kept tn b b'" using one by (metis snd_conv)
    then show ?case using r Cons kept_trans by (cases r) auto
  qed simp
  then show ?thesis using assms(2) by (auto simp: produceLocal_def Let_def simp del: produce_loop.simps split: option.splits)
qed

section \<open>Offsets\<close>

text \<open>The offset a group has committed for a partition, zero if there is none.\<close>

definition committed_at :: "Broker \<Rightarrow> string \<Rightarrow> string \<Rightarrow> int \<Rightarrow> int" where
  "committed_at b grp tn p = (case map_of (offsets (bgroups b)) (offsetKey grp tn p) of None \<Rightarrow> 0 | Some v \<Rightarrow> v)"

lemma offsetKey_inj: "in_i64 p \<Longrightarrow> in_i64 q \<Longrightarrow> offsetKey g t p = offsetKey g u q \<Longrightarrow> t = u \<and> p = q"
  using offsetKey_inj_group [of g t p u q] ParseInt_Itoa by (metis option.inject)

lemma map_of_committed:
  "map_of (committed_offsets os) p =
     (case filter (\<lambda>x. ocPartition x = p) os of [] \<Rightarrow> None | xs \<Rightarrow> Some (ocOffset (last xs)))"
proof (induction os rule: rev_induct)
  case (snoc x os)
  then show ?case by (cases "filter (\<lambda>x. ocPartition x = p) os") (auto simp: committed_offsets_def)
qed (simp add: committed_offsets_def)

lemma fetched_offsets:
  assumes "offsets_ok (bgroups b)" "in_i64 p" "tn \<noteq> ''''"
  shows "offset_of (committed_offsets (map (\<lambda>x. \<lparr>ocTopic = oTopic x, ocPartition = oPartition x, ocOffset = oOffset x\<rparr>)
     (FetchOffsets (bgroups b) grp tn))) p = committed_at b grp tn p"
proof -
  let ?os = "map (\<lambda>x. \<lparr>ocTopic = oTopic x, ocPartition = oPartition x, ocOffset = oOffset x\<rparr>) (FetchOffsets (bgroups b) grp tn)"
  let ?m = "map_of (offsets (bgroups b)) (offsetKey grp tn p)"
  note iff = FetchOffsets_iff [OF assms(1,2), of _ _ grp tn]
  have val: "?m = Some (ocOffset x)" if x: "x \<in> set ?os" "ocPartition x = p" for x
  proof -
    obtain y where y: "y \<in> set (FetchOffsets (bgroups b) grp tn)" "oPartition y = p" "ocOffset x = oOffset y"
      using x by auto
    then have "\<lparr>oTopic = oTopic y, oPartition = p, oOffset = oOffset y\<rparr> \<in> set (FetchOffsets (bgroups b) grp tn)"
      by (metis OffsetEntry.surjective old.unit.exhaust)
    then show ?thesis using iff [of "oTopic y" "oOffset y"] y(3) assms(3) by simp
  qed
  have ex: "\<exists>x\<in>set ?os. ocPartition x = p" if "?m = Some v" for v
    using iff [of tn v] that by force
  show ?thesis
  proof (cases "filter (\<lambda>x. ocPartition x = p) ?os")
    case Nil
    then have "\<not> (\<exists>x\<in>set ?os. ocPartition x = p)" by (auto simp: filter_empty_conv)
    then have "?m = None" using ex by (cases ?m) blast+
    then show ?thesis using Nil by (simp add: offset_of_def committed_at_def map_of_committed)
  next
    case (Cons x xs)
    then have "last (x # xs) \<in> set (filter (\<lambda>x. ocPartition x = p) ?os)" by (metis last_in_set list.distinct(1))
    then have "?m = Some (ocOffset (last (x # xs)))" using val by simp
    then show ?thesis using Cons by (simp add: offset_of_def committed_at_def map_of_committed)
  qed
qed

text \<open>One committed offset, as \<open>consume\<close> sends it.\<close>

definition commit_of :: "string \<Rightarrow> string \<Rightarrow> int \<Rightarrow> string \<Rightarrow> int \<Rightarrow> int \<Rightarrow> request" where
  "commit_of grp m gen tn p off = ReqCommit grp (Good \<lparr>oqMemberID = m, oqGeneration = gen,
     oqOffsets = [\<lparr>ocTopic = tn, ocPartition = p, ocOffset = off\<rparr>]\<rparr>)"

lemma snd_ask_Ret: "serve e b q = (Done (Ret r), b') \<Longrightarrow> ask e b a q = (Some r, b')"
  by (simp add: ask_def)

lemma foldl_kept: "(\<And>b x. kept tn b (f b x)) \<Longrightarrow> kept tn b (foldl f b xs)"
  by (induction xs arbitrary: b) (auto intro: kept_trans)

lemma asked_commit:
  assumes "IsController (enow e) (bcluster b)" "tn \<noteq> offsetsTopic" "snd (ask e b a (commit_of grp m gen tn p off)) = b'"
  shows "same_topic tn b b' \<and> groups (bgroups b') = groups (bgroups b) \<and> sessionTimeout (bgroups b') = sessionTimeout (bgroups b)
    \<and> offsets (bgroups b') = mput (offsetKey grp tn p) off (offsets (bgroups b))"
proof -
  let ?c = "snd (Commit (ewr e) (bgroups b) grp [\<lparr>oTopic = tn, oPartition = p, oOffset = off\<rparr>])"
  let ?b0 = "b\<lparr>bgroups := ?c\<lparr>hookCalls := []\<rparr>\<rparr>"
  have rep: "kept tn b (replicateOffset e b x)" for b x
    using assms(2) by (cases x) (simp add: replicateOffset_def kept_produce)
  have b': "b' = foldl (replicateOffset e) ?b0 (hookCalls ?c)"
    using assms(1,3) by (auto simp: ask_def serve_def commit_of_def handleCommitOffsets_def on_controller_def forwardGroup_def
        Let_def split: prod.splits option.splits)
  have k: "kept tn ?b0 b'" unfolding b' by (rule foldl_kept) (rule rep)
  then have "same_topic tn b b'" using same_topic_trans [OF same_topic_groups same_topic_kept] by blast
  moreover have "bgroups b' = ?c\<lparr>hookCalls := []\<rparr>" using k by (simp add: kept_def)
  moreover have "groups ?c = groups (bgroups b)" "sessionTimeout ?c = sessionTimeout (bgroups b)"
    "offsets ?c = mput (offsetKey grp tn p) off (offsets (bgroups b))"
    by (simp_all add: Commit_def commit_entry_def persistOffsetsLocked_def Let_def)
  ultimately show ?thesis by simp
qed

section \<open>Fetching\<close>

text \<open>A partition that the broker leads, with its log; logs start at offset zero.\<close>

definition served_part :: "Broker \<Rightarrow> string \<Rightarrow> int \<Rightarrow> Log \<Rightarrow> bool" where
  "served_part b tn p lg \<longleftrightarrow> in_i64 p \<and> Store_Get (bstore b) tn p = Some lg \<and> log_inv lg \<and> start lg = 0
     \<and> (\<exists>pm. partition_meta b tn p = Some pm \<and> pLeader pm = self_id b)"

text \<open>The committed records of a log from an offset on.\<close>

definition unread :: "Log \<Rightarrow> int \<Rightarrow> Record list" where
  "unread lg off = drop (nat off) (take (nat (HighWatermark lg)) (contents lg))"

lemma served_part_same: "same_topic tn b b' \<Longrightarrow> served_part b tn p lg \<Longrightarrow> served_part b' tn p lg"
  by (simp add: served_part_def same_topic_facts)

lemma unread_visible:
  assumes "log_inv lg" "start lg = 0" "0 \<le> off" "off \<le> HighWatermark lg"
  shows "visible off (HighWatermark lg) (contents lg) = unread lg off"
proof -
  have c: "consec 0 (contents lg)" using log_inv_facts(2) [OF assms(1)] assms(2) by simp
  have "visible off (HighWatermark lg) (contents lg) = filter (\<lambda>r. off \<le> Offset r) (filter (\<lambda>r. Offset r < HighWatermark lg) (contents lg))"
    by (simp add: conj_commute)
  also have "filter (\<lambda>r. Offset r < HighWatermark lg) (contents lg) = take (nat (HighWatermark lg)) (contents lg)"
    using consec_filter_less [OF c] consec_takeWhile [OF c] by simp
  also have "filter (\<lambda>r. off \<le> Offset r) (take (nat (HighWatermark lg)) (contents lg)) = unread lg off"
    using consec_filter_ge [OF consec_take [OF c]] by (simp add: unread_def)
  finally show ?thesis .
qed

lemma unread_last:
  assumes "log_inv lg" "start lg = 0" "0 \<le> off" "off \<le> HighWatermark lg"
  shows "unread lg off = [] \<longleftrightarrow> off = HighWatermark lg"
    and "off < HighWatermark lg \<Longrightarrow> Offset (last (unread lg off)) + 1 = HighWatermark lg"
proof -
  note f = log_inv_facts [OF assms(1)]
  have len: "nat (HighWatermark lg) \<le> length (contents lg)" using f(1,6) assms(2) by (simp add: HighWatermark_def)
  show "unread lg off = [] \<longleftrightarrow> off = HighWatermark lg" using len assms(3,4) by (auto simp: unread_def)
  assume lt: "off < HighWatermark lg"
  have "last (unread lg off) = contents lg ! (nat (HighWatermark lg) - 1)"
    using lt len assms(3) by (simp add: unread_def last_drop last_conv_nth min.absorb2)
  then show "Offset (last (unread lg off)) + 1 = HighWatermark lg"
    using f(2) len lt assms(2,3) by (simp add: consec_def)
qed

lemma unread_done: "0 \<le> HighWatermark lg \<Longrightarrow> unread lg (HighWatermark lg) = []"
  by (simp add: unread_def)

lemma fetched:
  assumes "served_part b tn p lg" "0 \<le> off" "off \<le> HighWatermark lg" "int (rec_bytes (unread lg off)) \<le> 1048576"
  shows "\<exists>fr. exec (asking es) (Client_Fetch \<lparr>Brokers = a # as\<rparr> '''' tn p off 1048576 False) (i, b) = (Inr fr, Suc i, b)
    \<and> fRecords fr = map json_wire (toWire (unread lg off))"
proof -
  have s: "in_i64 p" "Store_Get (bstore b) tn p = Some lg" "log_inv lg" "start lg = 0"
    using assms(1) by (simp_all add: served_part_def)
  obtain pm where pm: "partition_meta b tn p = Some pm" "pLeader pm = self_id b" using assms(1) by (auto simp: served_part_def)
  have off: "in_i64 off" using assms(2,3) log_inv_facts [OF s(3)] by (simp add: in_i64_def HighWatermark_def)
  have mb: "parse_lenient (Itoa 1048576) = 1048576" by (simp add: in_i64_def)
  have "Read lg off 1048576 (HighWatermark lg) = Inr (unread lg off)"
    using Read_complete [OF s(3), of off "HighWatermark lg" 1048576] unread_visible [OF s(3,4) assms(2,3)] assms(2-4) s(4) by simp
  from serveFetch_leader [OF pm s(2,1) off, of 1048576 False "unread lg off" "Itoa 1048576" "es i" "''''"] this mb
  have "serve (es i) b (ReqFetch \<lparr>fqTopic = tn, fqPartition = Itoa p, fqOffset = Itoa off, fqMaxBytes = Itoa 1048576, fqReplica = ''''\<rparr>) =
      (Done (Ret (200, BFetch \<lparr>fTopic = tn, fPartition = p, fHighWatermark = HighWatermark lg, fLogEndOffset = LEO lg,
         fRecords = map json_wire (toWire (unread lg off))\<rparr>)), b)"
    by (simp add: serve_def handleFetch_def)
  then show ?thesis by (simp add: Client_Fetch_def pick_def asking_def snd_ask_Ret as_fetch_def)
qed

lemma print_all:
  "maxN \<le> 0 \<Longrightarrow> print_records maxN p rs out off =
     (False, out @ map (Pair p) rs, if rs = [] then off else i64 (wOffset (last rs) + 1))"
  by (induction rs arbitrary: out off) (auto simp: Let_def)

section \<open>Group requests\<close>

definition in_group :: "Broker \<Rightarrow> string \<Rightarrow> string \<Rightarrow> int \<Rightarrow> bool" where
  "in_group b grp m gen \<longleftrightarrow> (\<exists>g mm. map_of (groups (bgroups b)) grp = Some g \<and> gState g = Stable \<and> Generation g = gen
     \<and> map_of (Members g) m = Some mm)"

lemma in_group_same: "groups (bgroups b') = groups (bgroups b) \<Longrightarrow> in_group b grp m gen \<Longrightarrow> in_group b' grp m gen"
  by (simp add: in_group_def)

lemma served_local:
  assumes "IsController (enow e) (bcluster b)"
  shows "on_controller e b q local = (Done (Ret (fst local)), snd local)"
  using assms by (simp add: on_controller_def forwardGroup_def)

text \<open>What every request of the consumer keeps: the topic, the offsets of the group table aside.\<close>

definition same_but_groups :: "string \<Rightarrow> Broker \<Rightarrow> Broker \<Rightarrow> bool" where
  "same_but_groups tn b b' \<longleftrightarrow> same_topic tn b b' \<and> offsets (bgroups b') = offsets (bgroups b)
     \<and> sessionTimeout (bgroups b') = sessionTimeout (bgroups b)"

lemma asked_heartbeat:
  assumes "IsController (enow e) (bcluster b)" "in_group b grp m gen"
  shows "\<exists>h b'. ask e b a (ReqHeartbeat grp (Good \<lparr>hqMemberID = m, hqGeneration = gen\<rparr>)) = (Some (200, BHeartbeat h), b')
    \<and> hrError h = '''' \<and> in_group b' grp m gen \<and> same_but_groups tn b b'"
proof -
  obtain g mm where g: "map_of (groups (bgroups b)) grp = Some g" "gState g = Stable" "Generation g = gen" "map_of (Members g) m = Some mm"
    using assms(2) by (auto simp: in_group_def)
  let ?g = "g\<lparr>Members := mput m (mm\<lparr>LastHeartbeat := enow e\<rparr>) (Members g)\<rparr>"
  let ?b = "b\<lparr>bgroups := put_group (bgroups b) grp ?g\<rparr>"
  have "serve e b (ReqHeartbeat grp (Good \<lparr>hqMemberID = m, hqGeneration = gen\<rparr>)) =
      (Done (Ret (200, BHeartbeat \<lparr>hrError = '''', hrState = State_String Stable\<rparr>)), ?b)"
    using g by (simp add: serve_def handleHeartbeat_def served_local [OF assms(1)] Heartbeat_def writeJSON_def json_answer_def)
  moreover have "in_group ?b grp m gen" using g by (simp add: in_group_def put_group_def)
  moreover have "same_but_groups tn b ?b" by (simp add: same_but_groups_def put_group_def)
  ultimately show ?thesis using snd_ask_Ret by (metis HeartbeatResponse.select_convs(1))
qed

lemma same_but_groups_trans: "same_but_groups tn b b' \<Longrightarrow> same_but_groups tn b' b'' \<Longrightarrow> same_but_groups tn b b''"
  using same_topic_trans by (auto simp: same_but_groups_def)

lemma same_but_groups_put [simp]: "same_but_groups tn b (b\<lparr>bgroups := put_group (bgroups b) grp g\<rparr>)"
  by (simp add: same_but_groups_def put_group_def)

text \<open>A group without members that no rebalance is waiting for.\<close>

definition idle_group :: "Broker \<Rightarrow> string \<Rightarrow> bool" where
  "idle_group b grp \<longleftrightarrow>
     (case map_of (groups (bgroups b)) grp of None \<Rightarrow> True | Some g \<Rightarrow> Members g = [] \<and> gState g \<noteq> PreparingRebalance)"

definition parts_of :: "topic_map \<Rightarrow> string \<Rightarrow> int list" where
  "parts_of asg tn = (case map_of asg tn of None \<Rightarrow> [] | Some ps \<Rightarrow> ps)"

text \<open>A group whose only member has joined and not yet synchronised.\<close>

definition joined :: "Broker \<Rightarrow> string \<Rightarrow> string \<Rightarrow> int \<Rightarrow> string \<Rightarrow> int list \<Rightarrow> bool" where
  "joined b grp m gen tn ps \<longleftrightarrow> (\<exists>g mm asg. map_of (groups (bgroups b)) grp = Some g \<and> gState g = CompletingRebalance
     \<and> Generation g = gen \<and> Members g = [(m, mm)] \<and> Assignment mm = Some asg \<and> parts_of asg tn = ps)"

lemma single_assignment: "\<exists>asg. map_of (RangeAssign [m] [(tn, ps)]) m = Some asg \<and> parts_of asg tn = sort ps"
proof -
  obtain asg where asg: "map_of (RangeAssign [m] [(tn, ps)]) m = Some asg" using RangeAssign_has [of m "[m]"] by auto
  have "concat (map (\<lambda>x. owned (RangeAssign [m] [(tn, ps)]) x tn) (sort [m])) = sort ps"
    using RangeAssign_slices [of "[m]" "[(tn, ps)]" tn ps] slices_all [of 1 ps] by (simp add: go_map_def mkeys_def)
  then show ?thesis using asg by (simp add: owned_def parts_of_def)
qed

lemma asked_join:
  assumes "IsController (enow e) (bcluster b)" "idle_group b grp" "0 \<le> sessionTimeout (bgroups b)"
  shows "\<exists>j b'. ask e b a (ReqJoin grp (Good \<lparr>jqMemberID = '''', jqTopics = [tn]\<rparr>)) = (Some (200, BJoin j), b')
    \<and> joined b' grp (jrMemberID j) (jrGeneration j) tn (sort (topicPartitions b tn)) \<and> same_but_groups tn b b'"
proof -
  let ?m = "enewID e" and ?ps = "topicPartitions b tn"
  obtain asg where asg: "map_of (RangeAssign [?m] [(tn, ?ps)]) ?m = Some asg" "parts_of asg tn = sort ?ps"
    using single_assignment by blast
  obtain g c where g: "group (bgroups b) grp = (g, c)" "Members g = []" "gState g \<noteq> PreparingRebalance"
      "sessionTimeout c = sessionTimeout (bgroups b)" "offsets c = offsets (bgroups b)"
    using assms(2) by (auto simp: idle_group_def group_def new_group_def split: option.splits)
  let ?mm = "\<lparr>mID = ?m, Topics = [tn], LastHeartbeat = enow e, Joined = True, Synced = False, Assignment = Some asg\<rparr>"
  let ?g = "g\<lparr>Generation := Generation g + 1, Leader := ?m, Members := [(?m, ?mm)], gState := CompletingRebalance\<rparr>"
  obtain r where r: "Join (Some (topicPartitions b)) (enow e) (enow e) ?m (bgroups b) grp '''' [tn] = (r, put_group c grp ?g)"
      "jMemberID r = ?m" "jGeneration r = Generation g + 1"
    using g asg(1) assms(3)
    by (simp add: Join_def beginRebalanceLocked_def maybeCompleteJoinLocked_def finishAssignmentLocked_def mvals_def mkeys_def Let_def)
  let ?j = "\<lparr>jrMemberID = jMemberID r, jrGeneration = jGeneration r, jrLeaderID = jLeaderID r, jrMembers = jMembers r, jrState = jState r\<rparr>"
  let ?b = "b\<lparr>bgroups := put_group c grp ?g\<rparr>"
  have "serve e b (ReqJoin grp (Good \<lparr>jqMemberID = '''', jqTopics = [tn]\<rparr>)) = (Done (Ret (200, BJoin ?j)), ?b)"
    using r(1) by (simp add: serve_def handleJoin_def served_local [OF assms(1)] writeJSON_def json_answer_def)
  moreover have "joined ?b grp (jrMemberID ?j) (jrGeneration ?j) tn (sort ?ps)"
    using r(2,3) asg(2) by (simp add: joined_def put_group_def)
  moreover have "same_but_groups tn b ?b" using g(4,5) by (simp add: same_but_groups_def put_group_def)
  ultimately show ?thesis using snd_ask_Ret by blast
qed

lemma asked_sync:
  assumes "IsController (enow e) (bcluster b)" "joined b grp m gen tn ps"
  shows "\<exists>s b'. ask e b a (ReqSync grp (Good \<lparr>sqMemberID = m, sqGeneration = gen\<rparr>)) = (Some (200, BSync s), b')
    \<and> srGeneration s = gen \<and> parts_of (srAssignment s) tn = ps \<and> in_group b' grp m gen \<and> same_but_groups tn b b'"
proof -
  obtain g mm asg where g: "map_of (groups (bgroups b)) grp = Some g" "gState g = CompletingRebalance" "Generation g = gen"
      "Members g = [(m, mm)]" "Assignment mm = Some asg" "parts_of asg tn = ps"
    using assms(2) by (auto simp: joined_def)
  let ?mm = "mm\<lparr>LastHeartbeat := enow e, Synced := True\<rparr>"
  let ?g = "g\<lparr>Members := [(m, ?mm)], gState := Stable\<rparr>"
  let ?b = "b\<lparr>bgroups := put_group (bgroups b) grp ?g\<rparr>"
  let ?s = "\<lparr>srGeneration = gen, srAssignment = asg, srState = ''Stable''\<rparr>"
  have "Sync (enow e) (bgroups b) grp m gen = ((asg, gen, ''Stable'', None), put_group (bgroups b) grp ?g)"
    using g by (simp add: Sync_def State_String_def Let_def)
  then have "serve e b (ReqSync grp (Good \<lparr>sqMemberID = m, sqGeneration = gen\<rparr>)) = (Done (Ret (200, BSync ?s)), ?b)"
    by (simp add: serve_def handleSync_def served_local [OF assms(1)] writeJSON_def json_answer_def)
  moreover have "in_group ?b grp m gen" using g by (simp add: in_group_def put_group_def)
  ultimately show ?thesis using snd_ask_Ret [of e b _ _ ?b a] g(6) same_but_groups_put [of tn b grp ?g]
    by (intro exI [of _ ?s] exI [of _ ?b]) simp
qed

section \<open>The loops\<close>

text \<open>
  What the loops need of the broker: it is the controller, and it leads the partitions \<open>ps\<close> of the
  topic with the logs \<open>L\<close>.
\<close>

definition serving :: "(nat \<Rightarrow> henv) \<Rightarrow> string \<Rightarrow> int list \<Rightarrow> (int \<Rightarrow> Log) \<Rightarrow> Broker \<Rightarrow> bool" where
  "serving es tn ps L b \<longleftrightarrow> (\<forall>i. IsController (enow (es i)) (bcluster b)) \<and> offsets_ok (bgroups b)
     \<and> (\<forall>p\<in>set ps. served_part b tn p (L p))"

lemma serving_same: "serving es tn ps L b \<Longrightarrow> same_topic tn b b' \<Longrightarrow> offsets_ok (bgroups b') \<Longrightarrow> serving es tn ps L b'"
  by (auto simp: serving_def served_part_same same_topic_facts(2))

lemma serving_groups: "serving es tn ps L b \<Longrightarrow> same_but_groups tn b b' \<Longrightarrow> serving es tn ps L b'"
  using serving_same [of es tn ps L b b'] by (simp add: same_but_groups_def offsets_ok_def serving_def)

lemma serving_HW: "serving es tn ps L b \<Longrightarrow> p \<in> set ps \<Longrightarrow> in_i64 p \<and> 0 \<le> HighWatermark (L p) \<and> in_i64 (HighWatermark (L p))"
  using log_inv_facts [of "L p"] by (auto simp: serving_def served_part_def in_i64_def HighWatermark_def)

lemma committed_same: "offsets (bgroups b') = offsets (bgroups b) \<Longrightarrow> committed_at b' grp tn p = committed_at b grp tn p"
  by (simp add: committed_at_def)

text \<open>
  How far the consumer is: what it remembers is what the group has committed, it is in bounds,
  and for every partition the committed records from there on fit into one answer.
\<close>

definition in_step :: "Broker \<Rightarrow> string \<Rightarrow> string \<Rightarrow> (int \<Rightarrow> Log) \<Rightarrow> (int \<Rightarrow> int) \<Rightarrow> int list \<Rightarrow> bool" where
  "in_step b grp tn L off ps \<longleftrightarrow> (\<forall>p\<in>set ps. committed_at b grp tn p = off p \<and> 0 \<le> off p \<and> off p \<le> HighWatermark (L p)
     \<and> int (rec_bytes (unread (L p) (off p))) \<le> 1048576)"

text \<open>What is printed for the partitions \<open>ps\<close>.\<close>

definition news :: "(int \<Rightarrow> Log) \<Rightarrow> (int \<Rightarrow> int) \<Rightarrow> int list \<Rightarrow> printed" where
  "news L off ps = concat (map (\<lambda>p. map (Pair p) (map json_wire (toWire (unread (L p) (off p))))) ps)"

lemma committed_exec:
  assumes s: "serving es tn ps L b" "p \<in> set ps" and i: "in_group b grp m gen" and tn: "tn \<noteq> offsetsTopic"
    and c: "ccBrokers c = a # as" "ccGroup c = grp" "ccTopic c = tn"
  shows "\<exists>r i' b'. exec (asking es) (commit_one c m gen p off) (i, b) = (r, i', b') \<and> serving es tn ps L b' \<and> same_topic tn b b'
    \<and> in_group b' grp m gen
    \<and> (\<forall>q. in_i64 q \<longrightarrow> committed_at b' grp tn q = (if q = p then off else committed_at b grp tn q))"
proof -
  let ?off = "\<lambda>b q. if q = p then off else committed_at b grp tn q"
  define P where "P b' \<longleftrightarrow> serving es tn ps L b' \<and> same_topic tn b b' \<and> in_group b' grp m gen
      \<and> (\<forall>q. in_i64 q \<longrightarrow> committed_at b' grp tn q = ?off b q)" for b'
  have p: "in_i64 p" using serving_HW [OF s] by blast
  have step: "P (snd (ask (es j) b1 x (commit_of grp m gen tn p off)))"
    if b1: "serving es tn ps L b1" "same_topic tn b b1" "in_group b1 grp m gen" "\<forall>q. in_i64 q \<longrightarrow> ?off b1 q = ?off b q" for j b1 x
  proof -
    let ?b = "snd (ask (es j) b1 x (commit_of grp m gen tn p off))"
    have ic: "IsController (enow (es j)) (bcluster b1)" using b1(1) by (simp add: serving_def)
    note k = asked_commit [OF ic tn refl, of x grp m gen p off]
    have "offsets_ok (bgroups ?b)" using b1(1) p k by (auto simp: serving_def offsets_ok_def)
    then have "serving es tn ps L ?b" using serving_same [OF b1(1)] k by blast
    moreover have "same_topic tn b ?b" using same_topic_trans b1(2) k by blast
    moreover have "in_group ?b grp m gen" using in_group_same b1(3) k by blast
    moreover have "committed_at ?b grp tn q = ?off b q" if "in_i64 q" for q
      using k offsetKey_inj [OF p that, of grp tn tn] b1(4) [rule_format, OF that] by (auto simp: committed_at_def)
    ultimately show ?thesis by (simp add: P_def)
  qed
  have "P (snd (snd (exec (asking es) (any \<lparr>Brokers = a # as\<rparr> (commit_of grp m gen tn p off) no_out) (i, b))))"
  proof (rule any_keeps)
    show "P (snd (ask (es i) b a (commit_of grp m gen tn p off)))" for a i using step [of b] s(1) i by simp
    show "P (snd (ask (es i) b1 a (commit_of grp m gen tn p off)))" if "P b1" for a i b1
      using step [of b1] that by (auto simp: P_def)
  qed simp
  then show ?thesis using c
    by (cases "exec (asking es) (any \<lparr>Brokers = a # as\<rparr> (commit_of grp m gen tn p off) no_out) (i, b)")
      (auto simp: P_def commit_one_def CommitOffsets_def commit_of_def)
qed

lemma offset_of_mput [simp]: "offset_of (mput p v m) q = (if q = p then v else offset_of m q)"
  by (simp add: offset_of_def)

lemma news_Cons: "news L off (p # ps) = map (Pair p) (map json_wire (toWire (unread (L p) (off p)))) @ news L off ps"
  by (simp add: news_def)

lemma news_cong: "(\<And>p. p \<in> set ps \<Longrightarrow> off p = off' p) \<Longrightarrow> news L off ps = news L off' ps"
  by (simp add: news_def cong: map_cong)

lemma polled:
  assumes c: "ccBrokers c = a # as" "ccGroup c = grp" "ccTopic c = tn" "ccMax c \<le> 0" "tn \<noteq> offsetsTopic"
    and s: "serving es tn ps L b" "in_group b grp m gen" "set qs \<subseteq> set ps" "distinct qs"
    and o: "in_step b grp tn L (offset_of offs) qs"
  shows "\<exists>r i' b'. exec (asking es) (poll_parts c m gen qs progress offs out) (i, b) = (r, i', b')
    \<and> \<not> prStop r \<and> prPrinted r = out @ news L (offset_of offs) qs
    \<and> (\<forall>p. offset_of (prOffsets r) p = (if p \<in> set qs then HighWatermark (L p) else offset_of offs p))
    \<and> serving es tn ps L b' \<and> same_topic tn b b' \<and> in_group b' grp m gen
    \<and> (\<forall>p. in_i64 p \<longrightarrow> committed_at b' grp tn p = (if p \<in> set qs then HighWatermark (L p) else committed_at b grp tn p))"
  using s o
proof (induction qs arbitrary: progress offs out i b)
  case Nil
  then show ?case by (auto simp: news_def)
next
  case (Cons p qs)
  let ?o = "offset_of offs p" and ?H = "HighWatermark (L p)"
  have p: "p \<in> set ps" "served_part b tn p (L p)" using Cons.prems(1,3) by (auto simp: serving_def)
  note pH = serving_HW [OF Cons.prems(1) p(1)]
  have lg: "log_inv (L p)" "start (L p) = 0" using p(2) by (simp_all add: served_part_def)
  have o: "0 \<le> ?o" "?o \<le> ?H" "int (rec_bytes (unread (L p) ?o)) \<le> 1048576" "committed_at b grp tn p = ?o"
    using Cons.prems(5) by (simp_all add: in_step_def)
  obtain fr where fr: "exec (asking es) (Client_Fetch \<lparr>Brokers = a # as\<rparr> '''' tn p ?o 1048576 False) (i, b) = (Inr fr, Suc i, b)"
      "fRecords fr = map json_wire (toWire (unread (L p) ?o))"
    using fetched [OF p(2) o(1-3)] by blast
  have qs: "set qs \<subseteq> set ps" "distinct qs" "p \<notin> set qs" using Cons.prems(3,4) by auto
  have rest: "in_step b1 grp tn L (offset_of (mput p x offs)) qs"
    if "\<forall>q. in_i64 q \<longrightarrow> committed_at b1 grp tn q = (if q = p then x else committed_at b grp tn q)" for b1 x
  proof -
    have "in_i64 q" if "q \<in> set qs" for q using serving_HW [OF Cons.prems(1)] qs(1) that by blast
    then show ?thesis using that Cons.prems(5) qs(3) by (auto simp: in_step_def)
  qed
  show ?case
  proof (cases "?o = ?H")
    case True
    then have nil: "unread (L p) ?o = []" using unread_last(1) [OF lg o(1,2)] by simp
    have "in_step b grp tn L (offset_of offs) qs" using Cons.prems(5) by (simp add: in_step_def)
    from Cons.IH [OF Cons.prems(1,2) qs(1,2) this, of progress out "Suc i"] obtain r i' b' where r:
        "exec (asking es) (poll_parts c m gen qs progress offs out) (Suc i, b) = (r, i', b')"
        "\<not> prStop r" "prPrinted r = out @ news L (offset_of offs) qs"
        "\<forall>p. offset_of (prOffsets r) p = (if p \<in> set qs then HighWatermark (L p) else offset_of offs p)"
        "serving es tn ps L b'" "same_topic tn b b'" "in_group b' grp m gen"
        "\<forall>p. in_i64 p \<longrightarrow> committed_at b' grp tn p = (if p \<in> set qs then HighWatermark (L p) else committed_at b grp tn p)"
      by blast
    have "exec (asking es) (poll_parts c m gen (p # qs) progress offs out) (i, b) = (r, i', b')"
      using r(1) fr c nil by (simp add: exec_bind toWire_def)
    then show ?thesis using r True o(4) qs(3) nil
      by (intro exI [of _ r] exI [of _ i'] exI [of _ b']) (auto simp: news_Cons toWire_def)
  next
    case False
    then have lt: "?o < ?H" using o(2) by simp
    let ?rs = "unread (L p) ?o" and ?ws = "fRecords fr"
    have ne: "?rs \<noteq> []" "?ws \<noteq> []" using unread_last(1) [OF lg o(1,2)] False fr(2) by (simp_all add: toWire_def)
    have "wOffset (last ?ws) = Offset (last ?rs)"
      using ne(1) by (simp add: fr(2) toWire_def last_map json_wire_def toWireRecord_def)
    then have lst: "i64 (wOffset (last ?ws) + 1) = ?H" using unread_last(2) [OF lg o(1,2) lt] pH by (simp add: i64_id)
    obtain u i1 b1 where u: "exec (asking es) (commit_one c m gen p ?H) (Suc i, b) = (u, i1, b1)"
        "serving es tn ps L b1" "same_topic tn b b1" "in_group b1 grp m gen"
        "\<forall>q. in_i64 q \<longrightarrow> committed_at b1 grp tn q = (if q = p then ?H else committed_at b grp tn q)"
      using committed_exec [OF Cons.prems(1) p(1) Cons.prems(2) c(5,1,2,3)] by blast
    let ?offs = "mput p ?H offs" and ?out = "out @ map (Pair p) ?ws"
    from Cons.IH [OF u(2,4) qs(1,2) rest [OF u(5)], of True ?out i1] obtain r i' b' where r:
        "exec (asking es) (poll_parts c m gen qs True ?offs ?out) (i1, b1) = (r, i', b')"
        "\<not> prStop r" "prPrinted r = ?out @ news L (offset_of ?offs) qs"
        "\<forall>p. offset_of (prOffsets r) p = (if p \<in> set qs then HighWatermark (L p) else offset_of ?offs p)"
        "serving es tn ps L b'" "same_topic tn b1 b'" "in_group b' grp m gen"
        "\<forall>p. in_i64 p \<longrightarrow> committed_at b' grp tn p = (if p \<in> set qs then HighWatermark (L p) else committed_at b1 grp tn p)"
      by blast
    have "exec (asking es) (poll_parts c m gen (p # qs) progress offs out) (i, b) = (r, i', b')"
      using r(1) fr(1) c(1-4) ne(2) u(1) by (simp add: exec_bind print_all lst)
    moreover have "news L (offset_of ?offs) qs = news L (offset_of offs) qs" using qs(3) by (intro news_cong) auto
    ultimately show ?thesis using r u(3,5) qs(3) same_topic_trans fr(2) pH
      by (intro exI [of _ r] exI [of _ i'] exI [of _ b']) (auto simp: news_Cons)
  qed
qed

text \<open>After the first pass the consumer is at the high watermarks, and later passes print nothing.\<close>

lemma in_step_done:
  assumes "serving es tn ps L b" "\<forall>p\<in>set ps. off p = HighWatermark (L p)" "\<forall>p\<in>set ps. committed_at b grp tn p = off p"
  shows "in_step b grp tn L off ps" "news L off ps = []"
proof -
  have "unread (L p) (off p) = []" if "p \<in> set ps" for p
    using that serving_HW [OF assms(1) that] assms(2) unread_done by simp
  then show "in_step b grp tn L off ps" "news L off ps = []"
    using serving_HW [OF assms(1)] assms(2,3) by (auto simp: in_step_def news_def toWire_def)
qed

lemma looped:
  assumes c: "ccBrokers c = a # as" "ccGroup c = grp" "ccTopic c = tn" "ccMax c \<le> 0" "tn \<noteq> offsetsTopic"
    and s: "serving es tn ps L b" "in_group b grp m gen" "distinct ps" "in_step b grp tn L (offset_of offs) ps"
  shows "\<exists>i' b'. exec (asking es) (poll_loop k c m gen ps idle offs out) (i, b) =
      ((OutOfFuel, out @ (if k = 0 then [] else news L (offset_of offs) ps)), i', b') \<and> same_topic tn b b'
    \<and> (0 < k \<longrightarrow> (\<forall>p\<in>set ps. committed_at b' grp tn p = HighWatermark (L p)))"
  using s
proof (induction k arbitrary: b i idle offs out)
  case (Suc k)
  have "IsController (enow (es i)) (bcluster b)" using Suc.prems(1) by (simp add: serving_def)
  from asked_heartbeat [OF this Suc.prems(2), of a tn] obtain h b1 where
    h: "ask (es i) b a (ReqHeartbeat grp (Good \<lparr>hqMemberID = m, hqGeneration = gen\<rparr>)) = (Some (200, BHeartbeat h), b1)"
      "hrError h = ''''" "in_group b1 grp m gen" "same_but_groups tn b b1" by blast
  have s1: "serving es tn ps L b1" by (rule serving_groups [OF Suc.prems(1) h(4)])
  have c1: "committed_at b1 grp tn p = committed_at b grp tn p" for p
    by (rule committed_same) (use h(4) in \<open>simp add: same_but_groups_def\<close>)
  have "in_step b1 grp tn L (offset_of offs) ps" using Suc.prems(4) by (simp add: in_step_def c1)
  from polled [OF c s1 h(3) subset_refl Suc.prems(3) this, of False out "Suc i"] obtain r i2 b2 where
    r: "exec (asking es) (poll_parts c m gen ps False offs out) (Suc i, b1) = (r, i2, b2)"
      "\<not> prStop r" "prPrinted r = out @ news L (offset_of offs) ps"
      "\<forall>p. offset_of (prOffsets r) p = (if p \<in> set ps then HighWatermark (L p) else offset_of offs p)"
      "serving es tn ps L b2" "same_topic tn b1 b2" "in_group b2 grp m gen"
      "\<forall>p. in_i64 p \<longrightarrow> committed_at b2 grp tn p = (if p \<in> set ps then HighWatermark (L p) else committed_at b1 grp tn p)"
    by blast
  have at: "committed_at b2 grp tn p = HighWatermark (L p)" if "p \<in> set ps" for p using r(8) serving_HW [OF r(5) that] that by simp
  note d = in_step_done [OF r(5), of "offset_of (prOffsets r)" grp]
  have d': "in_step b2 grp tn L (offset_of (prOffsets r)) ps" "news L (offset_of (prOffsets r)) ps = []"
    using d r(4) at by simp_all
  let ?idle = "if prProgress r then idle else idle + 1"
  from Suc.IH [OF r(5,7) Suc.prems(3) d'(1), where i = i2 and idle = ?idle and out = "prPrinted r"] obtain i' b' where b':
      "exec (asking es) (poll_loop k c m gen ps ?idle (prOffsets r) (prPrinted r)) (i2, b2) = ((OutOfFuel, prPrinted r), i', b')"
      "same_topic tn b2 b'" "0 < k \<longrightarrow> (\<forall>p\<in>set ps. committed_at b' grp tn p = HighWatermark (L p))"
    using d'(2) by auto
  have hb: "exec (asking es) (Client_Heartbeat \<lparr>Brokers = a # as\<rparr> grp \<lparr>hqMemberID = m, hqGeneration = gen\<rparr>) (i, b) = (Inr h, Suc i, b1)"
    by (simp add: Client_Heartbeat_def any_answered [of es i, OF h(1)] as_heartbeat_def)
  have "exec (asking es) (poll_loop (Suc k) c m gen ps idle offs out) (i, b) = ((OutOfFuel, prPrinted r), i', b')"
    using hb h(2) r(1,2) b'(1) c by (auto simp: exec_bind split: if_splits)
  moreover have "same_topic tn b b'" 
    using same_topic_trans [OF _ same_topic_trans [OF r(6) b'(2)]] h(4) by (simp add: same_but_groups_def)
  moreover have "\<forall>p\<in>set ps. committed_at b' grp tn p = HighWatermark (L p)"
  proof (cases k)
    case 0
    then have "b' = b2" using b'(1) by simp
    then show ?thesis using at by simp
  qed (use b'(3) in simp)
  ultimately show ?case using r(3) by auto
qed auto

lemma started_from_beginning:
  assumes "ccFromBeg c"
  shows "\<exists>offs'. start_offsets c ps offs = Ret offs' \<and> offset_of offs' = offset_of offs"
proof (induction ps arbitrary: offs)
  case (Cons p ps)
  have "offset_of (mput p 0 offs) = offset_of offs" if "p \<notin> set (mkeys offs)"
    using that by (intro ext) (auto simp: offset_of_def set_mkeys split: option.splits)
  then show ?case using Cons [of offs] Cons [of "mput p 0 offs"] assms by (auto simp del: offset_of_mput)
qed simp

lemma session_done:
  assumes c: "ccBrokers c = a # as" "ccGroup c = grp" "ccTopic c = tn" "ccMax c \<le> 0" "tn \<noteq> offsetsTopic" "tn \<noteq> ''''" "ccFromBeg c"
    and s: "serving es tn ps L b" "in_group b grp m (srGeneration sr)" "distinct ps" "in_step b grp tn L (committed_at b grp tn) ps"
    and p: "parts_of (srAssignment sr) tn = ps" "0 < k"
  shows "\<exists>i' b'. exec (asking es) (session k c m sr out) (i, b) =
      ((OutOfFuel, out @ news L (committed_at b grp tn) ps), i', b') \<and> same_topic tn b b'
    \<and> (\<forall>p\<in>set ps. committed_at b' grp tn p = HighWatermark (L p))"
proof -
  let ?os = "map (\<lambda>x. \<lparr>ocTopic = oTopic x, ocPartition = oPartition x, ocOffset = oOffset x\<rparr>) (FetchOffsets (bgroups b) grp tn)"
  have ic: "IsController (enow (es i)) (bcluster b)" and ok: "offsets_ok (bgroups b)" using s(1) by (simp_all add: serving_def)
  have "serve (es i) b (ReqOffsets grp tn) = (Done (Ret (200, BOffsets ?os)), b)"
    by (simp add: serve_def handleFetchOffsets_def served_local [OF ic] writeJSON_def json_answer_def)
  note ask = snd_ask_Ret [OF this, of a]
  have fo: "exec (asking es) (Client_FetchOffsets \<lparr>Brokers = a # as\<rparr> grp tn) (i, b) = (Inr ?os, Suc i, b)"
    by (simp add: Client_FetchOffsets_def any_answered [of es i, OF ask] as_offsets_def)
  obtain offs where offs: "start_offsets c ps (committed_offsets ?os) = Ret offs" "offset_of offs = offset_of (committed_offsets ?os)"
    using started_from_beginning [OF c(7)] by blast
  have at: "offset_of offs p = committed_at b grp tn p" if "p \<in> set ps" for p
    using offs(2) fetched_offsets [OF ok _ c(6)] serving_HW [OF s(1) that] by simp
  then have ins: "in_step b grp tn L (offset_of offs) ps" using s(4) by (simp add: in_step_def)
  have nw: "news L (offset_of offs) ps = news L (committed_at b grp tn) ps" using at by (rule news_cong)
  from looped [OF c(1-5) s(1-3) ins, of k 0 out "Suc i"] obtain i' b' where
      "exec (asking es) (poll_loop k c m (srGeneration sr) ps 0 offs out) (Suc i, b) =
        ((OutOfFuel, out @ news L (committed_at b grp tn) ps), i', b')" "same_topic tn b b'"
      "\<forall>p\<in>set ps. committed_at b' grp tn p = HighWatermark (L p)"
    using p(2) nw by auto
  then show ?thesis using fo offs(1) c p(1) by (auto simp: session_def parts_of_def exec_bind)
qed

text \<open>
  C2.  A consumer gets every committed record once: the \<open>consume\<close> command with \<open>-from-beginning\<close>,
  run against a broker that is the controller and leads the partitions of the topic, for a
  group without members, prints for each partition, in order, exactly the committed records
  from the offset that the group had committed, each once, as JSON shows them; it leaves the
  logs alone, and the offset of every partition is then committed at the high watermark, so that
  the next consumer of the group continues there.  The condition is that the committed records
  that the group has not read fit, for each partition, into one answer of 1048576 bytes, the
  budget with which the command fetches; beyond it a read can skip records (\<open>Read_skips_segment\<close>).
  The clock and the faults of the file system may be different at every request.
\<close>

theorem consume_delivers:
  assumes "ccBrokers c = a # as" "ccFromBeg c" "ccMax c \<le> 0" "ccTopic c \<noteq> ''''" "ccTopic c \<noteq> offsetsTopic"
    "idle_group b (ccGroup c)" "0 \<le> sessionTimeout (bgroups b)" "distinct (topicPartitions b (ccTopic c))"
    "serving es (ccTopic c) (topicPartitions b (ccTopic c)) L b"
    "\<forall>p\<in>set (topicPartitions b (ccTopic c)). 0 \<le> committed_at b (ccGroup c) (ccTopic c) p
       \<and> committed_at b (ccGroup c) (ccTopic c) p \<le> HighWatermark (L p)
       \<and> int (rec_bytes (drop (nat (committed_at b (ccGroup c) (ccTopic c) p)) (take (nat (HighWatermark (L p))) (contents (L p))))) \<le> 1048576"
    "0 < n" "0 < k"
  shows "\<exists>i b'. exec (asking es) (consumeCmd n k c) (0, b) =
      ((OutOfFuel, concat (map (\<lambda>p. map (\<lambda>r. (p, json_wire (toWireRecord r)))
          (drop (nat (committed_at b (ccGroup c) (ccTopic c) p)) (take (nat (HighWatermark (L p))) (contents (L p)))))
        (sort (topicPartitions b (ccTopic c))))), i, b')
    \<and> (\<forall>p\<in>set (topicPartitions b (ccTopic c)). Store_Get (bstore b') (ccTopic c) p = Some (L p)
        \<and> committed_at b' (ccGroup c) (ccTopic c) p = HighWatermark (L p))"
proof -
  let ?tn = "ccTopic c" and ?grp = "ccGroup c"
  let ?ps = "sort (topicPartitions b ?tn)" and ?at = "committed_at b ?grp ?tn"
  obtain n' where n: "n = Suc n'" using assms(11) by (cases n) auto
  have s: "serving es ?tn ?ps L b" "distinct ?ps" "in_step b ?grp ?tn L ?at ?ps"
    using assms(8-10) by (simp_all add: serving_def in_step_def unread_def)
  have ic: "IsController (enow (es i)) (bcluster x)" if "serving es ?tn ?ps L x" for i x using that by (simp add: serving_def)
  obtain j b1 where j: "ask (es 0) b a (ReqJoin ?grp (Good \<lparr>jqMemberID = '''', jqTopics = [?tn]\<rparr>)) = (Some (200, BJoin j), b1)"
      "joined b1 ?grp (jrMemberID j) (jrGeneration j) ?tn ?ps" "same_but_groups ?tn b b1"
    using asked_join [OF ic [OF s(1)] assms(6,7)] by blast
  have s1: "serving es ?tn ?ps L b1" by (rule serving_groups [OF s(1) j(3)])
  obtain sr b2 where sr: "ask (es (Suc 0)) b1 a (ReqSync ?grp (Good \<lparr>sqMemberID = jrMemberID j, sqGeneration = jrGeneration j\<rparr>)) = (Some (200, BSync sr), b2)"
      "srGeneration sr = jrGeneration j" "parts_of (srAssignment sr) ?tn = ?ps" "in_group b2 ?grp (jrMemberID j) (srGeneration sr)"
      "same_but_groups ?tn b1 b2"
    using asked_sync [OF ic [OF s1] j(2)] by metis
  have s2: "serving es ?tn ?ps L b2" by (rule serving_groups [OF s1 sr(5)])
  have sb: "same_but_groups ?tn b b2" by (rule same_but_groups_trans [OF j(3) sr(5)])
  then have at: "committed_at b2 ?grp ?tn = ?at" by (intro ext committed_same) (simp add: same_but_groups_def)
  have "in_step b2 ?grp ?tn L (committed_at b2 ?grp ?tn) ?ps" using s(3) by (simp add: in_step_def at)
  from session_done [OF assms(1) refl refl assms(3,5,4,2) s2 sr(4) s(2) this sr(3) assms(12), of "[]" "Suc (Suc 0)"] obtain i b' where
    b': "exec (asking es) (session k c (jrMemberID j) sr []) (Suc (Suc 0), b2) = ((OutOfFuel, news L ?at ?ps), i, b')"
      "same_topic ?tn b2 b'" "\<forall>p\<in>set ?ps. committed_at b' ?grp ?tn p = HighWatermark (L p)"
    unfolding at by auto
  have jx: "exec (asking es) (Client_Join \<lparr>Brokers = a # as\<rparr> ?grp \<lparr>jqMemberID = '''', jqTopics = [?tn]\<rparr>) (0, b) = (Inr j, Suc 0, b1)"
    by (simp add: Client_Join_def any_answered [of es 0, OF j(1)] as_join_def)
  have sx: "exec (asking es) (Client_Sync \<lparr>Brokers = a # as\<rparr> ?grp \<lparr>sqMemberID = jrMemberID j, sqGeneration = jrGeneration j\<rparr>) (Suc 0, b1) =
      (Inr sr, Suc (Suc 0), b2)"
    by (simp add: Client_Sync_def any_answered [of es "Suc 0", OF sr(1)] as_sync_def)
  have "exec (asking es) (consumeCmd n k c) (0, b) = ((OutOfFuel, news L ?at ?ps), i, b')"
    using jx sx b'(1) assms(1) by (simp add: consumeCmd_def n exec_bind)
  moreover have "Store_Get (bstore b') ?tn p = Some (L p)" if "p \<in> set ?ps" for p
  proof -
    have "same_topic ?tn b b'" using same_topic_trans [OF _ b'(2)] sb by (simp add: same_but_groups_def)
    then show ?thesis using s(1) that by (simp add: same_topic_facts(4) serving_def served_part_def)
  qed
  ultimately show ?thesis using b'(3) by (simp add: news_def unread_def toWire_def comp_def)
qed

text \<open>A partition with six records, four of them committed, and a new group.\<close>

definition example_ccfg :: ccfg where
  "example_ccfg = \<lparr>ccBrokers = [''a''], ccGroup = ''g'', ccTopic = ''t'', ccFromBeg = True, ccMax = 0\<rparr>"

theorem consume_delivers_witness:
  "\<exists>l i b'. Log_Open no_fault small_cfg [] = Inr l
    \<and> exec (asking (\<lambda>i. example_env)) (consumeCmd 1 5 example_ccfg) (0, example_broker 1 (SetHighWatermark (append_empty 6 l) 4)) =
      ((OutOfFuel, map (\<lambda>r. (0, json_wire (toWireRecord r))) (map empty_rec [0, 1, 2, 3])), i, b')
    \<and> committed_at b' ''g'' ''t'' 0 = 4"
proof -
  obtain l a b c where l: "Log_Open no_fault small_cfg [] = Inr l" "log_inv (append_empty 6 l)"
      "contents (append_empty 6 l) = map empty_rec [0, 1, 2, 3, 4, 5]" "LEO (append_empty 6 l) = 6" "start (append_empty 6 l) = 0"
    by (rule six_records) blast
  have hw: "hw (append_empty 6 l) = 0" using example_leader l(1) by (metis sum.inject(2))
  define lg where "lg = SetHighWatermark (append_empty 6 l) 4"
  have lg: "log_inv lg" "HighWatermark lg = 4" "start lg = 0" "contents lg = map empty_rec [0, 1, 2, 3, 4, 5]"
    using SetHighWatermark_value [OF l(2), of 4] l hw by (simp_all add: lg_def HighWatermark_def del: append_empty.simps)
  let ?b = "example_broker 1 lg"
  have tp: "topicPartitions ?b ''t'' = [0]"
    by (simp add: topicPartitions_def topic_def example_broker_def Let_def)
  have ic: "IsController 7 (bcluster ?b)"
    by (simp add: example_broker_def Let_def IsController_def ControllerID_def AliveIDs_def IsAlive_def MarkSeen_def Cluster_New_def mkeys_def)
  have co: "bgroups ?b = Coordinator_New NoFile 0 0" by (simp add: example_broker_def Let_def)
  have ok: "offsets_ok (bgroups ?b)" "idle_group ?b ''g''" "0 \<le> sessionTimeout (bgroups ?b)" "committed_at ?b ''g'' ''t'' 0 = 0"
    by (simp_all add: co offsets_ok_def idle_group_def committed_at_def Coordinator_New_def loadOffsets_def Let_def mkeys_def)
  have un: "drop (nat 0) (take (nat 4) (contents lg)) = map empty_rec [0, 1, 2, 3]" by (simp add: lg(4))
  have sv: "serving (\<lambda>i. example_env) ''t'' [0] (\<lambda>p. lg) ?b"
    using ic ok(1) lg by (simp add: serving_def served_part_def example_env_def in_i64_def)
  have st: "int (rec_bytes (drop (nat 0) (take (nat 4) (contents lg)))) \<le> 1048576"
    by (simp add: lg(4) EncodedSize_def)
  from consume_delivers [of example_ccfg "''a''" "[]" ?b "\<lambda>i. example_env" "\<lambda>p. lg" 1 5] obtain i b' where
    "exec (asking (\<lambda>i. example_env)) (consumeCmd 1 5 example_ccfg) (0, ?b) =
      ((OutOfFuel, map (\<lambda>r. (0, json_wire (toWireRecord r))) (map empty_rec [0, 1, 2, 3])), i, b')"
    "committed_at b' ''g'' ''t'' 0 = 4"
    using ok(2,3) tp sv st lg(2) un ok(4) by (auto simp: example_ccfg_def offsetsTopic_def)
  then show ?thesis using l(1) unfolding lg_def by blast
qed

end
