(* ===== verification/LS_Bench.thy ===== *)
theory LS_Bench
  imports LS_Cli "HOL-Library.Signed_Division"
begin

text \<open>
  The benchmark (\<^verbatim>\<open>src/cmd/bench/main.go\<close>): concurrent workers produce, then all partitions are
  read.  The interleaving of the workers is an argument, and so are the readings of the clock in
  the reading phase; the durations and rates that are printed are left out.
\<close>

section \<open>The phases\<close>

text \<open>
  The number of records that worker \<open>w\<close> of \<open>workers\<close> produces; Go's division truncates, and
  panics without workers.
\<close>

definition bench_count :: "int \<Rightarrow> int \<Rightarrow> int \<Rightarrow> int option" where
  "bench_count n workers w =
     (if workers = 0 then None
      else (let per = n sdiv workers in Some (if w = workers - 1 then n - per * (workers - 1) else per)))"

text \<open>A worker: it stops at the first error; the result is what it adds to \<open>produced\<close>.\<close>

primrec bench_worker :: "string list \<Rightarrow> string \<Rightarrow> (int \<Rightarrow> byte list) \<Rightarrow> byte list \<Rightarrow> string \<Rightarrow> nat \<Rightarrow> int \<Rightarrow> int \<Rightarrow> int prog" where
  "bench_worker brokers tn key_of payload acks 0 i produced = Ret produced"
| "bench_worker brokers tn key_of payload acks (Suc n) i produced =
     bind (Client_Produce \<lparr>Brokers = brokers\<rparr> ''''
         \<lparr>rqTopic = tn, rqPartition = 0, rqKey = key_of i, rqValue = payload, rqAcks = acks, rqRecords = []\<rparr>) (\<lambda>r.
       case r of
         Inl err \<Rightarrow> Ret produced
       | Inr resp \<Rightarrow> bench_worker brokers tn key_of payload acks n (i + 1) (produced + 1))"

definition bench_key :: "bool \<Rightarrow> int \<Rightarrow> int \<Rightarrow> byte list" where
  "bench_key keyed w i = (if keyed then string_bytes (''k-'' @ Itoa w @ ''-'' @ Itoa i) else [])"

definition bench_parts :: "string \<Rightarrow> Metadata \<Rightarrow> int list" where
  "bench_parts tn md =
     concat (map (\<lambda>t. if iName t = tn then map iID (iPartitions t) else []) (mdTopics md))"

text \<open>One pass over the partitions in the consuming phase.\<close>

primrec bench_scan :: "string list \<Rightarrow> string \<Rightarrow> int list \<Rightarrow> bool \<Rightarrow> int \<Rightarrow> (int \<times> int) list \<Rightarrow> (bool \<times> int \<times> (int \<times> int) list) prog" where
  "bench_scan brokers tn [] progress consumed offs = Ret (progress, consumed, offs)"
| "bench_scan brokers tn (p # ps) progress consumed offs =
     bind (Client_Fetch \<lparr>Brokers = brokers\<rparr> '''' tn p (offset_of offs p) 1048576 False) (\<lambda>r.
       case r of
         Inl err \<Rightarrow> bench_scan brokers tn ps progress consumed offs
       | Inr fr \<Rightarrow>
           if fRecords fr = [] then bench_scan brokers tn ps progress consumed offs
           else bench_scan brokers tn ps True (consumed + int (length (fRecords fr)))
                  (mput p (i64 (wOffset (last (fRecords fr)) + 1)) offs))"

text \<open>
  The consuming phase: a pass for each reading of the clock before the deadline, until all that
  was produced is consumed.
\<close>

primrec bench_consume :: "string list \<Rightarrow> string \<Rightarrow> int list \<Rightarrow> int \<Rightarrow> int \<Rightarrow> int list \<Rightarrow> int \<Rightarrow> (int \<times> int) list \<Rightarrow> int option prog" where
  "bench_consume brokers tn parts prodN deadline [] consumed offs =
     Ret (if consumed < prodN then None else Some consumed)"
| "bench_consume brokers tn parts prodN deadline (now # clock) consumed offs =
     (if consumed < prodN \<and> now < deadline
      then bind (bench_scan brokers tn parts False consumed offs) (\<lambda>(progress, consumed', offs').
             bench_consume brokers tn parts prodN deadline clock consumed' offs')
      else Ret (Some consumed))"

section \<open>The program\<close>

text \<open>The workers under a schedule: each entry lets one worker make its next call.\<close>

primrec run_workers ::
    "('s \<Rightarrow> string \<Rightarrow> request \<Rightarrow> answer \<times> 's) \<Rightarrow> nat list \<Rightarrow> 'r prog list \<Rightarrow> 's \<Rightarrow> 'r prog list \<times> 's" where
  "run_workers net [] ps s = (ps, s)"
| "run_workers net (w # ws) ps s =
     (if w < length ps
      then (case ps ! w of
              Ret x \<Rightarrow> run_workers net ws ps s
            | Call a q k \<Rightarrow> (case net s a q of (ans, s') \<Rightarrow> run_workers net ws (ps[w := k ans]) s'))
      else run_workers net ws ps s)"

text \<open>\<open>wg.Wait\<close> and the sum of what the workers counted; \<open>None\<close> while one is not done.\<close>

primrec finished_sum :: "int prog list \<Rightarrow> int option" where
  "finished_sum [] = Some 0"
| "finished_sum (p # ps) =
     (case p of Call a q k \<Rightarrow> None | Ret x \<Rightarrow> (case finished_sum ps of None \<Rightarrow> None | Some y \<Rightarrow> Some (x + y)))"

definition bench_flags :: "(string \<times> string) list \<Rightarrow> flag_set" where
  "bench_flags environ =
     [(''brokers'', VStr (getenv environ ''LOGSHIP_BROKERS'' ''127.0.0.1:9092'')), (''topic'', VStr ''bench''),
      (''n'', VInt 20000), (''value-bytes'', VInt 200), (''partitions'', VInt 3), (''rf'', VInt 3), (''acks'', VStr ''1''),
      (''workers'', VInt 4), (''keyed'', VBool True), (''out'', VStr '''')]"

definition bench_workers :: "flag_set \<Rightarrow> int prog list" where
  "bench_workers fs =
     map (\<lambda>w. bench_worker (split_brokers (flag_str fs ''brokers'')) (flag_str fs ''topic'') (bench_key (flag_bool fs ''keyed'') w)
            (string_bytes (replicate (nat (flag_int fs ''value-bytes'')) CHR ''x'')) (flag_str fs ''acks'')
            (nat (the (bench_count (flag_int fs ''n'') (flag_int fs ''workers'') w))) 0 0)
       [0..flag_int fs ''workers'' - 1]"

text \<open>
  \<open>BenchPanic\<close>: a negative size of the values, or no workers to divide by.  \<open>BenchRunning\<close>: the
  schedule or the clock ends before the program does.
\<close>

datatype bench_end = BenchExit int | BenchPanic | BenchRunning | BenchResult int int

definition bench_main ::
    "(string \<times> string) list \<Rightarrow> string list \<Rightarrow> nat list \<Rightarrow> int \<Rightarrow> int list
     \<Rightarrow> ('s \<Rightarrow> string \<Rightarrow> request \<Rightarrow> answer \<times> 's) \<Rightarrow> 's \<Rightarrow> bench_end \<times> 's" where
  "bench_main environ args schedule deadline clock net s =
     (case parse_flags (bench_flags environ) (tl args) of
        FlagExit n \<Rightarrow> (BenchExit n, s)
      | Parsed fs rest \<Rightarrow>
          (let cli = Client_New (split_brokers (flag_str fs ''brokers'')); tn = flag_str fs ''topic'';
               (r, s1) = exec net (CreateTopic cli tn (flag_int fs ''partitions'') (flag_int fs ''rf'')) s
           in if flag_int fs ''value-bytes'' < 0 \<or> flag_int fs ''workers'' = 0 then (BenchPanic, s1)
              else
                (case run_workers net schedule (bench_workers fs) s1 of
                   (ps, s2) \<Rightarrow>
                     (case finished_sum ps of
                        None \<Rightarrow> (BenchRunning, s2)
                      | Some prodN \<Rightarrow>
                          (case exec net (Client_Metadata cli) s2 of
                             (Inl err, s3) \<Rightarrow> (BenchExit 1, s3)
                           | (Inr md, s3) \<Rightarrow>
                               (case exec net (bench_consume (Brokers cli) tn (bench_parts tn md) prodN deadline clock 0 []) s3 of
                                  (None, s4) \<Rightarrow> (BenchRunning, s4)
                                | (Some consumed, s4) \<Rightarrow> (BenchResult prodN consumed, s4)))))))"

section \<open>What the workers count\<close>

text \<open>The workers of the benchmark share the records exactly.\<close>

lemma bench_count_sum:
  assumes "0 \<le> n" "1 \<le> workers"
  shows "(\<Sum>w\<in>{0..<workers}. the (bench_count n workers w)) = n"
proof -
  define per where "per = n sdiv workers"
  have "{0..<workers} = insert (workers - 1) {0..<workers - 1}" using assms(2) by auto
  moreover have "the (bench_count n workers w) = per" if "w \<in> {0..<workers - 1}" for w
    using that by (simp add: bench_count_def per_def)
  moreover have "the (bench_count n workers (workers - 1)) = n - per * (workers - 1)"
    using assms(2) by (simp add: bench_count_def per_def)
  ultimately show ?thesis using assms(2) by simp
qed

text \<open>What a program can return, whatever it is answered.\<close>

primrec returning :: "('r \<Rightarrow> bool) \<Rightarrow> 'r prog \<Rightarrow> bool" where
  "returning P (Ret x) = P x"
| "returning P (Call a q k) = (\<forall>ans. returning P (k ans))"

lemma returning_bind: "returning (\<lambda>x. returning P (f x)) p \<Longrightarrow> returning P (bind p f)"
  by (induction p) auto

lemma returning_mono: "returning P p \<Longrightarrow> (\<And>x. P x \<Longrightarrow> Q x) \<Longrightarrow> returning Q p"
  by (induction p) auto

lemma returning_any: "returning (\<lambda>x. True) p"
  by (induction p) auto

lemma bench_worker_counts:
  "returning (\<lambda>x. produced \<le> x \<and> x \<le> produced + int n) (bench_worker brokers tn key_of payload acks n i produced)"
proof (induction n arbitrary: i produced)
  case (Suc n)
  have "returning (\<lambda>x. produced \<le> x \<and> x \<le> produced + int (Suc n)) (bench_worker brokers tn key_of payload acks n (i + 1) (produced + 1))"
    using Suc [of "produced + 1" "i + 1"] by (rule returning_mono) auto
  note more = this
  show ?case unfolding bench_worker.simps
    by (rule returning_bind, rule returning_mono [OF returning_any]) (use more in \<open>simp split: sum.split\<close>)
qed simp

lemma run_workers_returning:
  assumes "list_all2 returning Ps ps" "run_workers net ws ps s = (ps', s')"
  shows "list_all2 returning Ps ps'"
  using assms
proof (induction ws arbitrary: ps s)
  case (Cons w ws)
  show ?case
  proof (cases "w < length ps \<and> (\<exists>a q k. ps ! w = Call a q k)")
    case True
    then obtain a q k where c: "ps ! w = Call a q k" "w < length ps" by blast
    obtain ans s1 where a: "net s a q = (ans, s1)" by fastforce
    have "returning (Ps ! w) (k ans)" using list_all2_nthD2 [OF Cons.prems(1) c(2)] c(1) by simp
    then have "list_all2 returning Ps (ps[w := k ans])"
      using list_all2_update_cong [OF Cons.prems(1), of "Ps ! w" "k ans" w] by simp
    then show ?thesis using Cons.IH Cons.prems(2) c a by simp
  next
    case False
    then have "run_workers net (w # ws) ps s = run_workers net ws ps s" by (cases "ps ! w") auto
    then show ?thesis using Cons by simp
  qed
qed simp

lemma finished_sum_le:
  "list_all2 (\<lambda>c p. returning (\<lambda>x. 0 \<le> x \<and> x \<le> c) p) cs ps \<Longrightarrow> finished_sum ps = Some y \<Longrightarrow> 0 \<le> y \<and> y \<le> sum_list cs"
proof (induction arbitrary: y rule: list_all2_induct)
  case (Cons c cs p ps)
  then show ?case by (cases p; cases "finished_sum ps") auto
qed simp

text \<open>
  Whatever the brokers answer and however the workers take turns, the benchmark counts no more
  records as produced than it was asked for.
\<close>

lemma sum_list_upto: "sum_list (map f [0..n - 1]) = (\<Sum>w\<in>{0..<n}. f w :: int)"
  by (simp add: interv_sum_list_conv_sum_set_int atLeastLessThanPlusOne_atLeastAtMost_int [symmetric])

lemma bench_count_nonneg:
  assumes "0 \<le> n" "1 \<le> workers" "w \<in> {0..<workers}"
  shows "0 \<le> the (bench_count n workers w)"
proof -
  have "n sdiv workers = n div workers" using assms by (simp add: signed_divide_int_def sgn_if)
  moreover have "n div workers * (workers - 1) \<le> n"
  proof -
    have "n div workers * (workers - 1) \<le> n div workers * workers" using assms by (intro mult_left_mono) (auto simp: pos_imp_zdiv_nonneg_iff)
    also have "n div workers * workers \<le> n" using assms(2) by (simp add: minus_mod_eq_div_mult [symmetric])
    finally show ?thesis .
  qed
  ultimately show ?thesis using assms by (simp add: bench_count_def Let_def pos_imp_zdiv_nonneg_iff)
qed

lemma bench_produces_at_most:
  assumes "0 \<le> flag_int fs ''n''" "1 \<le> flag_int fs ''workers''"
    "run_workers net schedule (bench_workers fs) s = (ps, s')" "finished_sum ps = Some prodN"
  shows "0 \<le> prodN \<and> prodN \<le> flag_int fs ''n''"
proof -
  let ?n = "flag_int fs ''n''" and ?w = "flag_int fs ''workers''"
  let ?cs = "map (\<lambda>w. the (bench_count ?n ?w w)) [0..?w - 1]"
  have "list_all2 returning (map (\<lambda>c x. 0 \<le> x \<and> x \<le> c) ?cs) (bench_workers fs)"
  proof -
    have "returning (\<lambda>x. 0 \<le> x \<and> x \<le> the (bench_count ?n ?w w)) (bench_worker bs tn key_of payload acks (nat (the (bench_count ?n ?w w))) 0 0)"
      if "w \<in> {0..<?w}" for w bs tn key_of payload acks
      using bench_worker_counts [of 0 "nat (the (bench_count ?n ?w w))"] bench_count_nonneg [OF assms(1,2) that] by simp
    then show ?thesis by (simp add: bench_workers_def list_all2_conv_all_nth)
  qed
  from run_workers_returning [OF this assms(3)]
  have "list_all2 (\<lambda>c p. returning (\<lambda>x. 0 \<le> x \<and> x \<le> c) p) ?cs ps" by (simp add: list_all2_map1)
  from finished_sum_le [OF this assms(4)] show ?thesis
    unfolding sum_list_upto bench_count_sum [OF assms(1,2)] .
qed

end
