(* ===== verification/LS_Main.thy ===== *)
theory LS_Main
  imports LS_Run LS_Cli
begin

text \<open>
  The server program (\<^verbatim>\<open>src/cmd/logship/main.go\<close>): its flags, whose defaults come from the
  environment, the configuration, and the broker from its construction to its end.
\<close>

section \<open>The configuration\<close>

definition main_flags :: "(string \<times> string) list \<Rightarrow> flag_set" where
  "main_flags environ =
     [(''id'', VInt (envInt environ ''LOGSHIP_ID'' 1)),
      (''bind'', VStr (getenv environ ''LOGSHIP_BIND'' ''0.0.0.0:9092'')),
      (''advertise'', VStr (getenv environ ''LOGSHIP_ADVERTISE'' '''')),
      (''data'', VStr (getenv environ ''LOGSHIP_DATA'' ''./data'')),
      (''peers'', VStr (getenv environ ''LOGSHIP_PEERS'' '''')),
      (''fsync-every'', VInt (envInt environ ''LOGSHIP_FSYNC_EVERY'' 0)),
      (''segment-bytes'', VInt (envInt environ ''LOGSHIP_SEGMENT_BYTES'' 1048576)),
      (''index-interval'', VInt (envInt environ ''LOGSHIP_INDEX_INTERVAL'' 4096)),
      (''min-isr'', VInt (envInt environ ''LOGSHIP_MIN_ISR'' 1))]"

text \<open>A data directory as its components; the empty string stays empty.\<close>

definition path_of :: "string \<Rightarrow> path" where
  "path_of s = (if s = '''' then [] else split_on CHR ''/'' s)"

definition main_config :: "flag_set \<Rightarrow> BConfig option" where
  "main_config fs =
     (case ParsePeers (flag_str fs ''peers'') of
        None \<Rightarrow> None
      | Some plist \<Rightarrow>
          Some \<lparr>cID = flag_int fs ''id'', cBind = flag_str fs ''bind'', cAdvertise = flag_str fs ''advertise'',
            cDataDir = path_of (flag_str fs ''data''), cPeers = plist,
            cSessionTimeout = 3000000000, cGroupSession = 10000000000, cRebalanceWait = 2000000000,
            cReplicaLagTime = 5000000000,
            cFsyncEvery = flag_int fs ''fsync-every'', cMaxSegmentBytes = flag_int fs ''segment-bytes'',
            cIndexInterval = flag_int fs ''index-interval'', cMinISR = flag_int fs ''min-isr'',
            cProduceTimeout = 5000000000\<rparr>)"

section \<open>The program\<close>

text \<open>
  What happens until the signal to stop: ticks of the timer, requests, and passes of the
  followers.  A tick that panics ends the program; a panic of a handler ends its request.
\<close>

datatype event =
    EvTick iofault int bool
  | EvRequest henv request
  | EvPass iofault int "string \<Rightarrow> string \<Rightarrow> int \<Rightarrow> int \<Rightarrow> FetchResponse option" string int

definition on_event :: "event \<Rightarrow> Broker \<Rightarrow> Broker option" where
  "on_event ev b =
     (case ev of
        EvTick flt now w \<Rightarrow> tick flt now w b
      | EvRequest e q \<Rightarrow> Some (snd (serve e b q))
      | EvPass flt now net tn part \<Rightarrow> Some (snd (follow_pass flt now net b tn part)))"

primrec run_events :: "event list \<Rightarrow> Broker \<Rightarrow> Broker option" where
  "run_events [] b = Some b"
| "run_events (ev # evs) b = (case on_event ev b of None \<Rightarrow> None | Some b' \<Rightarrow> run_events evs b')"

text \<open>The exit of the flag package, a fatal error, a panic, or the address and the error of \<open>Close\<close>.\<close>

datatype main_end = MainExit int | Fatal | Crashed | Stopped string "log_error option"

text \<open>
  \<open>disk\<close>, \<open>offs\<close> and \<open>tops\<close> are what the data directory holds, \<open>lnAddr\<close> the address of the listener,
  if the port could be bound.
\<close>

definition logship_main ::
    "(string \<times> string) list \<Rightarrow> string list \<Rightarrow> iofault \<Rightarrow> int \<Rightarrow> (path \<times> directory) list \<Rightarrow> (string \<times> int) list json_file
     \<Rightarrow> topicMeta list json_file \<Rightarrow> string option \<Rightarrow> event list \<Rightarrow> iofault \<Rightarrow> main_end" where
  "logship_main environ args flt now disk offs tops lnAddr evs cflt =
     (case parse_flags (main_flags environ) (tl args) of
        FlagExit n \<Rightarrow> MainExit n
      | Parsed fs rest \<Rightarrow>
          (case main_config fs of
             None \<Rightarrow> Fatal
           | Some cfg \<Rightarrow>
               (case Broker_New flt now cfg disk offs tops of
                  None \<Rightarrow> Fatal
                | Some b \<Rightarrow>
                    (case Broker_Start lnAddr b of
                       None \<Rightarrow> Fatal
                     | Some b1 \<Rightarrow>
                         (case run_events evs b1 of
                            None \<Rightarrow> Crashed
                          | Some b2 \<Rightarrow> Stopped (Broker_Addr lnAddr b1) (fst (Broker_Close cflt False b2)))))))"

section \<open>The server does not crash\<close>

text \<open>What is asked of the events: pushes agree on the replicas, member ids are not empty, and while
  a request waits, the broker makes steps of its own.\<close>

definition fair_event :: "Broker \<Rightarrow> event \<Rightarrow> bool" where
  "fair_event b ev =
     (case ev of
        EvRequest e q \<Rightarrow> agreeing b q \<and> enewID e \<noteq> ''''
          \<and> (\<forall>i x y act s. (x, y, act) \<in> set (snd (ewaits e i)) \<longrightarrow> broker_step\<^sup>*\<^sup>* s (act s))
      | _ \<Rightarrow> True)"

primrec fair :: "event list \<Rightarrow> Broker \<Rightarrow> bool" where
  "fair [] b = True"
| "fair (ev # evs) b = (fair_event b ev \<and> (case on_event ev b of None \<Rightarrow> True | Some b' \<Rightarrow> fair evs b'))"

lemma event_step: "fair_event b ev \<Longrightarrow> on_event ev b = Some b' \<Longrightarrow> broker_step b b'"
  by (cases ev)
    (auto simp: fair_event_def on_event_def intro: bs_tick bs_serve [OF prod.collapse [symmetric]] bs_pass [OF prod.collapse [symmetric]])

lemma run_events_steps:
  assumes "fair evs b" "broker_ok b"
  shows "\<exists>b'. run_events evs b = Some b' \<and> broker_step\<^sup>*\<^sup>* b b'"
  using assms
proof (induction evs arbitrary: b)
  case (Cons ev evs)
  have "on_event ev b \<noteq> None" 
    using tick_ok [OF Cons.prems(2)] by (cases ev) (auto simp: on_event_def, metis option.distinct(1))
  then obtain b1 where b1: "on_event ev b = Some b1" by blast
  then have st: "broker_step b b1" using Cons.prems(1) event_step [of b ev b1] by simp
  then have "broker_ok b1" using broker_step_sound Cons.prems(2) by (auto simp: sound_to_def)
  then show ?case using Cons.IH [of b1] Cons.prems(1) b1 st by (auto intro: converse_rtranclp_into_rtranclp)
qed simp

lemma cluster_ok_addr:
  assumes "cluster_ok c"
  shows "cluster_ok (c\<lparr>Self := (Self c)\<lparr>peerAddr := a\<rparr>, Peers := mput (peerID (Self c)) ((Self c)\<lparr>peerAddr := a\<rparr>) (Peers c)\<rparr>)"
  using assms ids_mput [of "Peers c" "(Self c)\<lparr>peerAddr := a\<rparr>"] by (simp add: cluster_ok_def)

lemma Broker_Start_ok:
  assumes "broker_ok b" "Broker_Start lnAddr b = Some b'" "peerID (Self (bcluster b)) = self_id b"
  shows "broker_ok b'"
proof -
  obtain addr where addr: "lnAddr = Some addr" using assms(2) by (cases lnAddr) (auto simp: Broker_Start_def)
  have "btopics b' = btopics b" "cluster_ok (bcluster b')"
    using assms cluster_ok_addr [of "bcluster b" addr] addr
    by (auto simp: Broker_Start_def broker_ok_def syncFollowers_def Let_def split: if_splits)
  then show ?thesis using assms(1) by (simp add: broker_ok_def topics_ok_def)
qed

lemma Broker_New_self: "Broker_New flt now cfg disk offs tops = Some b \<Longrightarrow> peerID (Self (bcluster b)) = self_id b"
  by (auto simp: Broker_New_def Cluster_New_def loadTopics_def Let_def split: prod.splits json_file.splits if_splits)

text \<open>
  The server does not crash on correct metadata: whatever its flags and its environment, whatever
  the data directory holds besides a well-formed file of topics, and whatever ticks, passes of its
  followers and requests happen, in whatever order and with whatever faults of the file system,
  as long as the pushes among the requests are well-formed and name the replicas that the
  broker knows, \<open>logship\<close> refuses to start or runs until it is stopped; no tick panics.
\<close>

theorem server_does_not_crash:
  assumes "\<forall>ts. tops = JSON ts \<longrightarrow> (\<forall>t\<in>set ts. topic_ok (tName t) t)"
    "\<And>cfg b b1. Broker_New flt now cfg disk offs tops = Some b \<Longrightarrow> Broker_Start lnAddr b = Some b1 \<Longrightarrow> fair evs b1"
  shows "logship_main environ args flt now disk offs tops lnAddr evs cflt \<noteq> Crashed"
proof -
  have "run_events evs b1 \<noteq> None" if new: "Broker_New flt now cfg disk offs tops = Some b" and st: "Broker_Start lnAddr b = Some b1" for cfg b b1
  proof -
    have "broker_ok b" using Broker_New_ok [OF new] assms(1) by blast
    then have "broker_ok b1" by (rule Broker_Start_ok [OF _ st Broker_New_self [OF new]])
    then show ?thesis using run_events_steps assms(2) [OF new st] by blast
  qed
  then show ?thesis by (fastforce simp: logship_main_def split: parsed.splits option.splits)
qed

end
