(* ===== verification/Spec2Isabelle.thy ===== *)
theory Spec2Isabelle
  imports LS_LogLife LS_Routing LS_GroupLive LS_GroupOffsets LS_Api LS_Diverge LS_AcksAll LS_Topics LS_Restart LS_EndToEnd LS_Bench LS_Main
begin

text \<open>
  Verification of logship, a partitioned, replicated commit log with consumer groups.

  \<^bold>\<open>The program.\<close>  A topic has partitions; each partition is a log of records in segment files with
  a sparse index, led by one broker and copied by followers.  Brokers know each other from the
  configuration and exchange heartbeats; the live broker with the lowest id is the controller.  It
  creates topics, elects leaders, pushes the metadata to the others and coordinates the consumer
  groups.  Producers send records to the leader of a partition; consumers read below the high
  watermark.  All communication is JSON over HTTP.

  \<^bold>\<open>Theories, from the files to the cluster.\<close>
  \<^item> \<open>LS_Prelude\<close>, \<open>LS_Stdlib\<close>: bytes, 64-bit arithmetic, lists and association lists standing for Go
    maps; \<open>strconv\<close>, \<open>strings\<close>, files and directories with the faults that the operating system can
    report (\<open>iofault\<close>, one flag for each kind of call).
  \<^item> \<open>LS_Codec\<close>: the locale of self-delimiting codecs (what decoding a concatenation gives),
    interpreted on the record format in \<open>LS_Record\<close> (\<^verbatim>\<open>internal/record/record.go\<close>) and on index
    entries in \<open>LS_Index\<close> (\<^verbatim>\<open>internal/log/index.go\<close>).
  \<^item> \<open>LS_Segment\<close> (\<^verbatim>\<open>internal/log/segment.go\<close>); \<open>LS_Log\<close>, \<open>LS_LogRead\<close>, \<open>LS_LogLife\<close>
    (\<^verbatim>\<open>internal/log/log.go\<close>): a log is its list of closed segments and the active one; \<open>contents\<close> is
    the abstraction to a list of records and \<open>log_inv\<close> the invariant.
  \<^item> \<open>LS_Store\<close> (\<^verbatim>\<open>internal/store/store.go\<close>): the open logs of a broker and their directories.
  \<^item> \<open>LS_Routing\<close> (\<^verbatim>\<open>internal/routing/partitioner.go\<close>), \<open>LS_Assignor\<close>
    (\<^verbatim>\<open>internal/assignor/range.go\<close>, with a locale for what an assignor promises), \<open>LS_Cluster\<close>
    (\<^verbatim>\<open>internal/cluster/cluster.go\<close>).
  \<^item> \<open>LS_Group\<close> (\<^verbatim>\<open>internal/group/coordinator.go\<close>), \<open>LS_GroupInv\<close> (reachable coordinators),
    \<open>LS_GroupOffsets\<close> (committed offsets), \<open>LS_GroupLive\<close> (when a group settles).
  \<^item> \<open>LS_Wire\<close> (\<^verbatim>\<open>internal/protocol/types.go\<close>): the messages, what JSON does to the bytes of a string,
    and programs that make calls (\<open>prog\<close>), which run against any network (\<open>exec\<close>) and leave a trace
    of their calls (\<open>calls\<close>).
  \<^item> \<open>LS_Client\<close> (\<^verbatim>\<open>internal/client/client.go\<close>): the client's calls as such programs.
  \<^item> \<open>LS_Broker\<close> (\<^verbatim>\<open>internal/broker/\<close>: \<^verbatim>\<open>config.go\<close>, \<^verbatim>\<open>broker.go\<close>, \<^verbatim>\<open>metadata.go\<close>, \<^verbatim>\<open>replica.go\<close>): the
    state of a broker, its tick, the controller, and both sides of replication.  Messages that the
    broker sends without looking at the answer are appended to its \<open>outbox\<close>.
  \<^item> \<open>LS_Handlers\<close> (\<^verbatim>\<open>internal/broker/handlers.go\<close>): the handlers and the routes (\<open>serve\<close>), starting
    and closing.  A handler takes the broker and the decoded request to a new broker and a program
    that may call other brokers before it answers.
  \<^item> \<open>LS_Replication\<close> (follower and leader, over the locale \<open>commit_log\<close>, interpreted on the log),
    \<open>LS_Controller\<close> (elections and topic creation), \<open>LS_MetaInv\<close> (the metadata of a broker under all
    its operations), \<open>LS_Serve\<close> (producing, consuming and replicating through the handlers), \<open>LS_Durable\<close>
    (a partition on all its brokers, as a step relation), \<open>LS_Diverge\<close> (a follower whose log differs),
    \<open>LS_AcksAll\<close> (a produce request that waits and the followers that end its wait), \<open>LS_Proxy\<close>
    (clients against several brokers that forward to each other), \<open>LS_Topics\<close> (a topic created through any
    broker and pushed to all),
    \<open>LS_Api\<close> (the shapes of the answers, metadata pushes), \<open>LS_Run\<close> (everything a broker does, as one
    step relation, with what follows for its metadata and its groups).
  \<^item> \<open>LS_Restart\<close>: a broker started on the data directory that a crash left.
  \<^item> \<open>LS_Flags\<close> (what the programs use of Go's \<open>flag\<close> package), \<open>LS_Cli\<close> (\<^verbatim>\<open>cmd/logship-cli\<close>: the commands
    and the program), \<open>LS_Bench\<close> (\<^verbatim>\<open>cmd/bench\<close>, under any schedule of its workers), \<open>LS_Main\<close>
    (\<^verbatim>\<open>cmd/logship\<close>: configuration, start, the events until the signal, close).
  \<^item> \<open>LS_EndToEnd\<close>: the \<open>consume\<close> command run against the handlers of a broker.

  \<^bold>\<open>What is shown.\<close>  Records: the format round-trips, exactly the well-formed encodings are accepted,
  every changed byte is noticed.  Logs: recovery after a crash keeps every complete record; appending
  extends the log by one record across rotations; reads return what was asked for, in order,
  below the mark they were given and within the budget but for the last record; the high watermark never retreats while the log is open.  A broker
  restarts on what a crash left of its data directory, with all its partitions.
  Replication: the follower's log stays a prefix of the leader's and catches up; the high watermark
  only advances to offsets that the in-sync replicas acknowledged, and these keep what was committed
  as long as one broker leads and their logs started as prefixes of its log;
  \<open>acks=all\<close> answers only then, and does answer once every live follower has taken its turn;
  consumers see nothing beyond it.  Metadata: the invariant of leaders, replicas and in-sync sets
  under every interleaving of the broker's operations, for pushes that are well-formed and name the known
  replicas; failover gives a live leader, and then settles if every partition has a live replica; a push
  carries the metadata over, and a topic created through any broker reaches all of them.  Groups: no partition has two owners, every partition of a subscribed
  topic has one, generations fence assignments once these are made, a group whose members synchronise is stable,
  committed offsets are what is fetched; on a running broker, members of a group that synchronise in the same generation get
  disjoint partitions, and the coordinator only makes steps of its own.  A consumer run against a
  broker prints every committed record once, if what it has not read fits into one fetch for each
  partition; a record can be sent to and read from any broker.  With a
  well-formed file of topics and pushes that agree with it, no tick of the server panics.  Client and tools: the search for a usable broker, the bound on
  retries, and that a consumer commits only what it has printed.

  \<^bold>\<open>What fails.\<close>  Some theorems state that the code does something it does not mean to do: a read can skip
  a segment (\<open>Read_skips_segment\<close>) and exceed its budget (\<open>Read_over_budget\<close>), a push that is not well-formed makes the next
  tick panic (\<open>malformed_push_panics\<close>), a partition whose replicas are all dead makes every tick write the file
  and push again (\<open>controller_settles\<close>, \<open>dead_partition_rewrites\<close>), a write that fails part-way makes a later record unreadable
  (\<open>failed_write_poisons_segment\<close>), a crafted record makes the decoder panic (\<open>decode_panics\<close>), an
  election ignores the in-sync set (\<open>unclean_election\<close>), a replica that is behind counts as in sync
  (\<open>lagging_replica_elected\<close>), a log that differs from the leader's stays so and counts as in sync (\<open>diverged_log_in_sync\<close>),
  a leader that was just elected answers \<open>acks=all\<close> alone (\<open>acks_all_alone\<close>), a batch with two leaders goes round
  (\<open>batch_goes_round\<close>), consumers that join and synchronise in turn never settle
  (\<open>rejoin_never_stable\<close>), bytes that are not UTF-8 do not survive replication (\<open>wire_roundtrip\<close>).

  \<^bold>\<open>Conventions.\<close>  Go's \<open>int\<close> and \<open>int64\<close> are integers, cut to 64 bits (\<open>i64\<close>) where the code adds to
  values that can be at the limit; \<open>uint32\<close> and bytes are words.  A map is an association list in
  insertion order; where the code ranges over a map, the model takes that order.  Time, random
  member ids, file-system faults and the texts of errors from libraries are arguments.  A mutex
  makes its operation one step, and so do the several locks that the append of a produced record takes one after
  the other (\<open>produce_append\<close>: leader check, append, acknowledgement of the leader, new mark); interleavings are sequences of steps (\<open>coord_step\<close>, \<open>meta_step\<close>, \<open>repl_step\<close>, \<open>broker_step\<close>), and
  what happens to a broker while a handler waits for the high watermark is an argument of the
  handler (\<open>ewaits\<close>).  A panic is a value of the result.

  \<^bold>\<open>Fuel.\<close>  The retry loop of \<open>Produce\<close> has its own bound of five attempts.  \<open>consumeCmd\<close> runs for ever
  without \<open>-max\<close>: its two loops take fuel, and the theorems about it hold for every positive amount.
  The
  brokers of \<open>brokers_net\<close> call each other to a given depth, and two are enough for a forwarded request.
  \<open>bench_consume\<close>, \<open>broker_loop\<close>, \<open>WaitHighWatermark\<close> and \<open>wait_hw\<close> take the readings of the clock
  as a list, one for each pass.  All other loops terminate by their structure or by a measure.

  \<^bold>\<open>Not modelled.\<close>  The syntax of JSON (a body is the value it decodes to, or a decoding error; only what
  it does to strings is modelled), URL escaping (a forwarded group request keeps its group name, where the code builds the path
  again from the decoded one), the HTTP server and its listener,
  signals, printing, sleeping and the timing of the benchmark: these are the standard library or its
  plain use.  The files that hold topics and offsets are their values or unreadable: a file that
  decodes in part is not distinguished.  Reading a file ends at its end and does not fail otherwise
  (\<open>load\<close>, \<open>recover_segment\<close>, \<open>readFrom\<close>); opening, seeking, writing, truncating, syncing and closing can fail.
\<close>

end
